(* ===== verification/Prelude.thy ===== *)
theory Prelude
  imports Main "HOL-Library.Word" "HOL-Library.Sublist" "HOL-Library.Char_ord" "HOL-Library.List_Lexorder"
begin

text \<open>
  Shared vocabulary of the development: fixed-width integer types, the C++
  standard-library string operations the sources use (\<open>std::to_string\<close>,
  \<open>std::setw\<close>, \<open>find_last_of\<close>, \<open>find\<close>, \<open>std::isdigit\<close> and friends in the
  "C" locale), joining with separators, and the generic lemmas the component
  theories share.  A \<open>std::string\<close> is a \<open>string\<close> (a list of bytes).
\<close>

section \<open>Collections of facts\<close>

named_theorems op_defs \<open>definitions of the operations of a component\<close>
named_theorems inv_intros \<open>preservation of a component invariant by its operations\<close>
named_theorems str_simps \<open>equations of the string library\<close>

section \<open>Machine types\<close>

type_synonym u8 = "8 word"
type_synonym u32 = "32 word"
type_synonym u64 = "64 word"

text \<open>
  A \<open>double\<close> is kept as its IEEE 754 bit pattern, so that \<open>std::isnan\<close>,
  \<open>std::isinf\<close> and the sign test are computable; decimal rendering of finite
  values is a parameter of the functions that print them.
\<close>

type_synonym f64 = "64 word"

definition f64_exponent :: "f64 \<Rightarrow> nat" where
  "f64_exponent v = unat (drop_bit 52 v) mod 2048"

definition f64_fraction :: "f64 \<Rightarrow> nat" where
  "f64_fraction v = unat v mod 2 ^ 52"

definition f64_sign :: "f64 \<Rightarrow> bool" where
  "f64_sign v = (2 ^ 63 \<le> unat v)"

definition isnan :: "f64 \<Rightarrow> bool" where
  "isnan v = (f64_exponent v = 2047 \<and> f64_fraction v \<noteq> 0)"

definition isinf :: "f64 \<Rightarrow> bool" where
  "isinf v = (f64_exponent v = 2047 \<and> f64_fraction v = 0)"

definition isfinite :: "f64 \<Rightarrow> bool" where
  "isfinite v = (f64_exponent v \<noteq> 2047)"

lemma f64_classes: "isfinite v = (\<not> isnan v \<and> \<not> isinf v)"
  by (auto simp: isfinite_def isnan_def isinf_def)

section \<open>Characters\<close>

abbreviation code :: "char \<Rightarrow> nat" where
  "code c \<equiv> of_char c"

abbreviation chr :: "nat \<Rightarrow> char" where
  "chr n \<equiv> char_of n"

lemma eq_chr: "n < 256 \<Longrightarrow> c = chr n \<longleftrightarrow> code c = n"
  by (metis char_of_char mod_less of_char_of)

definition isdigit :: "char \<Rightarrow> bool" where
  "isdigit c = (48 \<le> code c \<and> code c \<le> 57)"

definition islower :: "char \<Rightarrow> bool" where
  "islower c = (97 \<le> code c \<and> code c \<le> 122)"

definition isupper :: "char \<Rightarrow> bool" where
  "isupper c = (65 \<le> code c \<and> code c \<le> 90)"

definition isalpha :: "char \<Rightarrow> bool" where
  "isalpha c = (islower c \<or> isupper c)"

definition isalnum :: "char \<Rightarrow> bool" where
  "isalnum c = (isalpha c \<or> isdigit c)"

definition isspace :: "char \<Rightarrow> bool" where
  "isspace c = (code c = 32 \<or> (9 \<le> code c \<and> code c \<le> 13))"

lemmas ctype_defs = isdigit_def islower_def isupper_def isalpha_def isalnum_def isspace_def

section \<open>Decimal rendering\<close>

definition digit_char :: "nat \<Rightarrow> char" where
  "digit_char d = chr (48 + d)"

fun dec_nat :: "nat \<Rightarrow> string" where
  "dec_nat n = (if n < 10 then [digit_char n] else dec_nat (n div 10) @ [digit_char (n mod 10)])"

declare dec_nat.simps [simp del]

text \<open>\<open>std::to_string\<close> and \<open>operator<<\<close> on signed integers.\<close>

definition dec_int :: "int \<Rightarrow> string" where
  "dec_int i = (if i < 0 then CHR ''-'' # dec_nat (nat (- i)) else dec_nat (nat i))"

text \<open>The value of a run of decimal digits, most significant first.\<close>

definition digits_value :: "string \<Rightarrow> nat" where
  "digits_value s = foldl (\<lambda>acc c. acc * 10 + (code c - 48)) 0 s"

lemma code_digit_char [simp]: "d < 10 \<Longrightarrow> code (digit_char d) = 48 + d"
  by (simp add: digit_char_def)

lemma digit_char_numeral [simp]:
  "digit_char 0 = CHR ''0''" "digit_char 1 = CHR ''1''" "digit_char (Suc 0) = CHR ''1''"
  "digit_char 2 = CHR ''2''" "digit_char 3 = CHR ''3''" "digit_char 4 = CHR ''4''"
  "digit_char 5 = CHR ''5''" "digit_char 6 = CHR ''6''" "digit_char 7 = CHR ''7''"
  "digit_char 8 = CHR ''8''" "digit_char 9 = CHR ''9''"
  by (code_simp)+

lemma isdigit_digit_char [simp]: "d < 10 \<Longrightarrow> isdigit (digit_char d)"
  by (simp add: isdigit_def)

lemma dec_nat_nonempty [simp]: "dec_nat n \<noteq> []"
  by (subst dec_nat.simps) simp

lemma digits_value_snoc: "digits_value (s @ [c]) = digits_value s * 10 + (code c - 48)"
  by (simp add: digits_value_def)

lemma digits_value_dec_nat [simp]: "digits_value (dec_nat n) = n"
proof (induction n rule: dec_nat.induct)
  case (1 n)
  show ?case
  proof (cases "n < 10")
    case True
    then show ?thesis
      by (subst dec_nat.simps) (simp add: digits_value_def)
  next
    case False
    with 1 have "digits_value (dec_nat (n div 10)) = n div 10" by simp
    with False show ?thesis
      by (subst dec_nat.simps) (simp add: digits_value_snoc)
  qed
qed

lemma dec_nat_digits: "c \<in> set (dec_nat n) \<Longrightarrow> isdigit c"
proof (induction n rule: dec_nat.induct)
  case (1 n)
  show ?case
  proof (cases "n < 10")
    case True
    with "1.prems" show ?thesis by (subst (asm) dec_nat.simps) simp
  next
    case False
    with "1.prems" have "c \<in> set (dec_nat (n div 10)) \<or> c = digit_char (n mod 10)"
      by (subst (asm) dec_nat.simps) auto
    with "1.IH" False show ?thesis by auto
  qed
qed

lemma dec_nat_inject [simp]: "dec_nat m = dec_nat n \<longleftrightarrow> m = n"
  by (metis digits_value_dec_nat)

lemma minus_not_digit [simp]: "\<not> isdigit (CHR ''-'')"
  by (simp add: isdigit_def)

lemma dec_nat_no_minus [simp]: "dec_nat m \<noteq> CHR ''-'' # s"
  by (metis dec_nat_digits list.set_intros(1) minus_not_digit)

lemma dec_int_inject [simp]: "dec_int i = dec_int j \<longleftrightarrow> i = j"
  by (auto simp: dec_int_def split: if_splits dest: sym)

section \<open>Stream padding\<close>

text \<open>\<open>std::setw(n) << std::setfill(c)\<close> with right and with left adjustment.\<close>

definition pad_left :: "char \<Rightarrow> nat \<Rightarrow> string \<Rightarrow> string" where
  "pad_left c n s = replicate (n - length s) c @ s"

definition pad_right :: "char \<Rightarrow> nat \<Rightarrow> string \<Rightarrow> string" where
  "pad_right c n s = s @ replicate (n - length s) c"

lemma length_pad_left [simp]: "length (pad_left c n s) = max n (length s)"
  by (simp add: pad_left_def)

lemma length_pad_right [simp]: "length (pad_right c n s) = max n (length s)"
  by (simp add: pad_right_def)

section \<open>Searching and splitting\<close>

text \<open>
  The text after and before the last character satisfying \<open>P\<close>
  (\<open>s.substr(s.find_last_of(..) + 1)\<close> and \<open>s.substr(0, pos)\<close>); when there is
  none, \<open>find_last_of\<close> is \<open>npos\<close>.
\<close>

definition after_last :: "(char \<Rightarrow> bool) \<Rightarrow> string \<Rightarrow> string" where
  "after_last P s = rev (takeWhile (\<lambda>c. \<not> P c) (rev s))"

definition before_last :: "(char \<Rightarrow> bool) \<Rightarrow> string \<Rightarrow> string" where
  "before_last P s = rev (tl (dropWhile (\<lambda>c. \<not> P c) (rev s)))"

definition is_sep :: "char \<Rightarrow> bool" where
  "is_sep c = (c = CHR ''/'' \<or> c = CHR 0x5C)"

lemma after_last_none: "\<forall>c \<in> set s. \<not> P c \<Longrightarrow> after_last P s = s"
  by (simp add: after_last_def takeWhile_eq_all_conv [THEN iffD2])

lemma after_last_append [simp]:
  "P c \<Longrightarrow> \<forall>d \<in> set t. \<not> P d \<Longrightarrow> after_last P (s @ c # t) = t"
  by (simp add: after_last_def takeWhile_append)

lemma after_last_free: "c \<in> set (after_last P s) \<Longrightarrow> \<not> P c"
  by (auto simp: after_last_def dest: set_takeWhileD)

lemma before_last_append [simp]:
  "P c \<Longrightarrow> \<forall>d \<in> set t. \<not> P d \<Longrightarrow> before_last P (s @ c # t) = s"
  by (simp add: before_last_def dropWhile_append)

text \<open>
  \<open>s.find(c)\<close> together with the two substrings around the hit: the text before
  the first \<open>c\<close> and the text after it, or \<open>None\<close> for \<open>npos\<close>.
\<close>

fun split_at :: "char \<Rightarrow> string \<Rightarrow> (string \<times> string) option" where
  "split_at c [] = None"
| "split_at c (x # xs) =
     (if x = c then Some ([], xs)
      else map_option (\<lambda>(a, b). (x # a, b)) (split_at c xs))"

lemma split_at_Some: "split_at c s = Some (a, b) \<Longrightarrow> s = a @ c # b \<and> c \<notin> set a"
  by (induction s arbitrary: a) (auto split: if_splits)

lemma split_at_None: "split_at c s = None \<longleftrightarrow> c \<notin> set s"
  by (induction s) auto

lemma split_at_append [simp]: "c \<notin> set a \<Longrightarrow> split_at c (a @ c # b) = Some (a, b)"
  by (induction a) auto

lemma split_at_length: "split_at c s = Some (a, b) \<Longrightarrow> length a < length s \<and> length b < length s"
  by (drule split_at_Some) auto

text \<open>Joining a list of strings with a separator.\<close>

fun join :: "string \<Rightarrow> string list \<Rightarrow> string" where
  "join sep [] = []"
| "join sep [x] = x"
| "join sep (x # y # ys) = x @ sep @ join sep (y # ys)"

lemma join_Cons: "ys \<noteq> [] \<Longrightarrow> join sep (x # ys) = x @ sep @ join sep ys"
  by (cases ys) simp_all

section \<open>Ordered maps\<close>

text \<open>
  A \<open>std::map\<close> is an association list kept sorted by key (keys compare byte by
  byte, as \<open>std::less<std::string>\<close> does), because the code iterates it in key
  order.  \<open>map_put\<close> is \<open>m[k] = v\<close>, \<open>map_erase\<close> is \<open>m.erase(k)\<close>.
\<close>

fun map_put :: "'k::linorder \<Rightarrow> 'v \<Rightarrow> ('k \<times> 'v) list \<Rightarrow> ('k \<times> 'v) list" where
  "map_put k v [] = [(k, v)]"
| "map_put k v ((k', v') # m) =
     (if k = k' then (k, v) # m
      else if k < k' then (k, v) # (k', v') # m
      else (k', v') # map_put k v m)"

definition map_erase :: "'k \<Rightarrow> ('k \<times> 'v) list \<Rightarrow> ('k \<times> 'v) list" where
  "map_erase k m = filter (\<lambda>p. fst p \<noteq> k) m"

definition map_inv :: "('k::linorder \<times> 'v) list \<Rightarrow> bool" where
  "map_inv m = sorted_wrt (<) (map fst m)"

lemma map_of_map_put [simp]: "map_of (map_put k v m) = (map_of m)(k \<mapsto> v)"
  by (induction m) auto

lemma map_put_keys: "fst ` set (map_put k v m) = insert k (fst ` set m)"
  by (metis dom_map_of_conv_image_fst dom_fun_upd map_of_map_put option.distinct(1))

lemma map_put_inv [simp, inv_intros]: "map_inv m \<Longrightarrow> map_inv (map_put k v m)"
proof (induction m)
  case Nil
  then show ?case by (simp add: map_inv_def)
next
  case (Cons p m)
  obtain k' v' where p: "p = (k', v')" by (cases p)
  have keys: "set (map fst (map_put k v m)) = insert k (set (map fst m))"
    using map_put_keys [of k v m] by simp
  from Cons keys show ?case
    by (auto simp: p map_inv_def)
qed

lemma map_erase_inv [simp, inv_intros]: "map_inv m \<Longrightarrow> map_inv (map_erase k m)"
  unfolding map_inv_def map_erase_def
  by (induction m) auto

lemma map_of_map_erase [simp]: "map_of (map_erase k m) = (map_of m)(k := None)"
  unfolding map_erase_def by (induction m) auto

lemma map_inv_distinct: "map_inv m \<Longrightarrow> distinct (map fst m)"
  unfolding map_inv_def by (simp add: strict_sorted_iff)

end
