(* ===== verification/Enums.thy ===== *)
theory Enums
  imports Prelude
begin

text \<open>
  The public enumerations of \<open>enums.hpp\<close> and \<open>QueuePolicy.hpp\<close> with their
  string tables, and the colour defaults of \<open>config.hpp\<close>.
\<close>

section \<open>Log levels\<close>

datatype LogLevel =
    LOG_LVL_TRACE | LOG_LVL_DEBUG | LOG_LVL_INFO | LOG_LVL_WARN | LOG_LVL_ERROR | LOG_LVL_FATAL

text \<open>\<open>static_cast<int>(level)\<close>.\<close>

primrec level_int :: "LogLevel \<Rightarrow> int" where
  "level_int LOG_LVL_TRACE = 0"
| "level_int LOG_LVL_DEBUG = 1"
| "level_int LOG_LVL_INFO = 2"
| "level_int LOG_LVL_WARN = 3"
| "level_int LOG_LVL_ERROR = 4"
| "level_int LOG_LVL_FATAL = 5"

text \<open>The source compares levels through their integer values; so does the class instance.\<close>

instantiation LogLevel :: linorder
begin

definition less_eq_LogLevel :: "LogLevel \<Rightarrow> LogLevel \<Rightarrow> bool" where
  "less_eq_LogLevel a b = (level_int a \<le> level_int b)"

definition less_LogLevel :: "LogLevel \<Rightarrow> LogLevel \<Rightarrow> bool" where
  "less_LogLevel a b = (level_int a < level_int b)"

instance
proof
  fix a b :: LogLevel
  show "a \<le> b \<Longrightarrow> b \<le> a \<Longrightarrow> a = b"
    by (cases a; cases b) (simp_all add: less_eq_LogLevel_def)
qed (auto simp: less_eq_LogLevel_def less_LogLevel_def)

end

lemma level_int_less [simp]: "level_int a < level_int b \<longleftrightarrow> a < b"
  by (simp add: less_LogLevel_def)

lemma level_int_inject [simp]: "level_int a = level_int b \<longleftrightarrow> a = b"
  by (cases a; cases b) simp_all

lemma level_trace_least [simp]: "LOG_LVL_TRACE \<le> a"
  by (cases a) (simp_all add: less_eq_LogLevel_def)

lemma not_less_trace [simp]: "\<not> a < LOG_LVL_TRACE"
  by (simp add: not_less)

primrec level_name :: "LogLevel \<Rightarrow> string" where
  "level_name LOG_LVL_TRACE = ''TRACE''"
| "level_name LOG_LVL_DEBUG = ''DEBUG''"
| "level_name LOG_LVL_INFO = ''INFO''"
| "level_name LOG_LVL_WARN = ''WARN''"
| "level_name LOG_LVL_ERROR = ''ERROR''"
| "level_name LOG_LVL_FATAL = ''FATAL''"

primrec level_letter :: "LogLevel \<Rightarrow> string" where
  "level_letter LOG_LVL_TRACE = ''T''"
| "level_letter LOG_LVL_DEBUG = ''D''"
| "level_letter LOG_LVL_INFO = ''I''"
| "level_letter LOG_LVL_WARN = ''W''"
| "level_letter LOG_LVL_ERROR = ''E''"
| "level_letter LOG_LVL_FATAL = ''F''"

definition to_c_str_level :: "LogLevel \<Rightarrow> int \<Rightarrow> string" where
  "to_c_str_level level mode =
     (if mode = 0 then level_name level
      else if mode = 1 then level_letter level
      else level_name level)"

section \<open>Colours\<close>

datatype TextColor =
    Black | DarkRed | DarkGreen | DarkYellow | DarkBlue | DarkMagenta | DarkCyan | LightGray
  | DarkGray | Red | Green | Yellow | Blue | Magenta | Cyan | White

primrec color_code :: "TextColor \<Rightarrow> string" where
  "color_code Black = ''30''"
| "color_code DarkRed = ''31''"
| "color_code DarkGreen = ''32''"
| "color_code DarkYellow = ''33''"
| "color_code DarkBlue = ''34''"
| "color_code DarkMagenta = ''35''"
| "color_code DarkCyan = ''36''"
| "color_code LightGray = ''37''"
| "color_code DarkGray = ''90''"
| "color_code Red = ''91''"
| "color_code Green = ''92''"
| "color_code Yellow = ''93''"
| "color_code Blue = ''94''"
| "color_code Magenta = ''95''"
| "color_code Cyan = ''96''"
| "color_code White = ''97''"

abbreviation ESC :: char where
  "ESC \<equiv> CHR 0x1B"

definition to_c_str_color :: "TextColor \<Rightarrow> string" where
  "to_c_str_color c = ESC # CHR ''['' # color_code c @ ''m''"

primrec level_color :: "LogLevel \<Rightarrow> TextColor" where
  "level_color LOG_LVL_TRACE = DarkGray"
| "level_color LOG_LVL_DEBUG = Blue"
| "level_color LOG_LVL_INFO = Green"
| "level_color LOG_LVL_WARN = Yellow"
| "level_color LOG_LVL_ERROR = Red"
| "level_color LOG_LVL_FATAL = Magenta"

definition get_log_level_color :: "LogLevel \<Rightarrow> string" where
  "get_log_level_color level = to_c_str_color (level_color level)"

definition LOGIT_DEFAULT_COLOR :: TextColor where
  "LOGIT_DEFAULT_COLOR = LightGray"

section \<open>Remaining enumerations\<close>

datatype LoggerParam =
    LastFileName | LastFilePath | LastLogTimestamp | TimeSinceLastLog | DroppedLogCount
  | FailedExportCount

datatype CompressType = NONE | GZIP | ZSTD | EXTERNAL_CMD

datatype RotationNaming = Sequence | Timestamp | TimestampMs

datatype QueuePolicy = DropNewest | DropOldest | Block

end
