(* ===== verification/Records.thy ===== *)
theory Records
  imports Enums
begin

text \<open>
  The data every component exchanges: captured argument values
  (\<open>VariableValue.hpp\<close>), the thread-local diagnostic context
  (\<open>LogContext.hpp\<close>), log records (\<open>LogRecord.hpp\<close>) and the snapshot types
  (\<open>BufferedLogEntry.hpp\<close>, \<open>ILogReader.hpp\<close>).  Millisecond timestamps are
  mathematical integers; operations on them that could leave the range of
  \<open>int64_t\<close> say so where they occur.
\<close>

section \<open>std::to_string on doubles\<close>

text \<open>
  \<open>std::to_string(double)\<close> prints with \<open>%f\<close>: six fractional digits, correctly
  rounded (half to even on the exact binary value), \<open>inf\<close> and \<open>nan\<close> by name.
\<close>

definition round_div_even :: "nat \<Rightarrow> nat \<Rightarrow> nat" where
  "round_div_even n d =
     (let q = n div d; r = n mod d in
      if 2 * r < d then q else if d < 2 * r then q + 1 else if even q then q else q + 1)"

text \<open>The magnitude of a finite double as a fraction \<open>numerator / denominator\<close>.\<close>

definition f64_fraction_of :: "f64 \<Rightarrow> nat \<times> nat" where
  "f64_fraction_of v =
     (let e = f64_exponent v;
          m = (if e = 0 then f64_fraction v else 2 ^ 52 + f64_fraction v);
          x = (if e = 0 then 1 else e)
      in if 1075 \<le> x then (m * 2 ^ (x - 1075), 1) else (m, 2 ^ (1075 - x)))"

definition to_string_f64 :: "f64 \<Rightarrow> string" where
  "to_string_f64 v =
     (let sign = (if f64_sign v then ''-'' else [])
      in if isnan v then sign @ ''nan''
         else if isinf v then sign @ ''inf''
         else (let (n, d) = f64_fraction_of v;
                   k = round_div_even (n * 1000000) d
               in sign @ dec_nat (k div 1000000) @ ''.'' @
                  pad_left (CHR ''0'') 6 (dec_nat (k mod 1000000))))"

section \<open>Captured argument values\<close>

text \<open>
  The tagged union \<open>ValueType\<close> / \<open>pod_value\<close> / \<open>string_value\<close> of
  \<open>VariableValue\<close>.  \<open>float\<close> and \<open>long double\<close> payloads are only ever used after
  conversion to \<open>double\<close>, and are kept as that \<open>double\<close>.  An error code carries
  its message and its value.
\<close>

datatype ValueType =
    INT8_VAL u8 | UINT8_VAL u8 | INT16_VAL "16 word" | UINT16_VAL "16 word"
  | INT32_VAL u32 | UINT32_VAL u32 | INT64_VAL u64 | UINT64_VAL u64
  | BOOL_VAL bool | CHAR_VAL char
  | FLOAT_VAL f64 | DOUBLE_VAL f64 | LONG_DOUBLE_VAL f64
  | DURATION_VAL string | TIME_POINT_VAL string | STRING_VAL string | EXCEPTION_VAL string
  | ERROR_CODE_VAL string int | ENUM_VAL string | PATH_VAL string | POINTER_VAL string
  | SMART_POINTER_VAL string | VARIANT_VAL string | OPTIONAL_VAL string | UNKNOWN_VAL

record VariableValue =
  vv_name :: string
  vv_is_literal :: bool
  vv_value :: ValueType

definition is_valid_literal_name :: "string \<Rightarrow> bool" where
  "is_valid_literal_name name =
     (case name of [] \<Rightarrow> False | c # _ \<Rightarrow> \<not> isdigit c)"

definition mk_value :: "string \<Rightarrow> ValueType \<Rightarrow> VariableValue" where
  "mk_value name v =
     \<lparr>vv_name = name, vv_is_literal = is_valid_literal_name name, vv_value = v\<rparr>"

text \<open>
  The constructor for integral types: the width class is chosen from
  \<open>std::is_signed\<close> and \<open>sizeof\<close>, and the value is converted to it.
\<close>

definition integral_value :: "bool \<Rightarrow> nat \<Rightarrow> int \<Rightarrow> ValueType" where
  "integral_value is_signed size_of value =
     (if is_signed then
        (if size_of \<le> 1 then INT8_VAL (word_of_int value)
         else if size_of \<le> 2 then INT16_VAL (word_of_int value)
         else if size_of \<le> 4 then INT32_VAL (word_of_int value)
         else INT64_VAL (word_of_int value))
      else
        (if size_of \<le> 1 then UINT8_VAL (word_of_int value)
         else if size_of \<le> 2 then UINT16_VAL (word_of_int value)
         else if size_of \<le> 4 then UINT32_VAL (word_of_int value)
         else UINT64_VAL (word_of_int value)))"

fun value_to_string :: "ValueType \<Rightarrow> string" where
  "value_to_string (INT8_VAL w) = dec_int (sint w)"
| "value_to_string (UINT8_VAL w) = dec_int (uint w)"
| "value_to_string (INT16_VAL w) = dec_int (sint w)"
| "value_to_string (UINT16_VAL w) = dec_int (uint w)"
| "value_to_string (INT32_VAL w) = dec_int (sint w)"
| "value_to_string (UINT32_VAL w) = dec_int (uint w)"
| "value_to_string (INT64_VAL w) = dec_int (sint w)"
| "value_to_string (UINT64_VAL w) = dec_int (uint w)"
| "value_to_string (BOOL_VAL b) = (if b then ''true'' else ''false'')"
| "value_to_string (CHAR_VAL c) = [c]"
| "value_to_string (FLOAT_VAL v) = to_string_f64 v"
| "value_to_string (DOUBLE_VAL v) = to_string_f64 v"
| "value_to_string (LONG_DOUBLE_VAL v) = to_string_f64 v"
| "value_to_string (DURATION_VAL s) = s"
| "value_to_string (TIME_POINT_VAL s) = s"
| "value_to_string (STRING_VAL s) = s"
| "value_to_string (EXCEPTION_VAL s) = s"
| "value_to_string (ERROR_CODE_VAL msg v) = msg @ '' ('' @ dec_int v @ '')''"
| "value_to_string (ENUM_VAL s) = s"
| "value_to_string (PATH_VAL s) = s"
| "value_to_string (POINTER_VAL s) = s"
| "value_to_string (SMART_POINTER_VAL s) = s"
| "value_to_string (VARIANT_VAL s) = s"
| "value_to_string (OPTIONAL_VAL s) = s"
| "value_to_string UNKNOWN_VAL = ''unknown''"

text \<open>An integral argument that fits its type prints as its mathematical value.\<close>

lemma integral_value_to_string:
  assumes "size_of \<in> {1, 2, 4, 8}"
    and "if is_signed then - (2 ^ (8 * size_of - 1)) \<le> i \<and> i < 2 ^ (8 * size_of - 1)
         else 0 \<le> i \<and> i < 2 ^ (8 * size_of)"
  shows "value_to_string (integral_value is_signed size_of i) = dec_int i"
  using assms
  by (auto simp: integral_value_def sint_sbintrunc' uint_word_of_int signed_take_bit_int_eq_self
      split: if_splits)

section \<open>Diagnostic context\<close>

record LogContextSnapshot =
  cx_mdc :: "(string \<times> string) list"
  cx_ndc :: "string list"

text \<open>The two thread-local storage pointers; \<open>None\<close> is the null pointer.\<close>

record thread_context =
  mdc_storage :: "(string \<times> string) list option"
  ndc_storage :: "string list option"

definition thread_context_init :: thread_context where
  "thread_context_init = \<lparr>mdc_storage = None, ndc_storage = None\<rparr>"

definition mutable_mdc_map :: "thread_context \<Rightarrow> (string \<times> string) list" where
  "mutable_mdc_map t = (case mdc_storage t of None \<Rightarrow> [] | Some m \<Rightarrow> m)"

definition mutable_ndc_stack :: "thread_context \<Rightarrow> string list" where
  "mutable_ndc_stack t = (case ndc_storage t of None \<Rightarrow> [] | Some s \<Rightarrow> s)"

definition mdc_put :: "string \<Rightarrow> string \<Rightarrow> thread_context \<Rightarrow> thread_context" where
  "mdc_put key val t = t\<lparr>mdc_storage := Some (map_put key val (mutable_mdc_map t))\<rparr>"

definition mdc_remove :: "string \<Rightarrow> thread_context \<Rightarrow> thread_context" where
  "mdc_remove key t =
     (case mdc_storage t of None \<Rightarrow> t | Some m \<Rightarrow> t\<lparr>mdc_storage := Some (map_erase key m)\<rparr>)"

definition mdc_clear :: "thread_context \<Rightarrow> thread_context" where
  "mdc_clear t = (case mdc_storage t of None \<Rightarrow> t | Some _ \<Rightarrow> t\<lparr>mdc_storage := Some []\<rparr>)"

definition ndc_push :: "string \<Rightarrow> thread_context \<Rightarrow> thread_context" where
  "ndc_push message t = t\<lparr>ndc_storage := Some (mutable_ndc_stack t @ [message])\<rparr>"

definition ndc_pop :: "thread_context \<Rightarrow> thread_context" where
  "ndc_pop t =
     (case ndc_storage t of
        None \<Rightarrow> t
      | Some s \<Rightarrow> if s \<noteq> [] then t\<lparr>ndc_storage := Some (butlast s)\<rparr> else t)"

definition ndc_clear :: "thread_context \<Rightarrow> thread_context" where
  "ndc_clear t = (case ndc_storage t of None \<Rightarrow> t | Some _ \<Rightarrow> t\<lparr>ndc_storage := Some []\<rparr>)"

definition capture_log_context :: "thread_context \<Rightarrow> LogContextSnapshot option" where
  "capture_log_context t =
     (if (mdc_storage t = None \<or> mdc_storage t = Some []) \<and>
         (ndc_storage t = None \<or> ndc_storage t = Some [])
      then None
      else Some \<lparr>cx_mdc = mutable_mdc_map t, cx_ndc = mutable_ndc_stack t\<rparr>)"

text \<open>\<open>NdcGuard\<close>: push on construction, pop on destruction, the scope's body in between.\<close>

definition NdcGuard ::
  "string \<Rightarrow> (thread_context \<Rightarrow> thread_context) \<Rightarrow> thread_context \<Rightarrow> thread_context" where
  "NdcGuard message body t = ndc_pop (body (ndc_push message t))"

lemmas context_defs [op_defs] =
  mutable_mdc_map_def mutable_ndc_stack_def mdc_put_def mdc_remove_def mdc_clear_def
  ndc_push_def ndc_pop_def ndc_clear_def capture_log_context_def NdcGuard_def

section \<open>Log records\<close>

record LogRecord =
  lr_log_level :: LogLevel
  lr_timestamp_ms :: int
  lr_file :: string
  lr_line :: int
  lr_function :: string
  lr_format :: string
  lr_arg_names :: string
  lr_args_array :: "VariableValue list"
  lr_thread_id :: nat
  lr_logger_index :: int
  lr_print_mode :: bool
  lr_fmt_mode :: bool
  lr_raw_mode :: bool
  lr_context :: "LogContextSnapshot option"

text \<open>The constructor; the calling thread supplies its id and its diagnostic context.\<close>

definition make_LogRecord ::
  "nat \<Rightarrow> thread_context \<Rightarrow> LogLevel \<Rightarrow> int \<Rightarrow> string \<Rightarrow> int \<Rightarrow> string \<Rightarrow> string \<Rightarrow> string \<Rightarrow> int
   \<Rightarrow> bool \<Rightarrow> bool \<Rightarrow> bool \<Rightarrow> LogRecord" where
  "make_LogRecord this_thread ctx level ts file line func fmt arg_names index print_mode
     fmt_mode raw_mode =
     \<lparr>lr_log_level = level, lr_timestamp_ms = ts, lr_file = file, lr_line = line,
      lr_function = func, lr_format = fmt, lr_arg_names = arg_names, lr_args_array = [],
      lr_thread_id = this_thread, lr_logger_index = index, lr_print_mode = print_mode,
      lr_fmt_mode = fmt_mode, lr_raw_mode = raw_mode, lr_context = capture_log_context ctx\<rparr>"

record BufferedLogEntry =
  be_level :: LogLevel
  be_timestamp_ms :: int
  be_file :: string
  be_line :: int
  be_function :: string
  be_message :: string

record LogRecordSnapshot =
  sn_session_id :: nat
  sn_timestamp_ms :: int
  sn_sequence :: nat
  sn_level :: LogLevel
  sn_message :: string
  sn_payload_id :: nat
  sn_file :: string
  sn_function :: string
  sn_line :: int

datatype LogReadOrder = Ascending | Descending

end
