(* ===== verification/MdbxCodec.thy ===== *)
theory MdbxCodec
  imports Records
begin

unbundle bit_operations_syntax

text \<open>
  The bytes the MDBX backend stores: the writer and reader of
  \<open>MdbxByteIO.hpp\<close>, the record keys of \<open>MdbxKeyUtils.hpp\<close>, and the value
  formats of \<open>MdbxLogger::Session\<close>, \<open>Record\<close> and \<open>Payload\<close>.  Bytes are
  characters; a writer is the text it appends, with \<open>None\<close> for the
  \<open>std::length_error\<close> of an oversized string; a reader is a function on the
  bytes that are left, whose exceptions are the \<open>LogReadError\<close> the read calls
  report for them.
\<close>

section \<open>Byte order\<close>

text \<open>The loop over \<open>shift\<close>, most significant byte first, and the loop that reads it back.\<close>

fun write_be :: "nat \<Rightarrow> 'a::len word \<Rightarrow> string" where
  "write_be 0 value = []"
| "write_be (Suc n) value = chr (unat (drop_bit (8 * n) value AND 0xFF)) # write_be n value"

definition read_be :: "string \<Rightarrow> 'a::len word" where
  "read_be bytes = foldl (\<lambda>value c. push_bit 8 value OR of_nat (code c)) 0 bytes"

section \<open>Writer\<close>

definition write_u8 :: "u8 \<Rightarrow> string" where
  "write_u8 value = [chr (unat value)]"

definition write_u32 :: "u32 \<Rightarrow> string" where
  "write_u32 value = write_be 4 value"

definition write_u64 :: "u64 \<Rightarrow> string" where
  "write_u64 value = write_be 8 value"

definition write_i64 :: "int \<Rightarrow> string" where
  "write_i64 value = write_u64 (word_of_int value)"

definition write_string :: "string \<Rightarrow> string option" where
  "write_string value =
     (if 2 ^ 32 - 1 < int (length value) then None
      else Some (write_u32 (of_nat (length value)) @ value))"

section \<open>Reader\<close>

datatype LogReadError = NotFound | StorageError | DecodeError | UnsupportedVersion | DecompressionError

type_synonym 'a reader = "string \<Rightarrow> LogReadError + 'a \<times> string"

definition rbind :: "'a reader \<Rightarrow> ('a \<Rightarrow> 'b reader) \<Rightarrow> 'b reader" where
  "rbind rd f bytes = (case rd bytes of Inl e \<Rightarrow> Inl e | Inr (v, rest) \<Rightarrow> f v rest)"

definition rreturn :: "'a \<Rightarrow> 'a reader" where
  "rreturn v bytes = Inr (v, bytes)"

definition rfail :: "LogReadError \<Rightarrow> 'a reader" where
  "rfail e bytes = Inl e"

definition require_bytes :: "nat \<Rightarrow> string reader" where
  "require_bytes n bytes = (if length bytes < n then Inl DecodeError else Inr (take n bytes, drop n bytes))"

definition read_u8 :: "u8 reader" where
  "read_u8 = rbind (require_bytes 1) (\<lambda>bs. rreturn (read_be bs))"

definition read_u32 :: "u32 reader" where
  "read_u32 = rbind (require_bytes 4) (\<lambda>bs. rreturn (read_be bs))"

definition read_u64 :: "u64 reader" where
  "read_u64 = rbind (require_bytes 8) (\<lambda>bs. rreturn (read_be bs))"

definition read_i64 :: "int reader" where
  "read_i64 = rbind read_u64 (\<lambda>bits. rreturn (sint bits))"

definition read_string :: "string reader" where
  "read_string = rbind read_u32 (\<lambda>size'. require_bytes (unat size'))"

definition read_finish :: "'a reader \<Rightarrow> string \<Rightarrow> LogReadError + 'a" where
  "read_finish rd bytes =
     (case rd bytes of Inl e \<Rightarrow> Inl e | Inr (v, rest) \<Rightarrow> if rest = [] then Inr v else Inl DecodeError)"

section \<open>Stored values\<close>

record MdbxSession =
  ss_app_name :: string
  ss_start_time_ms :: int
  ss_end_time_ms :: int
  ss_process_id :: u64
  ss_schema_version :: u32

text \<open>\<open>rc_level\<close> is the underlying value of the \<open>LogLevel\<close>, as the row stores it.\<close>

record MdbxRecord =
  rc_session_id :: u64
  rc_timestamp_ms :: int
  rc_sequence :: u32
  rc_level :: u32
  rc_message :: string
  rc_payload_id :: u64
  rc_file :: string
  rc_function :: string
  rc_line :: int

datatype MdbxPayloadCompression = CompressionNone | CompressionGzip | CompressionZstd

record MdbxPayload =
  pl_payload_id :: u64
  pl_compression :: MdbxPayloadCompression
  pl_data :: string

primrec compression_code :: "MdbxPayloadCompression \<Rightarrow> u8" where
  "compression_code CompressionNone = 0"
| "compression_code CompressionGzip = 1"
| "compression_code CompressionZstd = 2"

definition serialize_session :: "MdbxSession \<Rightarrow> string option" where
  "serialize_session s =
     (case write_string (ss_app_name s) of
        None \<Rightarrow> None
      | Some app_name \<Rightarrow>
          Some (write_u32 1 @ app_name @ write_i64 (ss_start_time_ms s) @ write_i64 (ss_end_time_ms s) @
                write_u64 (ss_process_id s) @ write_u32 (ss_schema_version s)))"

definition session_body :: "MdbxSession reader" where
  "session_body =
     rbind read_u32 (\<lambda>version.
     if version \<noteq> 1 then rfail UnsupportedVersion else
     rbind read_string (\<lambda>app_name.
     rbind read_i64 (\<lambda>start_time_ms.
     rbind read_i64 (\<lambda>end_time_ms.
     rbind read_u64 (\<lambda>process_id.
     rbind read_u32 (\<lambda>schema_version.
     rreturn \<lparr>ss_app_name = app_name, ss_start_time_ms = start_time_ms, ss_end_time_ms = end_time_ms,
       ss_process_id = process_id, ss_schema_version = schema_version\<rparr>))))))"

definition deserialize_session :: "string \<Rightarrow> LogReadError + MdbxSession" where
  "deserialize_session = read_finish session_body"

definition serialize_record :: "MdbxRecord \<Rightarrow> string option" where
  "serialize_record r =
     (case (write_string (rc_message r), write_string (rc_file r), write_string (rc_function r)) of
        (Some msg, Some file, Some func) \<Rightarrow>
          Some (write_u32 1 @ write_u64 (rc_session_id r) @ write_i64 (rc_timestamp_ms r) @
                write_u32 (rc_sequence r) @ write_u32 (rc_level r) @ msg @ write_u64 (rc_payload_id r) @
                file @ func @ write_i64 (rc_line r))
      | _ \<Rightarrow> None)"

definition record_body :: "MdbxRecord reader" where
  "record_body =
     rbind read_u32 (\<lambda>version.
     if version \<noteq> 1 then rfail UnsupportedVersion else
     rbind read_u64 (\<lambda>session_id.
     rbind read_i64 (\<lambda>timestamp_ms.
     rbind read_u32 (\<lambda>sequence.
     rbind read_u32 (\<lambda>level.
     rbind read_string (\<lambda>msg.
     rbind read_u64 (\<lambda>payload_id.
     rbind read_string (\<lambda>file.
     rbind read_string (\<lambda>func.
     rbind read_i64 (\<lambda>line.
     rreturn \<lparr>rc_session_id = session_id, rc_timestamp_ms = timestamp_ms, rc_sequence = sequence,
       rc_level = level, rc_message = msg, rc_payload_id = payload_id, rc_file = file,
       rc_function = func, rc_line = sint (word_of_int line :: u32)\<rparr>))))))))))"

definition deserialize_record :: "string \<Rightarrow> LogReadError + MdbxRecord" where
  "deserialize_record = read_finish record_body"

definition serialize_payload :: "MdbxPayload \<Rightarrow> string option" where
  "serialize_payload p =
     (case write_string (pl_data p) of
        None \<Rightarrow> None
      | Some payload_data \<Rightarrow>
          Some (write_u32 1 @ write_u64 (pl_payload_id p) @ write_u8 (compression_code (pl_compression p)) @
                payload_data))"

definition compression_of :: "u8 \<Rightarrow> MdbxPayloadCompression" where
  "compression_of c = (if c = 0 then CompressionNone else if c = 1 then CompressionGzip else CompressionZstd)"

definition payload_body :: "MdbxPayload reader" where
  "payload_body =
     rbind read_u32 (\<lambda>version.
     if version \<noteq> 1 then rfail UnsupportedVersion else
     rbind read_u64 (\<lambda>payload_id.
     rbind read_u8 (\<lambda>compression.
     if compression_code CompressionZstd < compression then rfail DecodeError else
     rbind read_string (\<lambda>payload_data.
     rreturn \<lparr>pl_payload_id = payload_id, pl_compression = compression_of compression,
       pl_data = payload_data\<rparr>))))"

definition deserialize_payload :: "string \<Rightarrow> LogReadError + MdbxPayload" where
  "deserialize_payload = read_finish payload_body"

section \<open>Record keys\<close>

definition mdbx_write_record_key_be :: "u64 \<Rightarrow> string" where
  "mdbx_write_record_key_be value = write_be 8 value"

definition mdbx_write_record_sequence_be :: "u32 \<Rightarrow> string" where
  "mdbx_write_record_sequence_be value = write_be 4 value"

definition make_mdbx_record_key :: "int \<Rightarrow> u32 \<Rightarrow> string" where
  "make_mdbx_record_key timestamp_ms sequence =
     (let sortable_ts = word_of_int timestamp_ms XOR 0x8000000000000000
      in mdbx_write_record_key_be sortable_ts @ mdbx_write_record_sequence_be sequence)"

section \<open>Framing\<close>

text \<open>
  \<open>framed rd v bytes\<close>: the reader consumes exactly \<open>bytes\<close> to produce \<open>v\<close>,
  whatever follows, and reports corruption on every proper prefix.
\<close>

definition framed :: "'a reader \<Rightarrow> 'a \<Rightarrow> string \<Rightarrow> bool" where
  "framed rd v bytes =
     ((\<forall>rest. rd (bytes @ rest) = Inr (v, rest)) \<and>
      (\<forall>n < length bytes. rd (take n bytes) = Inl DecodeError))"

lemma framed_rreturn [intro]: "v = w \<Longrightarrow> framed (rreturn v) w []"
  by (simp add: framed_def rreturn_def)

lemma framed_rbind [intro]:
  assumes "framed rd v a" "framed (f v) w b"
  shows "framed (rbind rd f) w (a @ b)"
proof -
  have "rbind rd f (take n (a @ b)) = Inl DecodeError" if n: "n < length (a @ b)" for n
  proof (cases "n < length a")
    case False
    with assms(1) have "rd (take n (a @ b)) = Inr (v, take (n - length a) b)"
      by (simp add: framed_def)
    with False n assms(2) show ?thesis by (simp add: rbind_def framed_def)
  qed (use assms(1) in \<open>simp add: rbind_def framed_def\<close>)
  with assms show ?thesis by (simp add: framed_def rbind_def)
qed

lemma framed_require: "length bytes = n \<Longrightarrow> framed (require_bytes n) bytes bytes"
  by (auto simp: framed_def require_bytes_def)

lemma length_write_be [simp]: "length (write_be n v) = n"
  by (induction n) simp_all

section \<open>Integers\<close>

lemma and_FF: "(v :: 'a::len word) AND 0xFF = take_bit 8 v"
  by (simp add: take_bit_eq_mask mask_eq_exp_minus_1)

lemma code_byte: "code (chr (unat (v AND 0xFF :: 'a::len word))) = unat v mod 256"
proof -
  have "unat (v AND 0xFF) = take_bit 8 (unat v)" by (simp only: and_FF unsigned_take_bit_eq)
  then show ?thesis by (simp add: take_bit_eq_mod)
qed

lemma byte_of_chr: "of_nat (code (chr (unat (v AND 0xFF :: 'a::len word)))) = take_bit 8 v"
proof -
  have "unat (take_bit 8 v) = take_bit 8 (unat v)" by (rule unsigned_take_bit_eq)
  also have "\<dots> = unat v mod 256" by (simp add: take_bit_eq_mod)
  finally have "unat (take_bit 8 v) = unat v mod 256" .
  then show ?thesis unfolding code_byte by (metis of_nat_unat ucast_id)
qed

lemma be_step:
  "push_bit (8 * n) (push_bit 8 a OR take_bit 8 (drop_bit (8 * n) v)) OR take_bit (8 * n) v =
   push_bit (8 * Suc n) a OR take_bit (8 * Suc n) (v :: 'a::len word)"
  by (rule bit_word_eqI) (auto simp: bit_simps add.commute [of 8 "8 * n"])

lemma foldl_write_be:
  "foldl (\<lambda>value c. push_bit 8 value OR of_nat (code c)) a (write_be n v) =
   push_bit (8 * n) a OR take_bit (8 * n) (v :: 'a::len word)"
proof (induction n arbitrary: a)
  case (Suc n)
  have "foldl (\<lambda>value c. push_bit 8 value OR of_nat (code c)) a (write_be (Suc n) v) =
    push_bit (8 * n) (push_bit 8 a OR take_bit 8 (drop_bit (8 * n) v)) OR take_bit (8 * n) v"
    by (simp only: write_be.simps foldl_Cons Suc byte_of_chr)
  then show ?case by (simp only: be_step)
qed simp

lemma read_write_be [simp]: "LENGTH('a) \<le> 8 * n \<Longrightarrow> read_be (write_be n v) = (v :: 'a::len word)"
  by (simp add: read_be_def foldl_write_be take_bit_word_eq_self)

text \<open>Big-endian texts of one length compare as the numbers they spell.\<close>

lemma write_be_less:
  "write_be n v < write_be n w \<longleftrightarrow> unat (v :: 'a::len word) mod 256 ^ n < unat (w :: 'a word) mod 256 ^ n"
proof (induction n)
  case (Suc n)
  have top: "code (chr (unat (drop_bit (8 * n) x AND 0xFF))) = unat x div 256 ^ n mod 256" for x :: "'a word"
  proof -
    have "unat (drop_bit (8 * n) x) = drop_bit (8 * n) (take_bit LENGTH('a) (unat x))"
      by (rule unsigned_drop_bit_eq)
    also have "\<dots> = unat x div 256 ^ n"
      by (simp add: drop_bit_eq_div power_mult take_bit_nat_eq_self_iff [THEN iffD2, OF unsigned_less])
    finally show ?thesis by (simp only: code_byte)
  qed
  have split: "unat x mod 256 ^ Suc n = unat x div 256 ^ n mod 256 * 256 ^ n + unat x mod 256 ^ n" for x :: "'a word"
    by (metis add.commute mod_mult2_eq mult.commute power_Suc2)
  have lt: "unat x mod 256 ^ n < 256 ^ n" for x :: "'a word" by simp
  have order: "a * k + x < b * k + y \<longleftrightarrow> a < b \<or> a = b \<and> x < y" if "x < k" "y < k" for a b k x y :: nat
  proof -
    have "a * k + x < b * k + y" if "a < b"
    proof -
      have "a * k + x < Suc a * k" using \<open>x < k\<close> by simp
      also have "\<dots> \<le> b * k" using that by (intro mult_le_mono1) simp
      finally show ?thesis by simp
    qed
    moreover have "b * k + y < a * k + x" if "b < a"
    proof -
      have "b * k + y < Suc b * k" using \<open>y < k\<close> by simp
      also have "\<dots> \<le> a * k" using that by (intro mult_le_mono1) simp
      finally show ?thesis by simp
    qed
    ultimately show ?thesis by (metis add_less_cancel_left linorder_neqE_nat not_less_iff_gr_or_eq)
  qed
  have chars: "chr a = chr b \<longleftrightarrow> code (chr a) = code (chr b)" for a b by simp
  show ?case
    unfolding write_be.simps Cons_less_Cons less_char_def chars top Suc split
    by (subst order) simp_all
qed simp

section \<open>Formats\<close>

text \<open>A format that frames its values: reading back, truncation, trailing bytes, unique readability.\<close>

locale wire_format =
  fixes enc :: "'a \<Rightarrow> string option" and body :: "'a reader" and ok :: "'a \<Rightarrow> bool"
  assumes enc_framed: "ok v \<Longrightarrow> \<exists>bytes. enc v = Some bytes \<and> framed body v bytes"
begin

lemma enc_defined: "ok v \<Longrightarrow> \<exists>bytes. enc v = Some bytes"
  using enc_framed by blast

lemma decode: "ok v \<Longrightarrow> enc v = Some bytes \<Longrightarrow> read_finish body bytes = Inr v"
  using enc_framed [of v] by (auto simp: framed_def read_finish_def dest: spec [of _ "[]"])

lemma truncated:
  "ok v \<Longrightarrow> enc v = Some bytes \<Longrightarrow> n < length bytes \<Longrightarrow> read_finish body (take n bytes) = Inl DecodeError"
  using enc_framed [of v] by (auto simp: framed_def read_finish_def)

lemma trailing:
  "ok v \<Longrightarrow> enc v = Some bytes \<Longrightarrow> rest \<noteq> [] \<Longrightarrow> read_finish body (bytes @ rest) = Inl DecodeError"
  using enc_framed [of v] by (auto simp: framed_def read_finish_def)

lemma injective: "ok v \<Longrightarrow> ok w \<Longrightarrow> enc v = Some bytes \<Longrightarrow> enc w = Some bytes \<Longrightarrow> v = w"
  using decode by (metis Inr_inject)

end

lemma framed_end: "framed rd v a \<Longrightarrow> f v = rreturn w \<Longrightarrow> framed (rbind rd f) w a"
  by (auto simp: framed_def rbind_def rreturn_def)

lemma framed_word:
  "LENGTH('a) \<le> 8 * n \<Longrightarrow> framed (rbind (require_bytes n) (\<lambda>bs. rreturn (read_be bs))) v (write_be n (v :: 'a::len word))"
  by (rule framed_end [OF framed_require]) simp_all

lemma framed_u32: "framed read_u32 v (write_u32 v)"
  unfolding read_u32_def write_u32_def by (rule framed_word) simp

lemma framed_u64: "framed read_u64 v (write_u64 v)"
  unfolding read_u64_def write_u64_def by (rule framed_word) simp

lemma framed_u8: "framed read_u8 v (write_u8 v)"
proof -
  have "write_u8 v = write_be 1 v"
    by (simp add: write_u8_def and_FF take_bit_word_eq_self)
  then show ?thesis unfolding read_u8_def by (simp only:) (rule framed_word, simp)
qed

definition int64_range :: "int \<Rightarrow> bool" where
  "int64_range i = (- (2 ^ 63) \<le> i \<and> i < 2 ^ 63)"

definition int32_range :: "int \<Rightarrow> bool" where
  "int32_range i = (- (2 ^ 31) \<le> i \<and> i < 2 ^ 31)"

lemma sint_u64 [simp]: "int64_range i \<Longrightarrow> sint (word_of_int i :: u64) = i"
  by (simp add: int64_range_def sint_sbintrunc' signed_take_bit_int_eq_self)

lemma sint_u32 [simp]: "int32_range i \<Longrightarrow> sint (word_of_int i :: u32) = i"
  by (simp add: int32_range_def sint_sbintrunc' signed_take_bit_int_eq_self)

lemma int32_int64: "int32_range i \<Longrightarrow> int64_range i"
  by (simp add: int32_range_def int64_range_def)

lemma framed_i64: "int64_range i \<Longrightarrow> framed read_i64 i (write_i64 i)"
  unfolding read_i64_def write_i64_def
  by (rule framed_end [OF framed_u64]) simp

definition fits_u32 :: "string \<Rightarrow> bool" where
  "fits_u32 s = (length s < 2 ^ 32)"

lemma framed_string: "fits_u32 s \<Longrightarrow> framed read_string s (write_u32 (of_nat (length s)) @ s)"
  unfolding read_string_def
  by (rule framed_rbind [OF framed_u32]) (simp add: framed_require unat_of_nat fits_u32_def)

lemma write_string_fits [simp]: "fits_u32 s \<Longrightarrow> write_string s = Some (write_u32 (of_nat (length s)) @ s)"
  by (simp add: write_string_def fits_u32_def)

lemmas framed_fields = framed_u8 framed_u32 framed_u64 framed_i64 framed_string

section \<open>The three formats\<close>

definition session_ok :: "MdbxSession \<Rightarrow> bool" where
  "session_ok s = (fits_u32 (ss_app_name s) \<and> int64_range (ss_start_time_ms s) \<and> int64_range (ss_end_time_ms s))"

definition record_ok :: "MdbxRecord \<Rightarrow> bool" where
  "record_ok r = (int64_range (rc_timestamp_ms r) \<and> int32_range (rc_line r) \<and>
     fits_u32 (rc_message r) \<and> fits_u32 (rc_file r) \<and> fits_u32 (rc_function r))"

definition payload_ok :: "MdbxPayload \<Rightarrow> bool" where
  "payload_ok p = fits_u32 (pl_data p)"

lemma session_framed:
  assumes "session_ok s"
  shows "\<exists>bytes. serialize_session s = Some bytes \<and> framed session_body s bytes"
proof -
  from assms have ok: "fits_u32 (ss_app_name s)" "int64_range (ss_start_time_ms s)" "int64_range (ss_end_time_ms s)"
    by (simp_all add: session_ok_def)
  note frames = framed_string [OF ok(1)] framed_i64 [OF ok(2)] framed_i64 [OF ok(3)] framed_u64 [of "ss_process_id s"]
  show ?thesis
    unfolding session_body_def serialize_session_def write_string_fits [OF ok(1)] option.case
    by (rule exI, rule conjI, rule refl)
      (rule framed_rbind [OF framed_u32], simp del: append_assoc,
       (rule framed_rbind, rule frames)+, rule framed_end [OF framed_u32], cases s, simp)
qed

lemma record_framed:
  assumes "record_ok r"
  shows "\<exists>bytes. serialize_record r = Some bytes \<and> framed record_body r bytes"
proof -
  from assms have ok: "int64_range (rc_timestamp_ms r)" "int32_range (rc_line r)"
    "fits_u32 (rc_message r)" "fits_u32 (rc_file r)" "fits_u32 (rc_function r)"
    by (simp_all add: record_ok_def)
  note frames = framed_string [OF ok(3)] framed_string [OF ok(4)] framed_string [OF ok(5)] framed_i64 [OF ok(1)]
    framed_u64 [of "rc_session_id r"] framed_u64 [of "rc_payload_id r"]
    framed_u32 [of "rc_sequence r"] framed_u32 [of "rc_level r"]
  show ?thesis
    unfolding record_body_def serialize_record_def write_string_fits [OF ok(3)] write_string_fits [OF ok(4)]
      write_string_fits [OF ok(5)] option.case prod.case
    by (rule exI, rule conjI, rule refl)
      (rule framed_rbind [OF framed_u32], simp del: append_assoc,
       (rule framed_rbind, rule frames)+, rule framed_end [OF framed_i64 [OF int32_int64 [OF ok(2)]]], use ok(2) in \<open>cases r, simp\<close>)
qed

lemma compression_of_code [simp]: "compression_of (compression_code c) = c"
  by (cases c) (simp_all add: compression_of_def)

lemma compression_code_le: "\<not> compression_code CompressionZstd < compression_code c"
  by (cases c) simp_all

lemma payload_framed:
  assumes "payload_ok p"
  shows "\<exists>bytes. serialize_payload p = Some bytes \<and> framed payload_body p bytes"
proof -
  from assms have ok: "fits_u32 (pl_data p)" by (simp add: payload_ok_def)
  show ?thesis
    unfolding payload_body_def serialize_payload_def write_string_fits [OF ok] option.case
    by (rule exI, rule conjI, rule refl)
      (rule framed_rbind [OF framed_u32], simp del: append_assoc compression_code.simps,
       rule framed_rbind [OF framed_u64], rule framed_rbind [OF framed_u8],
       simp del: append_assoc compression_code.simps add: compression_code_le,
       rule framed_end [OF framed_string [OF ok]], cases p, simp)
qed

interpretation session_format: wire_format serialize_session session_body session_ok
  by unfold_locales (rule session_framed)

interpretation record_format: wire_format serialize_record record_body record_ok
  by unfold_locales (rule record_framed)

interpretation payload_format: wire_format serialize_payload payload_body payload_ok
  by unfold_locales (rule payload_framed)

section \<open>Order of record keys\<close>

lemma len64: "LENGTH(64) = 64"
  by simp

lemma sortable_ts:
  assumes "int64_range ts"
  shows "uint (word_of_int ts XOR 0x8000000000000000 :: u64) = ts + 2 ^ 63"
proof -
  let ?x = "word_of_int ts :: u64"
  have "?x XOR 0x8000000000000000 = flip_bit 63 ?x"
    by (simp add: flip_bit_eq_xor push_bit_of_1)
  also have "\<dots> = ?x + 2 ^ 63"
    by (cases "bit ?x 63") (simp_all add: flip_bit_eq_if set_bit_eq unset_bit_eq)
  also have "\<dots> = word_of_int (ts + 2 ^ 63)" by simp
  finally have "uint (?x XOR 0x8000000000000000) = (ts + 2 ^ 63) mod 2 ^ 64"
    by (simp only: uint_word_of_int len64)
  then show ?thesis
    using assms by (simp add: int64_range_def)
qed

lemma append_less:
  fixes xs :: "'a::linorder list"
  shows "length xs = length xs' \<Longrightarrow> xs @ ys < xs' @ ys' \<longleftrightarrow> xs < xs' \<or> xs = xs' \<and> ys < ys'"
  by (induction xs xs' rule: list_induct2) auto

lemma write_be_order:
  assumes "LENGTH('a) = 8 * n"
  shows "write_be n v < write_be n w \<longleftrightarrow> v < (w :: 'a::len word)" "write_be n v = write_be n w \<longleftrightarrow> v = w"
proof -
  have "unat x mod 256 ^ n = unat x" for x :: "'a word"
    using unsigned_less [of x, where 'a = nat] assms by (simp add: power_mult)
  then show "write_be n v < write_be n w \<longleftrightarrow> v < w" by (simp add: write_be_less word_less_nat_alt)
  show "write_be n v = write_be n w \<longleftrightarrow> v = w" using assms by (metis read_write_be order_refl)
qed

lemma make_mdbx_record_key_less:
  assumes "int64_range ts" "int64_range ts'"
  shows "make_mdbx_record_key ts q < make_mdbx_record_key ts' q' \<longleftrightarrow> ts < ts' \<or> ts = ts' \<and> q < q'"
proof -
  let ?s = "\<lambda>t. word_of_int t XOR 0x8000000000000000 :: u64"
  have "?s ts < ?s ts' \<longleftrightarrow> ts < ts'" "?s ts = ?s ts' \<longleftrightarrow> ts = ts'"
    using assms by (simp_all only: word_less_def word_uint_eq_iff sortable_ts) simp_all
  then show ?thesis
    unfolding make_mdbx_record_key_def mdbx_write_record_key_be_def mdbx_write_record_sequence_be_def Let_def
    by (simp add: append_less write_be_order)
qed

lemma make_mdbx_record_key_eq:
  assumes "int64_range ts" "int64_range ts'"
  shows "make_mdbx_record_key ts q = make_mdbx_record_key ts' q' \<longleftrightarrow> ts = ts' \<and> q = q'"
  using make_mdbx_record_key_less [OF assms, of q q'] make_mdbx_record_key_less [OF assms(2,1), of q' q]
  by (metis linorder_neqE order_less_irrefl)

section \<open>Reading back\<close>

text \<open>The bytes stand for \<open>v\<close>, and neither a truncation nor an extension of them is taken for a value.\<close>

definition reads_back :: "(string \<Rightarrow> LogReadError + 'a) \<Rightarrow> string \<Rightarrow> 'a \<Rightarrow> bool" where
  "reads_back deser bytes v =
     (deser bytes = Inr v \<and> (\<forall>n < length bytes. deser (take n bytes) = Inl DecodeError) \<and>
      (\<forall>rest. rest \<noteq> [] \<longrightarrow> deser (bytes @ rest) = Inl DecodeError))"

lemma record_reads_back:
  "record_ok r \<Longrightarrow> \<exists>bytes. serialize_record r = Some bytes \<and> reads_back deserialize_record bytes r"
  using record_format.decode record_format.truncated record_format.trailing record_format.enc_defined [of r]
  unfolding reads_back_def deserialize_record_def by blast

lemma session_reads_back:
  "session_ok s \<Longrightarrow> \<exists>bytes. serialize_session s = Some bytes \<and> reads_back deserialize_session bytes s"
  using session_format.decode session_format.truncated session_format.trailing session_format.enc_defined [of s]
  unfolding reads_back_def deserialize_session_def by blast

lemma payload_reads_back:
  "payload_ok p \<Longrightarrow> \<exists>bytes. serialize_payload p = Some bytes \<and> reads_back deserialize_payload bytes p"
  using payload_format.decode payload_format.truncated payload_format.trailing payload_format.enc_defined [of p]
  unfolding reads_back_def deserialize_payload_def by blast

text \<open>C40: Every record, session and payload whose strings are shorter than 2^32 bytes and whose
  times and line fit their C++ types is serialized, the bytes are read back as the same value with
  every field intact, and no truncated or extended copy of the bytes is accepted: the reader reports
  a decode error for each.\<close>

theorem mdbx_codec_roundtrip:
  assumes "record_ok r" "session_ok s" "payload_ok p"
  shows "(\<exists>bytes. serialize_record r = Some bytes \<and> reads_back deserialize_record bytes r) \<and>
    (\<exists>bytes. serialize_session s = Some bytes \<and> reads_back deserialize_session bytes s) \<and>
    (\<exists>bytes. serialize_payload p = Some bytes \<and> reads_back deserialize_payload bytes p)"
  using record_reads_back session_reads_back payload_reads_back assms by blast

definition demo_record :: MdbxRecord where
  "demo_record =
     \<lparr>rc_session_id = 7, rc_timestamp_ms = - 5, rc_sequence = 3, rc_level = 2, rc_message = ''boot'',
      rc_payload_id = 0, rc_file = ''main.cpp'', rc_function = ''main'', rc_line = 42\<rparr>"

definition demo_session :: MdbxSession where
  "demo_session =
     \<lparr>ss_app_name = ''app'', ss_start_time_ms = 1000, ss_end_time_ms = 0, ss_process_id = 99, ss_schema_version = 1\<rparr>"

definition demo_payload :: MdbxPayload where
  "demo_payload = \<lparr>pl_payload_id = 12, pl_compression = CompressionGzip, pl_data = ''zzz''\<rparr>"

theorem mdbx_codec_roundtrip_witness:
  "record_ok demo_record \<and> session_ok demo_session \<and> payload_ok demo_payload \<and>
   (\<exists>bytes. serialize_record demo_record = Some bytes \<and> reads_back deserialize_record bytes demo_record)"
proof -
  have ok: "record_ok demo_record" "session_ok demo_session" "payload_ok demo_payload"
    by (simp_all add: record_ok_def session_ok_def payload_ok_def demo_record_def demo_session_def
      demo_payload_def int64_range_def int32_range_def fits_u32_def)
  from mdbx_codec_roundtrip [OF ok] ok show ?thesis by blast
qed

end
