(* ===== verification/FileSystem.thy ===== *)
theory FileSystem
  imports Prelude
begin

text \<open>
  The file system as the file-based loggers see it, and the path helpers of
  \<open>path_utils.hpp\<close> (C++11 branch, POSIX).  A disk is a map from path strings to
  contents; it is kept as an association list sorted by path so that directory
  listings compute.  Directories exist implicitly: a file lies below a directory
  when its path starts with the directory's path and a separator.
\<close>

section \<open>Files\<close>

type_synonym disk = "(string \<times> string) list"

definition fs_read :: "disk \<Rightarrow> string \<Rightarrow> string option" where
  "fs_read d p = map_of d p"

definition fs_exists :: "disk \<Rightarrow> string \<Rightarrow> bool" where
  "fs_exists d p = (map_of d p \<noteq> None)"

text \<open>Opening for appending creates a missing file; writing through the stream appends.\<close>

definition fs_touch :: "string \<Rightarrow> disk \<Rightarrow> disk" where
  "fs_touch p d = (if fs_exists d p then d else map_put p [] d)"

definition fs_append :: "string \<Rightarrow> string \<Rightarrow> disk \<Rightarrow> disk" where
  "fs_append p bytes d = map_put p (case map_of d p of None \<Rightarrow> bytes | Some c \<Rightarrow> c @ bytes) d"

definition fs_remove :: "string \<Rightarrow> disk \<Rightarrow> disk" where
  "fs_remove p d = map_erase p d"

text \<open>\<open>std::rename\<close>: fails on a missing source, replaces an existing target.\<close>

definition fs_rename :: "string \<Rightarrow> string \<Rightarrow> disk \<Rightarrow> disk option" where
  "fs_rename src dst d =
     (case map_of d src of None \<Rightarrow> None | Some c \<Rightarrow> Some (map_put dst c (map_erase src d)))"

lemmas fs_defs = fs_read_def fs_exists_def fs_touch_def fs_append_def fs_remove_def fs_rename_def

lemma fs_read_touch [simp]:
  "fs_read (fs_touch p d) = (fs_read d)(p := Some (case fs_read d p of None \<Rightarrow> [] | Some c \<Rightarrow> c))"
  by (rule ext) (auto simp: fs_defs split: option.splits)

lemma fs_read_append [simp]:
  "fs_read (fs_append p bytes d) =
     (fs_read d)(p := Some ((case fs_read d p of None \<Rightarrow> [] | Some c \<Rightarrow> c) @ bytes))"
  by (rule ext) (auto simp: fs_defs split: option.splits)

lemma fs_read_remove [simp]: "fs_read (fs_remove p d) = (fs_read d)(p := None)"
  by (rule ext) (auto simp: fs_defs)

lemma fs_rename_None [simp]: "fs_rename src dst d = None \<longleftrightarrow> fs_read d src = None"
  by (auto simp: fs_defs split: option.splits)

lemma fs_read_rename:
  "fs_rename src dst d = Some d' \<Longrightarrow>
   fs_read d' = ((fs_read d)(src := None))(dst := fs_read d src) \<and> fs_read d src \<noteq> None"
  by (rule conjI, rule ext) (auto simp: fs_defs split: option.splits)

lemma fs_exists_read: "fs_exists d p \<longleftrightarrow> fs_read d p \<noteq> None"
  by (simp add: fs_defs)

lemma fs_exists_mem: "fs_exists d p \<longleftrightarrow> p \<in> fst ` set d"
  by (simp add: fs_exists_def map_of_eq_None_iff)

section \<open>Paths\<close>

definition get_file_name :: "string \<Rightarrow> string" where
  "get_file_name file_path = after_last is_sep file_path"

text \<open>
  \<open>get_list_files\<close> descends into subdirectories and reports every regular file
  with its full path.  The order of \<open>readdir\<close> is not specified; the callers sort
  the result or treat its elements independently.
\<close>

definition with_separator :: "string \<Rightarrow> string" where
  "with_separator path = (if path \<noteq> [] \<and> is_sep (last path) then path else path @ ''/'')"

definition get_list_files :: "disk \<Rightarrow> string \<Rightarrow> string list" where
  "get_list_files d path = filter (prefix (with_separator path)) (map fst d)"

lemma get_list_files_mem:
  "p \<in> set (get_list_files d path) \<longleftrightarrow> fs_exists d p \<and> prefix (with_separator path) p"
  by (auto simp: get_list_files_def fs_exists_mem)

lemma get_list_files_distinct: "map_inv d \<Longrightarrow> distinct (get_list_files d path)"
  by (simp add: get_list_files_def map_inv_distinct)

record PathComponents =
  pc_root :: string
  pc_components :: "string list"

text \<open>The splitting loop: skip separators, take a component, go on behind it.\<close>

function path_components :: "string \<Rightarrow> string list" where
  "path_components s =
     (let t = dropWhile is_sep s; comp = takeWhile (\<lambda>c. \<not> is_sep c) t
      in if comp = [] then []
         else comp # path_components (dropWhile (\<lambda>c. \<not> is_sep c) t))"
  by pat_completeness auto
termination
proof (relation "measure length", simp)
  fix s t comp :: string
  assume t: "t = dropWhile is_sep s" and comp: "comp = takeWhile (\<lambda>c. \<not> is_sep c) t" "comp \<noteq> []"
  have "length (dropWhile (\<lambda>c. \<not> is_sep c) t) < length t"
    using comp by (cases t) (auto simp: le_imp_less_Suc length_dropWhile_le split: if_splits)
  also have "length t \<le> length s" using t by (simp add: length_dropWhile_le)
  finally show "(dropWhile (\<lambda>c. \<not> is_sep c) t, s) \<in> measure length" by simp
qed

declare path_components.simps [simp del]

definition split_path :: "string \<Rightarrow> PathComponents" where
  "split_path path =
     (if 1 \<le> length path \<and> is_sep (path ! 0) then
        \<lparr>pc_root = ''/'', pc_components = path_components (drop 1 path)\<rparr>
      else if 2 \<le> length path \<and> isalpha (path ! 0) \<and> path ! 1 = CHR '':'' then
        \<lparr>pc_root = take 2 path,
         pc_components = path_components
           (if 3 \<le> length path \<and> is_sep (path ! 2) then drop 3 path else drop 2 path)\<rparr>
      else \<lparr>pc_root = [], pc_components = path_components path\<rparr>)"

text \<open>The two component lists behind their common prefix.\<close>

fun strip_common :: "string list \<Rightarrow> string list \<Rightarrow> string list \<times> string list" where
  "strip_common (f # fs) (b # bs) = (if f = b then strip_common fs bs else (f # fs, b # bs))"
| "strip_common fs bs = (fs, bs)"

definition make_relative :: "string \<Rightarrow> string \<Rightarrow> string" where
  "make_relative file_path base_path =
     (if base_path = [] then file_path
      else let file_pc = split_path file_path; base_pc = split_path base_path
           in if pc_root file_pc \<noteq> pc_root base_pc then file_path
              else let (fs, bs) = strip_common (pc_components file_pc) (pc_components base_pc);
                       relative_components = replicate (length bs) ''..'' @ fs
                   in if relative_components = [] then ''.'' else join ''/'' relative_components)"

definition is_file :: "string \<Rightarrow> bool" where
  "is_file path = (CHR ''.'' \<in> set (after_last is_sep path))"

text \<open>
  \<open>create_directories\<close>: \<open>mkdir\<close> tells whether the system call succeeded or
  reported an existing directory.  The result is the list of directories asked
  for, or the path at which the call threw.
\<close>

fun mkdir_loop :: "(string \<Rightarrow> bool) \<Rightarrow> string \<Rightarrow> string list \<Rightarrow> string + string list" where
  "mkdir_loop mkdir current_path [] = Inr []"
| "mkdir_loop mkdir current_path (c # cs) =
     (let next_path = (if current_path \<noteq> [] \<and> \<not> is_sep (last current_path)
                       then current_path @ ''/'' else current_path) @ c
      in if c = ''..'' \<or> c = ''/'' \<or> c = ''~/'' then mkdir_loop mkdir next_path cs
         else if \<not> mkdir next_path then Inl next_path
         else case mkdir_loop mkdir next_path cs of
                Inl e \<Rightarrow> Inl e
              | Inr made \<Rightarrow> Inr (next_path # made))"

definition create_directories :: "(string \<Rightarrow> bool) \<Rightarrow> string \<Rightarrow> string + string list" where
  "create_directories mkdir path =
     (if path = [] then Inr []
      else let pc = split_path path;
               cs = (if is_file path then butlast (pc_components pc) else pc_components pc)
           in mkdir_loop mkdir (pc_root pc) cs)"

section \<open>Relative paths\<close>

text \<open>What a relative path names when it is followed from a directory.\<close>

fun resolve :: "string list \<Rightarrow> string list \<Rightarrow> string list" where
  "resolve base [] = base"
| "resolve base (c # cs) =
     resolve (if c = ''..'' then butlast base else if c = ''.'' then base else base @ [c]) cs"

definition component_ok :: "string \<Rightarrow> bool" where
  "component_ok c = (c \<noteq> [] \<and> list_all (\<lambda>x. \<not> is_sep x) c)"

lemma path_components_cases:
  assumes "c \<in> set (path_components s)"
  obtains (head) "c = takeWhile (\<lambda>c. \<not> is_sep c) (dropWhile is_sep s)" "c \<noteq> []"
  | (tail) "takeWhile (\<lambda>c. \<not> is_sep c) (dropWhile is_sep s) \<noteq> []"
      "c \<in> set (path_components (dropWhile (\<lambda>c. \<not> is_sep c) (dropWhile is_sep s)))"
  using assms by (subst (asm) path_components.simps) (auto simp: Let_def split: if_splits)

lemma path_components_ok: "c \<in> set (path_components s) \<Longrightarrow> component_ok c"
proof (induction s rule: path_components.induct)
  case (1 s)
  from "1.prems" show ?case
  proof (cases rule: path_components_cases)
    case head
    then show ?thesis by (simp add: component_ok_def list_all_iff) (metis set_takeWhileD)
  next
    case tail
    then show ?thesis by (rule "1.IH" [OF refl refl])
  qed
qed

lemma path_components_chars: "c \<in> set (path_components s) \<Longrightarrow> set c \<subseteq> set s"
proof (induction s rule: path_components.induct)
  case (1 s)
  let ?t = "dropWhile is_sep s"
  have sub: "set ?t \<subseteq> set s" "set (dropWhile (\<lambda>c. \<not> is_sep c) ?t) \<subseteq> set ?t"
    by (auto dest: set_dropWhileD)
  from "1.prems" show ?case
  proof (cases rule: path_components_cases)
    case head
    then show ?thesis using sub by (metis set_takeWhileD subsetD subsetI)
  next
    case tail
    then show ?thesis using "1.IH" [OF refl refl] sub by blast
  qed
qed

lemma path_components_Nil [simp]: "path_components [] = []"
  by (subst path_components.simps) simp

lemma path_components_step:
  assumes "component_ok c" "rest = [] \<or> is_sep (hd rest)"
  shows "path_components (c @ rest) = c # path_components rest"
proof -
  have c: "c \<noteq> []" "\<forall>x \<in> set c. \<not> is_sep x"
    using assms(1) by (simp_all add: component_ok_def list_all_iff)
  have skip: "dropWhile is_sep (c @ rest) = c @ rest"
    using c by (cases c) simp_all
  have take_rest: "takeWhile (\<lambda>c. \<not> is_sep c) rest = []"
    and drop_rest: "dropWhile (\<lambda>c. \<not> is_sep c) rest = rest"
    using assms(2) by (cases rest; simp)+
  have "takeWhile (\<lambda>c. \<not> is_sep c) (c @ rest) = c"
    using c(2) take_rest by (simp add: takeWhile_append2)
  moreover have "dropWhile (\<lambda>c. \<not> is_sep c) (c @ rest) = rest"
    using c(2) drop_rest by (simp add: dropWhile_append2)
  ultimately show ?thesis
    using c(1) by (simp only: path_components.simps [of "c @ rest"] Let_def skip if_False)
qed

lemma path_components_sep: "is_sep x \<Longrightarrow> path_components (x # s) = path_components s"
  by (simp add: path_components.simps [of "x # s"] path_components.simps [of s])

lemma path_components_join:
  "list_all component_ok cs \<Longrightarrow> path_components (join ''/'' cs) = cs"
proof (induction cs)
  case (Cons c cs)
  show ?case
  proof (cases "cs = []")
    case True
    then show ?thesis using Cons.prems path_components_step [of c "[]"] by simp
  next
    case False
    have "join ''/'' (c # cs) = c @ CHR ''/'' # join ''/'' cs"
      using False by (simp add: join_Cons)
    moreover have "path_components (c @ CHR ''/'' # join ''/'' cs)
        = c # path_components (CHR ''/'' # join ''/'' cs)"
      using Cons.prems by (intro path_components_step) (simp_all add: is_sep_def)
    moreover have "path_components (CHR ''/'' # join ''/'' cs) = path_components (join ''/'' cs)"
      by (rule path_components_sep) (simp add: is_sep_def)
    moreover have "path_components (join ''/'' cs) = cs"
      using Cons by simp
    ultimately show ?thesis by simp
  qed
qed simp

lemma split_path_join:
  assumes "list_all component_ok cs" "cs \<noteq> []" "CHR '':'' \<notin> set (join ''/'' cs)"
  shows "split_path (join ''/'' cs) = \<lparr>pc_root = [], pc_components = cs\<rparr>"
proof -
  obtain c cs' where cs: "cs = c # cs'" using assms(2) by (cases cs) auto
  obtain x c' where c: "c = x # c'" "\<not> is_sep x"
    using assms(1) cs by (cases c) (auto simp: component_ok_def)
  have shape: "\<exists>t. join ''/'' cs = x # t" by (cases cs') (simp_all add: cs c)
  then obtain t where t: "join ''/'' cs = x # t" by blast
  have "length t \<ge> 1 \<Longrightarrow> t ! 0 \<noteq> CHR '':''"
    using assms(3) t by (cases t) auto
  then show ?thesis
    using path_components_join [OF assms(1)] c t by (auto simp: split_path_def)
qed

lemma split_path_components:
  assumes "c \<in> set (pc_components (split_path path))"
  shows "component_ok c \<and> set c \<subseteq> set path"
proof -
  have "pc_components (split_path path) \<in> (\<lambda>n. path_components (drop n path)) ` {0, 1, 2, 3}"
    by (simp add: split_path_def)
  then obtain n where "c \<in> set (path_components (drop n path))"
    using assms by (elim imageE) simp
  then show ?thesis
    using path_components_ok path_components_chars set_drop_subset by (metis subset_trans)
qed

lemma strip_common_split:
  "strip_common fs bs = (fs', bs') \<Longrightarrow> \<exists>common. fs = common @ fs' \<and> bs = common @ bs'"
proof (induction fs bs rule: strip_common.induct)
  case (1 f fs b bs)
  show ?case
  proof (cases "f = b")
    case True
    with 1 obtain common where "fs = common @ fs'" "bs = common @ bs'" by auto
    with True show ?thesis by (intro exI [of _ "f # common"]) simp
  next
    case False
    with 1 show ?thesis by auto
  qed
qed simp_all

lemma resolve_up: "resolve (common @ bs) (replicate (length bs) ''..'' @ cs) = resolve common cs"
  by (induction bs rule: rev_induct) (simp_all add: butlast_append flip: append_assoc)

lemma resolve_down:
  "list_all (\<lambda>c. c \<noteq> ''..'' \<and> c \<noteq> ''.'') cs \<Longrightarrow> resolve base cs = base @ cs"
  by (induction cs arbitrary: base) simp_all

lemma set_join: "set (join ''/'' cs) \<subseteq> insert (CHR ''/'') (\<Union> (set ` set cs))"
  by (induction cs rule: induct_list012) auto

text \<open>\<open>make_relative\<close> answers a path that leads from the base directory to the
  file: it has no root of its own, and following it from the base's components
  (going up at each \<open>..\<close>) ends at the file's components.  It is stated for
  paths with a common root, for a file path whose components are proper names
  and which has no colon (a colon in a component reads back as a drive root).
\<close>

theorem make_relative_resolves:
  assumes "base_path \<noteq> []"
    and "pc_root (split_path file_path) = pc_root (split_path base_path)"
    and "list_all (\<lambda>c. c \<noteq> ''..'' \<and> c \<noteq> ''.'') (pc_components (split_path file_path))"
    and "CHR '':'' \<notin> set file_path"
  shows "pc_root (split_path (make_relative file_path base_path)) = [] \<and>
    resolve (pc_components (split_path base_path))
      (pc_components (split_path (make_relative file_path base_path)))
    = pc_components (split_path file_path)"
proof -
  let ?fc = "pc_components (split_path file_path)" and ?bc = "pc_components (split_path base_path)"
  obtain fs bs where strip: "strip_common ?fc ?bc = (fs, bs)" by (cases "strip_common ?fc ?bc")
  then obtain common where common: "?fc = common @ fs" "?bc = common @ bs"
    using strip_common_split by blast
  let ?rel = "replicate (length bs) ''..'' @ fs"
  have fc: "component_ok c \<and> set c \<subseteq> set file_path" if "c \<in> set ?fc" for c
    using that split_path_components by blast
  have rel_ok: "list_all component_ok ?rel"
  proof -
    have "component_ok ''..''" by (simp add: component_ok_def is_sep_def)
    then show ?thesis using fc common(1) by (auto simp: list_all_iff)
  qed
  have colon: "CHR '':'' \<notin> set (join ''/'' ?rel)"
  proof
    assume "CHR '':'' \<in> set (join ''/'' ?rel)"
    then obtain c where "c \<in> set ?rel" "CHR '':'' \<in> set c"
      using set_join [of ?rel] by (auto simp del: set_append)
    then show False using fc common assms(4) by (auto split: if_splits)
  qed
  have down: "resolve ?bc ?rel = ?fc"
    using assms(3) common by (simp add: resolve_up resolve_down)
  show ?thesis
  proof (cases "?rel = []")
    case True
    then have "make_relative file_path base_path = ''.''"
      using assms(1,2) strip by (simp add: make_relative_def)
    moreover have "split_path ''.'' = \<lparr>pc_root = [], pc_components = [''.'']\<rparr>"
      using split_path_join [of "[''.'']"] by (simp add: component_ok_def is_sep_def)
    ultimately show ?thesis using down True by simp
  next
    case False
    then have "make_relative file_path base_path = join ''/'' ?rel"
      using assms(1,2) strip by (simp add: make_relative_def)
    then show ?thesis using split_path_join [OF rel_ok False colon] down by simp
  qed
qed

theorem make_relative_resolves_witness:
  "resolve (pc_components (split_path ''/src/lib''))
     (pc_components (split_path (make_relative ''/src/app/main.cpp'' ''/src/lib'')))
   = pc_components (split_path ''/src/app/main.cpp'')"
  by (rule make_relative_resolves [of "''/src/lib''" "''/src/app/main.cpp''", THEN conjunct2])
     code_simp+

end
