(* ===== verification/Compression.thy ===== *)
theory Compression
  imports FileSystem Enums
begin

text \<open>
  Compression of rotated files (\<open>CompressionWorker.hpp\<close> and the suffix
  dispatch of \<open>CompressionUtils.hpp\<close>).  zlib, zstd and the shell are third-party:
  they are the fields of a \<open>codec\<close>, each answering \<open>None\<close> when the library
  reports a failure or the feature is not built in.  zstd has two ways to make a
  frame, from a whole buffer and from a stream of reads of \<open>cd_zstd_in_size\<close>
  bytes, and tells whether a frame's header names the size of its content.
\<close>

record codec =
  cd_gzip :: "int \<Rightarrow> string \<Rightarrow> string option"
  cd_zstd :: "int \<Rightarrow> string \<Rightarrow> string option"
  cd_zstd_in_size :: nat
  cd_zstd_stream :: "int \<Rightarrow> string list \<Rightarrow> string option"
  cd_zstd_size_known :: "string \<Rightarrow> bool"
  cd_gunzip :: "string \<Rightarrow> string option"
  cd_unzstd :: "string \<Rightarrow> string option"
  cd_system :: "string \<Rightarrow> disk \<Rightarrow> bool \<times> disk"

section \<open>Compressing one file\<close>

definition clamp_level :: "int \<Rightarrow> int \<Rightarrow> int \<Rightarrow> int" where
  "clamp_level v lo hi = (if v < lo then lo else if hi < v then hi else v)"

text \<open>
  A failed run leaves an incomplete temporary behind, which the caller removes;
  its content is never read.
\<close>

definition compress_file_gzip :: "codec \<Rightarrow> string \<Rightarrow> string \<Rightarrow> int \<Rightarrow> disk \<Rightarrow> bool \<times> disk" where
  "compress_file_gzip cd src dst_tmp level d =
     (case fs_read d src of
        None \<Rightarrow> (False, d)
      | Some bytes \<Rightarrow>
          (case cd_gzip cd (clamp_level level 1 9) bytes of
             None \<Rightarrow> (False, map_put dst_tmp [] d)
           | Some out \<Rightarrow> (True, map_put dst_tmp out d)))"

text \<open>The reads of \<open>in.read(buf, n)\<close> up to the one that hits the end of the file.\<close>

function read_chunks :: "nat \<Rightarrow> string \<Rightarrow> string list" where
  "read_chunks n bytes =
     (if n = 0 \<or> length bytes < n then [bytes] else take n bytes # read_chunks n (drop n bytes))"
  by pat_completeness auto
termination by (relation "measure (length \<circ> snd)") auto

declare read_chunks.simps [simp del]

definition compress_file_zstd :: "codec \<Rightarrow> string \<Rightarrow> string \<Rightarrow> int \<Rightarrow> disk \<Rightarrow> bool \<times> disk" where
  "compress_file_zstd cd src dst_tmp level d =
     (case fs_read d src of
        None \<Rightarrow> (False, map_put dst_tmp [] d)
      | Some bytes \<Rightarrow>
          (case cd_zstd_stream cd (clamp_level level 1 19) (read_chunks (cd_zstd_in_size cd) bytes) of
             None \<Rightarrow> (False, map_put dst_tmp [] d)
           | Some out \<Rightarrow> (True, map_put dst_tmp out d)))"

text \<open>\<open>s.replace(s.find(pat), pat.size(), rep)\<close> when the pattern occurs.\<close>

fun replace_first :: "string \<Rightarrow> string \<Rightarrow> string \<Rightarrow> string" where
  "replace_first pat rep [] = []"
| "replace_first pat rep (c # s) =
     (if prefix pat (c # s) then rep @ drop (length pat) (c # s) else c # replace_first pat rep s)"

definition compress_file_external :: "codec \<Rightarrow> string \<Rightarrow> string \<Rightarrow> int \<Rightarrow> disk \<Rightarrow> bool \<times> disk" where
  "compress_file_external cd src cmd_tpl level d =
     (if cmd_tpl = [] then (False, d)
      else let cmd = replace_first ''{file}'' ([CHR 0x22] @ src @ [CHR 0x22]) cmd_tpl;
               cmd2 = replace_first ''{level}'' (dec_int level) cmd
           in cd_system cd cmd2 d)"

definition compress_file :: "codec \<Rightarrow> CompressType \<Rightarrow> string \<Rightarrow> int \<Rightarrow> string \<Rightarrow> disk \<Rightarrow> bool \<times> disk" where
  "compress_file cd type src level external_cmd d =
     (if type = NONE then (True, d)
      else if type = EXTERNAL_CMD then compress_file_external cd src external_cmd level d
      else let dst = src @ (if type = GZIP then ''.gz'' else ''.zst'');
               tmp = dst @ ''.tmp'';
               (ok, d1) = (if type = GZIP then compress_file_gzip cd src tmp level d
                           else compress_file_zstd cd src tmp level d)
           in if \<not> ok then (False, fs_remove tmp d1)
              else (case fs_rename tmp dst d1 of
                      None \<Rightarrow> (False, fs_remove tmp d1)
                    | Some d2 \<Rightarrow> (True, fs_remove src d2)))"

definition ends_with :: "string \<Rightarrow> string \<Rightarrow> bool" where
  "ends_with text sfx = suffix sfx text"

definition compress_string_gzip :: "codec \<Rightarrow> string \<Rightarrow> int \<Rightarrow> string option" where
  "compress_string_gzip cd input level = cd_gzip cd (clamp_level level 1 9) input"

definition decompress_string_gzip :: "codec \<Rightarrow> string \<Rightarrow> string option" where
  "decompress_string_gzip cd input = cd_gunzip cd input"

definition compress_string_zstd :: "codec \<Rightarrow> string \<Rightarrow> int \<Rightarrow> string option" where
  "compress_string_zstd cd input level = cd_zstd cd (clamp_level level 1 19) input"

definition decompress_string_zstd :: "codec \<Rightarrow> string \<Rightarrow> string option" where
  "decompress_string_zstd cd input = (if \<not> cd_zstd_size_known cd input then None else cd_unzstd cd input)"

definition decompress_string_by_suffix :: "codec \<Rightarrow> string \<Rightarrow> string \<Rightarrow> string option" where
  "decompress_string_by_suffix cd filename input =
     (if ends_with filename ''.gz'' then decompress_string_gzip cd input
      else if ends_with filename ''.zst'' then decompress_string_zstd cd input
      else None)"

section \<open>The background worker\<close>

text \<open>
  \<open>CompressionWorker\<close>: \<open>enqueue\<close> appends a path, one pass of \<open>run\<close> takes the
  front path (busy) and compresses it; \<open>wait\<close> returns when the queue is empty
  and nothing is being compressed, and the destructor lets the worker finish the
  queue.  The worker locks only around the queue, so compression interleaves
  with the owner's calls at these steps.
\<close>

record CompressionWorker =
  cw_type :: CompressType
  cw_level :: int
  cw_external_cmd :: string
  cw_q :: "string list"
  cw_busy :: "string option"
  cw_stop :: bool

definition CompressionWorker_init :: "CompressType \<Rightarrow> int \<Rightarrow> string \<Rightarrow> CompressionWorker" where
  "CompressionWorker_init type level external_cmd =
     \<lparr>cw_type = type, cw_level = level, cw_external_cmd = external_cmd, cw_q = [], cw_busy = None,
      cw_stop = False\<rparr>"

definition cw_enqueue :: "string \<Rightarrow> CompressionWorker \<Rightarrow> CompressionWorker" where
  "cw_enqueue path w = w\<lparr>cw_q := cw_q w @ [path]\<rparr>"

definition cw_wait_returns :: "CompressionWorker \<Rightarrow> bool" where
  "cw_wait_returns w = (cw_q w = [] \<and> cw_busy w = None)"

definition cw_take :: "CompressionWorker \<Rightarrow> CompressionWorker option" where
  "cw_take w =
     (case cw_q w of
        [] \<Rightarrow> None
      | src # q \<Rightarrow> if cw_busy w = None then Some (w\<lparr>cw_q := q, cw_busy := Some src\<rparr>) else None)"

definition cw_finish :: "codec \<Rightarrow> CompressionWorker \<Rightarrow> disk \<Rightarrow> CompressionWorker \<times> disk" where
  "cw_finish cd w d =
     (case cw_busy w of
        None \<Rightarrow> (w, d)
      | Some src \<Rightarrow>
          (w\<lparr>cw_busy := None\<rparr>, snd (compress_file cd (cw_type w) src (cw_level w) (cw_external_cmd w) d)))"

text \<open>The worker left alone with its queue, as in the destructor.\<close>

fun cw_drain :: "codec \<Rightarrow> CompressType \<Rightarrow> int \<Rightarrow> string \<Rightarrow> string list \<Rightarrow> disk \<Rightarrow> disk" where
  "cw_drain cd type level external_cmd [] d = d"
| "cw_drain cd type level external_cmd (src # q) d =
     cw_drain cd type level external_cmd q (snd (compress_file cd type src level external_cmd d))"

section \<open>Properties\<close>

text \<open>
  The whole effect of a run on the disk: on success the archive replaces the
  source and nothing else changes, on failure only the scratch name is touched.
\<close>

definition archive_name :: "CompressType \<Rightarrow> string \<Rightarrow> string" where
  "archive_name type src = src @ (if type = GZIP then ''.gz'' else ''.zst'')"

definition encode :: "codec \<Rightarrow> CompressType \<Rightarrow> int \<Rightarrow> string \<Rightarrow> string option" where
  "encode cd type level bytes =
     (if type = GZIP then cd_gzip cd (clamp_level level 1 9) bytes
      else cd_zstd_stream cd (clamp_level level 1 19) (read_chunks (cd_zstd_in_size cd) bytes))"

lemma archive_ne [simp]:
  "archive_name type src \<noteq> src" "src \<noteq> archive_name type src"
  "archive_name type src @ ''.tmp'' \<noteq> src" "src \<noteq> archive_name type src @ ''.tmp''"
  by (auto simp: archive_name_def)

lemma fs_rename_put [simp]:
  "fs_rename p q (map_put p c d) = Some (map_put q c (map_erase p (map_put p c d)))"
  by (simp add: fs_rename_def)

lemma fs_read_put [simp]: "fs_read (map_put p c d) = (fs_read d)(p \<mapsto> c)"
  and fs_read_erase [simp]: "fs_read (map_erase p d) = (fs_read d)(p := None)"
  by (rule ext, simp add: fs_read_def)+

lemma compress_file_unfold:
  assumes "type = GZIP \<or> type = ZSTD"
  shows "compress_file cd type src level cmd d =
    (let tmp = archive_name type src @ ''.tmp'';
         (ok, d1) = (if type = GZIP then compress_file_gzip cd src tmp level d
                     else compress_file_zstd cd src tmp level d)
     in if \<not> ok then (False, fs_remove tmp d1)
        else (case fs_rename tmp (archive_name type src) d1 of
                None \<Rightarrow> (False, fs_remove tmp d1)
              | Some d2 \<Rightarrow> (True, fs_remove src d2)))"
  using assms
  by (elim disjE) (simp_all only: compress_file_def archive_name_def CompressType.distinct if_False
        if_True Let_def simp_thms)

lemma compress_file_success:
  assumes "type = GZIP \<or> type = ZSTD"
    and "fs_read d src = Some bytes" "encode cd type level bytes = Some out"
    and "compress_file cd type src level cmd d = (ok, d')"
  shows "ok" "fs_read d' = (fs_read d)(archive_name type src @ ''.tmp'' := None,
    archive_name type src \<mapsto> out, src := None)"
  using assms(2-) unfolding compress_file_unfold [OF assms(1)]
  by (auto simp: encode_def compress_file_gzip_def compress_file_zstd_def Let_def fun_eq_iff
           split: if_splits)

lemma compress_file_failure:
  assumes "type = GZIP \<or> type = ZSTD"
    and "Option.bind (fs_read d src) (encode cd type level) = None"
    and "compress_file cd type src level cmd d = (ok, d')"
  shows "\<not> ok" "fs_read d' = (fs_read d)(archive_name type src @ ''.tmp'' := None)"
  using assms(2-) unfolding compress_file_unfold [OF assms(1)]
  by (auto simp: encode_def compress_file_gzip_def compress_file_zstd_def Let_def fun_eq_iff
           split: if_splits option.splits)

text \<open>
  What zlib and zstd document: decompressing their own output restores the
  input, and the frame header names the content size when the whole content was
  there in one call, but not when a stream was continued.
\<close>

definition codec_ok :: "codec \<Rightarrow> bool" where
  "codec_ok cd =
     (0 < cd_zstd_in_size cd \<and>
      (\<forall>level bytes out. cd_gzip cd level bytes = Some out \<longrightarrow> cd_gunzip cd out = Some bytes) \<and>
      (\<forall>level bytes out. cd_zstd cd level bytes = Some out \<longrightarrow>
         cd_unzstd cd out = Some bytes \<and> cd_zstd_size_known cd out) \<and>
      (\<forall>level chunks out. cd_zstd_stream cd level chunks = Some out \<longrightarrow>
         cd_unzstd cd out = Some (concat chunks) \<and> cd_zstd_size_known cd out = (length chunks = 1)))"

lemma concat_read_chunks [simp]: "concat (read_chunks n bytes) = bytes"
proof (induction n bytes rule: read_chunks.induct)
  case (1 n bytes)
  then show ?case by (subst read_chunks.simps) simp
qed

lemma read_chunks_single: "0 < n \<Longrightarrow> length (read_chunks n bytes) = 1 \<longleftrightarrow> length bytes < n"
  by (subst read_chunks.simps, subst read_chunks.simps) simp

lemma archive_suffix:
  "type = GZIP \<or> type = ZSTD \<Longrightarrow>
   decompress_string_by_suffix cd (archive_name type src) bytes =
     (if type = GZIP then decompress_string_gzip cd bytes else decompress_string_zstd cd bytes)"
  by (auto simp: decompress_string_by_suffix_def ends_with_def archive_name_def suffix_def
           append_eq_append_conv2 append_eq_Cons_conv Cons_eq_append_conv)

text \<open>What an archive decompresses to, by the reader of archives in this library.\<close>

lemma decode_encode:
  assumes "codec_ok cd" "type = GZIP \<or> type = ZSTD" "encode cd type level bytes = Some out"
  shows "decompress_string_by_suffix cd (archive_name type src) out =
    (if type = ZSTD \<and> cd_zstd_in_size cd \<le> length bytes then None else Some bytes)"
  using assms read_chunks_single [of "cd_zstd_in_size cd" bytes]
  by (auto simp: archive_suffix encode_def codec_ok_def decompress_string_gzip_def decompress_string_zstd_def)


text \<open>A codec that marks what it did: frames of a continued stream are tagged as such.\<close>

definition demo_codec :: codec where
  "demo_codec =
     \<lparr>cd_gzip = (\<lambda>level bytes. Some (CHR ''z'' # bytes)), cd_zstd = (\<lambda>level bytes. Some (CHR ''k'' # bytes)),
      cd_zstd_in_size = 4,
      cd_zstd_stream = (\<lambda>level chunks. Some ((if length chunks = 1 then CHR ''k'' else CHR ''u'') # concat chunks)),
      cd_zstd_size_known = (\<lambda>bytes. bytes \<noteq> [] \<and> hd bytes = CHR ''k''),
      cd_gunzip = (\<lambda>bytes. case bytes of [] \<Rightarrow> None | c # cs \<Rightarrow> Some cs),
      cd_unzstd = (\<lambda>bytes. case bytes of [] \<Rightarrow> None | c # cs \<Rightarrow> Some cs),
      cd_system = (\<lambda>cmd d. (False, d))\<rparr>"

lemma demo_codec_ok: "codec_ok demo_codec"
  by (auto simp: codec_ok_def demo_codec_def)


text \<open>Left alone, the worker empties its queue in order.\<close>

lemma cw_finish_take:
  "cw_take w = Some w' \<Longrightarrow> cw_finish cd w' d = (w2, d2) \<Longrightarrow>
   cw_drain cd (cw_type w) (cw_level w) (cw_external_cmd w) (cw_q w) d =
   cw_drain cd (cw_type w2) (cw_level w2) (cw_external_cmd w2) (cw_q w2) d2 \<and> cw_busy w2 = None"
  by (auto simp: cw_take_def cw_finish_def split: list.splits if_splits)

end
