(* ===== verification/Interfaces.thy ===== *)
theory Interfaces
  imports Prelude "HOL-Library.Multiset"
begin

text \<open>
  Contracts between components, as locales.  A task executor promises its
  clients (the asynchronous loggers) order and conservation; what the clients
  derive from that is proved here once and instantiated for each executor of
  the repository.
\<close>

section \<open>Executors\<close>

lemma subseq_mset: "subseq xs ys \<Longrightarrow> mset xs \<subseteq># mset ys"
proof (induction rule: list_emb.induct)
  case (list_emb_Cons xs ys y)
  show ?case
    using mset_subset_eq_count [OF list_emb_Cons.IH] by (auto intro!: mset_subset_eqI le_SucI)
qed simp_all

text \<open>
  \<open>run evs s\<close>: the executor can reach state \<open>s\<close> with history \<open>evs\<close>; \<open>acc\<close>,
  \<open>lost\<close> and \<open>fin\<close> are the tasks a history accepted, accepted and later
  dropped, and ran to completion; \<open>idle\<close> is the state in which a drain call
  returns.
\<close>

locale fifo_executor =
  fixes run :: "'e list \<Rightarrow> 's \<Rightarrow> bool"
    and acc lost fin :: "'e list \<Rightarrow> 'a list"
    and idle :: "'s \<Rightarrow> bool"
  assumes in_order: "run evs s \<Longrightarrow> subseq (fin evs) (acc evs)"
    and conserved: "run evs s \<Longrightarrow> idle s \<Longrightarrow> mset (acc evs) = mset (fin evs) + mset (lost evs)"
begin

lemma at_most_once: "run evs s \<Longrightarrow> count (mset (fin evs)) t \<le> count (mset (acc evs)) t"
  using in_order [of evs s]
  by (intro mset_subset_eq_count subseq_mset)

lemma lossless: "run evs s \<Longrightarrow> idle s \<Longrightarrow> lost evs = [] \<Longrightarrow> fin evs = acc evs"
  using in_order [of evs s] conserved [of evs s]
  by (metis add.right_neutral mset.simps(1) mset_eq_length subseq_same_length)

text \<open>What a sink written to by the tasks holds at a quiet point.\<close>

lemma sink_content:
  "run evs s \<Longrightarrow> idle s \<Longrightarrow> lost evs = [] \<Longrightarrow>
   foldl write out (fin evs) = foldl write out (acc evs)"
  by (simp add: lossless)

lemma all_accounted:
  "run evs s \<Longrightarrow> idle s \<Longrightarrow> length (acc evs) = length (fin evs) + length (lost evs)"
  using conserved [of evs s] by (metis size_mset size_union)

end

end
