(* ===== verification/Executor.thy ===== *)
theory Executor
  imports Enums Interfaces
begin

text \<open>
  The deque-backed \<open>TaskExecutor\<close> of \<open>detail/TaskExecutor.hpp\<close> (native build
  without \<open>LOGIT_USE_MPSC_RING\<close>).  Each critical section under
  \<open>m_queue_mutex\<close> is one function on the executor's fields; the threads around
  it (the worker, producers in \<open>add_task\<close>, callers of \<open>wait\<close>, the thread in
  \<open>shutdown\<close>) are a step relation in which the condition variable is explicit:
  who sleeps, who has been woken, and which notifications are still to be sent.
  Wake-ups may be spurious, as the C++ standard allows.
\<close>

section \<open>Fields and critical sections\<close>

record 'a TaskExecutor =
  te_tasks_queue :: "'a list"
  te_stop_flag :: bool
  te_max_queue_size :: nat
  te_overflow_policy :: QueuePolicy
  te_dropped_tasks :: nat
  te_active_tasks :: nat

definition TaskExecutor_init :: "'a TaskExecutor" where
  "TaskExecutor_init =
     \<lparr>te_tasks_queue = [], te_stop_flag = False, te_max_queue_size = 0,
      te_overflow_policy = Block, te_dropped_tasks = 0, te_active_tasks = 0\<rparr>"

datatype add_result = AddReturn | AddSleep | AddPushed

definition te_push_back :: "'a \<Rightarrow> 'a TaskExecutor \<Rightarrow> 'a TaskExecutor" where
  "te_push_back task e = e\<lparr>te_tasks_queue := te_tasks_queue e @ [task]\<rparr>"

definition te_full :: "'a TaskExecutor \<Rightarrow> bool" where
  "te_full e = (0 < te_max_queue_size e \<and> te_max_queue_size e \<le> length (te_tasks_queue e))"

text \<open>The predicate a blocked producer sleeps on.\<close>

definition producer_ready :: "'a TaskExecutor \<Rightarrow> bool" where
  "producer_ready e = (length (te_tasks_queue e) < te_max_queue_size e \<or> te_stop_flag e)"

text \<open>
  \<open>add_task\<close> from taking the lock to releasing it: returning, going to sleep
  on the condition variable, or having pushed (with a \<open>notify_one\<close> still to be
  sent).
\<close>

definition add_task_enter :: "'a \<Rightarrow> 'a TaskExecutor \<Rightarrow> 'a TaskExecutor \<times> add_result" where
  "add_task_enter task e =
     (if te_stop_flag e then (e, AddReturn)
      else if te_full e then
        (case te_overflow_policy e of
           DropNewest \<Rightarrow> (e\<lparr>te_dropped_tasks := te_dropped_tasks e + 1\<rparr>, AddReturn)
         | DropOldest \<Rightarrow>
             (te_push_back task
                (if te_tasks_queue e \<noteq> [] then
                   e\<lparr>te_tasks_queue := tl (te_tasks_queue e),
                     te_dropped_tasks := te_dropped_tasks e + 1\<rparr>
                 else e), AddPushed)
         | Block \<Rightarrow>
             if producer_ready e then (te_push_back task e, AddPushed) else (e, AddSleep))
      else (te_push_back task e, AddPushed))"

text \<open>The same call after a wake-up inside \<open>m_queue_condition.wait\<close>.\<close>

definition add_task_resume :: "'a \<Rightarrow> 'a TaskExecutor \<Rightarrow> 'a TaskExecutor \<times> add_result" where
  "add_task_resume task e =
     (if \<not> producer_ready e then (e, AddSleep)
      else if te_stop_flag e then (e, AddReturn)
      else (te_push_back task e, AddPushed))"

datatype 'a take_result = TakeSleep | TakeExit | Take 'a

text \<open>The worker from taking the lock to releasing it.\<close>

definition worker_take :: "'a TaskExecutor \<Rightarrow> 'a TaskExecutor \<times> 'a take_result" where
  "worker_take e =
     (case te_tasks_queue e of
        [] \<Rightarrow> if te_stop_flag e then (e, TakeExit) else (e, TakeSleep)
      | task # rest \<Rightarrow>
          (e\<lparr>te_tasks_queue := rest, te_active_tasks := te_active_tasks e + 1\<rparr>, Take task))"

text \<open>The worker after a task: the flag says whether it calls \<open>notify_all\<close>.\<close>

definition worker_finish :: "'a TaskExecutor \<Rightarrow> 'a TaskExecutor \<times> bool" where
  "worker_finish e =
     (let e' = e\<lparr>te_active_tasks := te_active_tasks e - 1\<rparr> in
      (e', te_tasks_queue e' = [] \<and> te_active_tasks e' = 0))"

definition wait_ready :: "'a TaskExecutor \<Rightarrow> bool" where
  "wait_ready e = ((te_tasks_queue e = [] \<and> te_active_tasks e = 0) \<or> te_stop_flag e)"

definition shutdown_flag :: "'a TaskExecutor \<Rightarrow> 'a TaskExecutor" where
  "shutdown_flag e = e\<lparr>te_stop_flag := True\<rparr>"

definition te_set_max_queue_size :: "nat \<Rightarrow> 'a TaskExecutor \<Rightarrow> 'a TaskExecutor" where
  "te_set_max_queue_size size' e =
     (if te_stop_flag e then e else e\<lparr>te_max_queue_size := size'\<rparr>)"

definition te_set_queue_policy :: "QueuePolicy \<Rightarrow> 'a TaskExecutor \<Rightarrow> 'a TaskExecutor" where
  "te_set_queue_policy policy e =
     (if te_stop_flag e then e else e\<lparr>te_overflow_policy := policy\<rparr>)"

definition te_reset_dropped_tasks :: "'a TaskExecutor \<Rightarrow> 'a TaskExecutor" where
  "te_reset_dropped_tasks e = e\<lparr>te_dropped_tasks := 0\<rparr>"

lemmas te_defs [op_defs] =
  te_push_back_def te_full_def producer_ready_def add_task_enter_def add_task_resume_def
  worker_take_def worker_finish_def wait_ready_def shutdown_flag_def te_set_max_queue_size_def
  te_set_queue_policy_def te_reset_dropped_tasks_def

section \<open>Threads\<close>

datatype 'a producer_pc = PEnter 'a | PSleep 'a | PResume 'a | PNotify | PDone
datatype 'a worker_pc = WTake | WSleep | WNotify 'a | WRun 'a | WExit
datatype waiter_pc = QCheck | QSleep | QDone
datatype shutdown_pc = SNone | SNotify | SJoin | SDone

record 'a te_system =
  ts_executor :: "'a TaskExecutor"
  ts_worker :: "'a worker_pc"
  ts_producers :: "nat \<Rightarrow> 'a producer_pc option"
  ts_waiters :: "nat \<Rightarrow> waiter_pc option"
  ts_shutdown :: shutdown_pc

definition te_system_init :: "'a te_system" where
  "te_system_init =
     \<lparr>ts_executor = TaskExecutor_init, ts_worker = WTake, ts_producers = (\<lambda>_. None),
      ts_waiters = (\<lambda>_. None), ts_shutdown = SNone\<rparr>"

datatype te_thread = TWorker | TProducer nat | TWaiter nat

fun te_sleeping :: "'a te_system \<Rightarrow> te_thread \<Rightarrow> bool" where
  "te_sleeping s TWorker = (ts_worker s = WSleep)"
| "te_sleeping s (TProducer p) = (\<exists>t. ts_producers s p = Some (PSleep t))"
| "te_sleeping s (TWaiter w) = (ts_waiters s w = Some QSleep)"

definition wake_producer :: "'a producer_pc option \<Rightarrow> 'a producer_pc option" where
  "wake_producer pc = (case pc of Some (PSleep t) \<Rightarrow> Some (PResume t) | _ \<Rightarrow> pc)"

definition wake_waiter :: "waiter_pc option \<Rightarrow> waiter_pc option" where
  "wake_waiter pc = (if pc = Some QSleep then Some QCheck else pc)"

definition wake_worker :: "'a worker_pc \<Rightarrow> 'a worker_pc" where
  "wake_worker pc = (case pc of WSleep \<Rightarrow> WTake | _ \<Rightarrow> pc)"

fun te_wake :: "te_thread \<Rightarrow> 'a te_system \<Rightarrow> 'a te_system" where
  "te_wake TWorker s = s\<lparr>ts_worker := wake_worker (ts_worker s)\<rparr>"
| "te_wake (TProducer p) s =
     s\<lparr>ts_producers := (ts_producers s)(p := wake_producer (ts_producers s p))\<rparr>"
| "te_wake (TWaiter w) s =
     s\<lparr>ts_waiters := (ts_waiters s)(w := wake_waiter (ts_waiters s w))\<rparr>"

definition te_notify_all :: "'a te_system \<Rightarrow> 'a te_system" where
  "te_notify_all s =
     s\<lparr>ts_worker := wake_worker (ts_worker s),
       ts_producers := (\<lambda>p. wake_producer (ts_producers s p)),
       ts_waiters := (\<lambda>w. wake_waiter (ts_waiters s w))\<rparr>"

text \<open>\<open>notify_one\<close> wakes one sleeping thread, any of them, or nobody when none sleeps.\<close>

inductive te_notify_one :: "'a te_system \<Rightarrow> 'a te_system \<Rightarrow> bool" where
  one: "te_sleeping s th \<Longrightarrow> te_notify_one s (te_wake th s)"
| nobody: "(\<And>th. \<not> te_sleeping s th) \<Longrightarrow> te_notify_one s s"

fun producer_after :: "'a \<Rightarrow> add_result \<Rightarrow> 'a producer_pc" where
  "producer_after t AddReturn = PDone"
| "producer_after t AddSleep = PSleep t"
| "producer_after t AddPushed = PNotify"

fun worker_after :: "'a take_result \<Rightarrow> 'a worker_pc" where
  "worker_after TakeSleep = WSleep"
| "worker_after TakeExit = WExit"
| "worker_after (Take t) = WNotify t"

text \<open>The observable events: what \<open>add_task\<close> did with its task, and the worker's calls.\<close>

datatype 'a te_event =
    Accepted 'a | Evicted 'a | Refused 'a | Slept 'a | Ignored 'a
  | Started 'a | Finished 'a | WaitReturned | ShutdownReturned | CountersReset

text \<open>The event of an \<open>add_task\<close> critical section (an eviction comes with an acceptance).\<close>

definition add_events :: "'a \<Rightarrow> 'a TaskExecutor \<Rightarrow> add_result \<Rightarrow> 'a te_event list" where
  "add_events t e res =
     (case res of
        AddSleep \<Rightarrow> [Slept t]
      | AddReturn \<Rightarrow> if te_stop_flag e then [Ignored t] else [Refused t]
      | AddPushed \<Rightarrow>
          (if te_full e \<and> te_overflow_policy e = DropOldest \<and> te_tasks_queue e \<noteq> []
           then [Evicted (hd (te_tasks_queue e)), Accepted t] else [Accepted t]))"

inductive te_step :: "'a te_system \<Rightarrow> 'a te_event list \<Rightarrow> 'a te_system \<Rightarrow> bool" where
  call_add: "ts_producers s p = None \<Longrightarrow>
     te_step s [] (s\<lparr>ts_producers := (ts_producers s)(p \<mapsto> PEnter t)\<rparr>)"
| enter: "ts_producers s p = Some (PEnter t) \<Longrightarrow> add_task_enter t (ts_executor s) = (e', res) \<Longrightarrow>
     te_step s (add_events t (ts_executor s) res)
       (s\<lparr>ts_executor := e', ts_producers := (ts_producers s)(p \<mapsto> producer_after t res)\<rparr>)"
| resume: "ts_producers s p = Some (PResume t) \<Longrightarrow>
     add_task_resume t (ts_executor s) = (e', res) \<Longrightarrow>
     te_step s (case res of AddSleep \<Rightarrow> [Slept t] | AddReturn \<Rightarrow> [Ignored t] | AddPushed \<Rightarrow> [Accepted t])
       (s\<lparr>ts_executor := e', ts_producers := (ts_producers s)(p \<mapsto> producer_after t res)\<rparr>)"
| producer_notify: "ts_producers s p = Some PNotify \<Longrightarrow>
     te_notify_one (s\<lparr>ts_producers := (ts_producers s)(p \<mapsto> PDone)\<rparr>) s' \<Longrightarrow> te_step s [] s'"
| take: "ts_worker s = WTake \<Longrightarrow> worker_take (ts_executor s) = (e', res) \<Longrightarrow>
     te_step s (case res of Take t \<Rightarrow> [Started t] | _ \<Rightarrow> [])
       (s\<lparr>ts_executor := e', ts_worker := worker_after res\<rparr>)"
| worker_notify: "ts_worker s = WNotify t \<Longrightarrow> te_notify_one (s\<lparr>ts_worker := WRun t\<rparr>) s' \<Longrightarrow>
     te_step s [] s'"
| finish: "ts_worker s = WRun t \<Longrightarrow> worker_finish (ts_executor s) = (e', idle) \<Longrightarrow>
     te_step s [Finished t]
       (if idle then te_notify_all (s\<lparr>ts_executor := e', ts_worker := WTake\<rparr>)
        else s\<lparr>ts_executor := e', ts_worker := WTake\<rparr>)"
| call_wait: "ts_waiters s w = None \<Longrightarrow>
     te_step s [] (s\<lparr>ts_waiters := (ts_waiters s)(w \<mapsto> QCheck)\<rparr>)"
| wait_check: "ts_waiters s w = Some QCheck \<Longrightarrow>
     te_step s (if wait_ready (ts_executor s) then [WaitReturned] else [])
       (s\<lparr>ts_waiters := (ts_waiters s)(w \<mapsto>
            (if wait_ready (ts_executor s) then QDone else QSleep))\<rparr>)"
| shutdown_call: "ts_shutdown s \<in> {SNone, SDone} \<Longrightarrow>
     te_step s [] (s\<lparr>ts_executor := shutdown_flag (ts_executor s), ts_shutdown := SNotify\<rparr>)"
| shutdown_notify: "ts_shutdown s = SNotify \<Longrightarrow>
     te_step s [] (te_notify_all s\<lparr>ts_shutdown := SJoin\<rparr>)"
| shutdown_join: "ts_shutdown s = SJoin \<Longrightarrow> ts_worker s = WExit \<Longrightarrow>
     te_step s [ShutdownReturned] (s\<lparr>ts_shutdown := SDone\<rparr>)"
| resize: "te_step s [] (s\<lparr>ts_executor := te_set_max_queue_size n (ts_executor s)\<rparr>)"
| policy: "te_step s [] (s\<lparr>ts_executor := te_set_queue_policy q (ts_executor s)\<rparr>)"
| reset: "te_step s [CountersReset] (s\<lparr>ts_executor := te_reset_dropped_tasks (ts_executor s)\<rparr>)"
| spurious: "te_sleeping s th \<Longrightarrow> te_step s [] (te_wake th s)"

inductive te_run :: "'a te_event list \<Rightarrow> 'a te_system \<Rightarrow> bool" where
  init: "te_run [] te_system_init"
| step: "te_run evs s \<Longrightarrow> te_step s ev s' \<Longrightarrow> te_run (evs @ ev) s'"

inductive_cases te_stepE: "te_step s ev s'"
inductive_cases te_notify_oneE: "te_notify_one s s'"

section \<open>Histories\<close>

fun accepted_by :: "'a te_event \<Rightarrow> 'a list" where
  "accepted_by (Accepted t) = [t]"
| "accepted_by _ = []"

fun evicted_by :: "'a te_event \<Rightarrow> 'a list" where
  "evicted_by (Evicted t) = [t]"
| "evicted_by _ = []"

fun started_by :: "'a te_event \<Rightarrow> 'a list" where
  "started_by (Started t) = [t]"
| "started_by _ = []"

fun finished_by :: "'a te_event \<Rightarrow> 'a list" where
  "finished_by (Finished t) = [t]"
| "finished_by _ = []"

definition accepted :: "'a te_event list \<Rightarrow> 'a list" where
  "accepted evs = concat (map accepted_by evs)"

definition evicted :: "'a te_event list \<Rightarrow> 'a list" where
  "evicted evs = concat (map evicted_by evs)"

definition started :: "'a te_event list \<Rightarrow> 'a list" where
  "started evs = concat (map started_by evs)"

definition finished :: "'a te_event list \<Rightarrow> 'a list" where
  "finished evs = concat (map finished_by evs)"

text \<open>The drops counted since the counter was last reset.\<close>

fun count_drop :: "nat \<Rightarrow> 'a te_event \<Rightarrow> nat" where
  "count_drop n (Evicted _) = n + 1"
| "count_drop n (Refused _) = n + 1"
| "count_drop n CountersReset = 0"
| "count_drop n _ = n"

definition drops :: "'a te_event list \<Rightarrow> nat" where
  "drops evs = foldl count_drop 0 evs"

lemma history_Nil [simp]:
  "accepted [] = []" "evicted [] = []" "started [] = []" "finished [] = []" "drops [] = 0"
  by (simp_all add: accepted_def evicted_def started_def finished_def drops_def)

lemma history_append [simp]:
  "accepted (xs @ ys) = accepted xs @ accepted ys" "evicted (xs @ ys) = evicted xs @ evicted ys"
  "started (xs @ ys) = started xs @ started ys" "finished (xs @ ys) = finished xs @ finished ys"
  "drops (xs @ ys) = foldl count_drop (drops xs) ys"
  by (simp_all add: accepted_def evicted_def started_def finished_def drops_def)

lemma history_Cons [simp]:
  "accepted (x # xs) = accepted_by x @ accepted xs" "evicted (x # xs) = evicted_by x @ evicted xs"
  "started (x # xs) = started_by x @ started xs" "finished (x # xs) = finished_by x @ finished xs"
  by (simp_all add: accepted_def evicted_def started_def finished_def)

section \<open>The invariant\<close>

primrec running :: "'a worker_pc \<Rightarrow> 'a list" where
  "running WTake = []"
| "running WSleep = []"
| "running (WNotify t) = [t]"
| "running (WRun t) = [t]"
| "running WExit = []"

definition te_inv ::
  "'a te_event list \<Rightarrow> 'a TaskExecutor \<Rightarrow> 'a worker_pc \<Rightarrow> shutdown_pc \<Rightarrow> bool" where
  "te_inv evs e w sd =
     (subseq (started evs @ te_tasks_queue e) (accepted evs) \<and>
      mset (accepted evs) = mset (started evs) + mset (te_tasks_queue e) + mset (evicted evs) \<and>
      started evs = finished evs @ running w \<and>
      te_active_tasks e = length (running w) \<and>
      te_dropped_tasks e = drops evs \<and>
      (w = WExit \<longrightarrow> te_stop_flag e \<and> te_tasks_queue e = []) \<and>
      (sd \<noteq> SNone \<longrightarrow> te_stop_flag e) \<and>
      (sd = SDone \<longrightarrow> w = WExit))"

definition te_inv_sys :: "'a te_event list \<Rightarrow> 'a te_system \<Rightarrow> bool" where
  "te_inv_sys evs s = te_inv evs (ts_executor s) (ts_worker s) (ts_shutdown s)"

lemma wake_worker_simps [simp]:
  "running (wake_worker w) = running w" "wake_worker w = WExit \<longleftrightarrow> w = WExit"
  by (cases w; simp add: wake_worker_def)+

lemma te_inv_wake_worker [simp]: "te_inv evs e (wake_worker w) sd = te_inv evs e w sd"
  by (simp add: te_inv_def)

lemma te_inv_wake [simp]: "te_inv_sys evs (te_wake th s) = te_inv_sys evs s"
  by (cases th) (simp_all add: te_inv_sys_def)

lemma te_inv_notify_all [simp]: "te_inv_sys evs (te_notify_all s) = te_inv_sys evs s"
  by (simp add: te_inv_sys_def te_notify_all_def)

lemma te_inv_notify_one: "te_notify_one s s' \<Longrightarrow> te_inv_sys evs s' = te_inv_sys evs s"
  by (erule te_notify_oneE) simp_all

lemma te_inv_producers [simp]:
  "te_inv_sys evs (s\<lparr>ts_producers := ps\<rparr>) = te_inv_sys evs s"
  "te_inv_sys evs (s\<lparr>ts_waiters := ws\<rparr>) = te_inv_sys evs s"
  by (simp_all add: te_inv_sys_def)

lemma subseq_drop_middle: "subseq (xs @ y # ys) zs \<Longrightarrow> subseq (xs @ ys) zs"
  by (metis append.assoc append_Cons append_Nil list_emb_append_mono list_emb_append2
      subseq_order.dual_order.trans subseq_order.refl)

lemma subseq_snoc: "subseq xs zs \<Longrightarrow> subseq (xs @ [t]) (zs @ [t])"
  by (simp add: list_emb_append_mono)

text \<open>Each critical section keeps the invariant.\<close>

lemma add_task_enter_inv:
  assumes "te_inv evs e w sd" "add_task_enter t e = (e', res)"
  shows "te_inv (evs @ add_events t e res) e' w sd"
proof (cases "te_stop_flag e")
  case True
  with assms show ?thesis by (auto simp: te_inv_def te_defs add_events_def)
next
  case run: False
  show ?thesis
  proof (cases "te_full e \<and> te_overflow_policy e = DropOldest")
    case True
    then obtain q qs where q: "te_tasks_queue e = q # qs"
      by (cases "te_tasks_queue e") (auto simp: te_full_def)
    have "subseq (started evs @ q # qs) (accepted evs)"
      using assms(1) unfolding te_inv_def q by blast
    then have "subseq (started evs @ qs) (accepted evs)" by (rule subseq_drop_middle)
    with True run q assms subseq_snoc [OF this] show ?thesis
      by (auto simp: te_inv_def add_task_enter_def te_push_back_def add_events_def)
  next
    case False
    with run assms subseq_snoc [of "started evs @ te_tasks_queue e" "accepted evs" t]
    show ?thesis
      by (auto simp: te_inv_def add_task_enter_def te_push_back_def add_events_def
          split: if_splits QueuePolicy.splits)
  qed
qed

lemma add_task_resume_inv:
  assumes "te_inv evs e w sd" "add_task_resume t e = (e', res)"
  shows "te_inv (evs @ (case res of AddSleep \<Rightarrow> [Slept t] | AddReturn \<Rightarrow> [Ignored t]
           | AddPushed \<Rightarrow> [Accepted t])) e' w sd"
  using assms subseq_snoc [of "started evs @ te_tasks_queue e" "accepted evs" t]
  by (auto simp: te_inv_def add_task_resume_def te_push_back_def split: if_splits)

lemma worker_take_inv:
  assumes "te_inv evs e WTake sd" "worker_take e = (e', res)"
  shows "te_inv (evs @ (case res of Take t \<Rightarrow> [Started t] | _ \<Rightarrow> [])) e' (worker_after res) sd"
  using assms by (auto simp: te_inv_def worker_take_def split: list.splits if_splits)

lemma worker_finish_inv:
  assumes "te_inv evs e (WRun t) sd" "worker_finish e = (e', idle)"
  shows "te_inv (evs @ [Finished t]) e' WTake sd"
  using assms by (auto simp: te_inv_def worker_finish_def Let_def)

lemma te_step_inv:
  assumes "te_step s ev s'" "te_inv_sys evs s"
  shows "te_inv_sys (evs @ ev) s'"
  using assms
proof (induction rule: te_step.induct)
  case (enter s p t e' res)
  then show ?case by (simp add: te_inv_sys_def add_task_enter_inv)
next
  case (resume s p t e' res)
  then show ?case by (simp add: te_inv_sys_def add_task_resume_inv)
next
  case (take s e' res)
  then show ?case by (simp add: te_inv_sys_def worker_take_inv)
next
  case (finish s t e' idle)
  then have "te_inv (evs @ [Finished t]) e' WTake (ts_shutdown s)"
    using worker_finish_inv by (auto simp: te_inv_sys_def)
  then show ?case by (cases idle) (simp_all add: te_inv_sys_def te_notify_all_def)
next
  case (producer_notify s p s')
  then show ?case using te_inv_notify_one by fastforce
next
  case (worker_notify s t s')
  then have "te_inv_sys evs (s\<lparr>ts_worker := WRun t\<rparr>)" by (auto simp: te_inv_sys_def te_inv_def)
  with worker_notify show ?case using te_inv_notify_one by fastforce
next
  case (shutdown_notify s)
  then show ?case by (auto simp: te_inv_sys_def te_notify_all_def te_inv_def)
next
  case (spurious s th)
  then show ?case by simp
qed (auto simp: te_inv_sys_def te_inv_def te_defs)

lemma te_run_inv: "te_run evs s \<Longrightarrow> te_inv_sys evs s"
proof (induction rule: te_run.induct)
  case init
  show ?case by (simp add: te_inv_sys_def te_inv_def te_system_init_def TaskExecutor_init_def)
next
  case (step evs s ev s')
  then show ?case by (intro te_step_inv)
qed

end
