(* ===== verification/ILogger.thy ===== *)
theory ILogger
  imports Records
begin

text \<open>
  The backend interface \<open>ILogger\<close> (\<open>ILogger.hpp\<close>) with the data types of its
  methods (\<open>LogFileInfo.hpp\<close>, \<open>LogFileReadResult.hpp\<close>) and its default method
  bodies.  A class that implements the interface is a record of functions over
  the state \<open>'l\<close> of its objects; a dispatcher that holds objects of several
  classes takes a sum type for \<open>'l\<close>.  The floating-point parameters
  (\<open>get_float_param\<close>) only divide the integer ones by 1000.0 and are left out.
\<close>

section \<open>Data types\<close>

record LogClearOptions =
  co_include_persistent_records :: bool
  co_include_payloads :: bool
  co_include_sessions :: bool

definition LogClearOptions_default :: LogClearOptions where
  "LogClearOptions_default =
     \<lparr>co_include_persistent_records = True, co_include_payloads = True, co_include_sessions = False\<rparr>"

datatype LogClearStatus = Cleared | Unsupported | Failed

record LogClearResult =
  cl_ok :: bool
  cl_status :: LogClearStatus
  cl_cleared_records :: nat
  cl_message :: string

definition LogClearResult_init :: LogClearResult where
  "LogClearResult_init = \<lparr>cl_ok = False, cl_status = Failed, cl_cleared_records = 0, cl_message = []\<rparr>"

record LogFileInfo =
  fi_path :: string
  fi_name :: string
  fi_day_start_ms :: int
  fi_is_current :: bool
  fi_is_compressed :: bool

definition LogFileInfo_init :: LogFileInfo where
  "LogFileInfo_init =
     \<lparr>fi_path = [], fi_name = [], fi_day_start_ms = 0, fi_is_current = False, fi_is_compressed = False\<rparr>"

record LogFileReadResult =
  rr_file :: LogFileInfo
  rr_content :: string
  rr_ok :: bool

text \<open>The result every reader starts from: the requested path, no content, not ok.\<close>

definition read_failed :: "string \<Rightarrow> LogFileReadResult" where
  "read_failed path = \<lparr>rr_file = LogFileInfo_init\<lparr>fi_path := path\<rparr>, rr_content = [], rr_ok = False\<rparr>"

section \<open>The interface\<close>

record 'l ILogger =
  il_log :: "LogRecord \<Rightarrow> string \<Rightarrow> 'l \<Rightarrow> 'l"
  il_supports_concurrent_log :: "'l \<Rightarrow> bool"
  il_get_string_param :: "LoggerParam \<Rightarrow> 'l \<Rightarrow> string"
  il_get_int_param :: "LoggerParam \<Rightarrow> 'l \<Rightarrow> int"
  il_set_log_level :: "LogLevel \<Rightarrow> 'l \<Rightarrow> 'l"
  il_get_log_level :: "'l \<Rightarrow> LogLevel"
  il_get_buffered_strings :: "'l \<Rightarrow> string list \<times> 'l"
  il_get_buffered_entries :: "'l \<Rightarrow> BufferedLogEntry list \<times> 'l"
  il_list_log_files :: "'l \<Rightarrow> LogFileInfo list"
  il_read_log_file :: "string \<Rightarrow> 'l \<Rightarrow> LogFileReadResult"
  il_clear_logs :: "LogClearOptions \<Rightarrow> 'l \<Rightarrow> LogClearResult \<times> 'l"
  il_wait :: "'l \<Rightarrow> 'l"
  il_shutdown :: "'l \<Rightarrow> 'l"

text \<open>Default bodies.  \<open>read_log_files\<close> is the one method no backend overrides alone.\<close>

definition ILogger_read_log_file :: "string \<Rightarrow> 'l \<Rightarrow> LogFileReadResult" where
  "ILogger_read_log_file path l = read_failed path"

definition ILogger_read_log_files :: "'l ILogger \<Rightarrow> string list \<Rightarrow> 'l \<Rightarrow> LogFileReadResult list" where
  "ILogger_read_log_files il paths l = map (\<lambda>path. il_read_log_file il path l) paths"

definition ILogger_clear_logs :: "LogClearOptions \<Rightarrow> 'l \<Rightarrow> LogClearResult \<times> 'l" where
  "ILogger_clear_logs options l =
     (LogClearResult_init\<lparr>cl_ok := False, cl_status := Unsupported, cl_message := ''unsupported''\<rparr>, l)"

definition ILogger_get_buffered :: "'l \<Rightarrow> 'b list \<times> 'l" where
  "ILogger_get_buffered l = ([], l)"

definition ILogger_list_log_files :: "'l \<Rightarrow> LogFileInfo list" where
  "ILogger_list_log_files l = []"

text \<open>
  What a dispatcher relies on: the level is a plain cell, and the calls that
  deliver, drain or clear records leave it alone.
\<close>

locale levelled_logger =
  fixes il :: "'l ILogger"
  assumes get_set: "il_get_log_level il (il_set_log_level il level l) = level"
    and log_level: "il_get_log_level il (il_log il r msg l) = il_get_log_level il l"
    and wait_level: "il_get_log_level il (il_wait il l) = il_get_log_level il l"
    and shutdown_level: "il_get_log_level il (il_shutdown il l) = il_get_log_level il l"
begin

text \<open>A whole batch of deliveries leaves the level alone.\<close>

lemma foldl_log_level:
  "il_get_log_level il (foldl (\<lambda>l (r, msg). il_log il r msg l) l ds) = il_get_log_level il l"
  by (induction ds arbitrary: l) (auto simp: log_level)

lemma set_log_twice:
  "il_get_log_level il (il_log il r msg (il_set_log_level il level l)) = level"
  by (simp add: log_level get_set)

end

end
