(* ===== verification/Mdbx.thy ===== *)
theory Mdbx
  imports MdbxCodec Compression Executor ILogger
begin

unbundle bit_operations_syntax

text \<open>
  The MDBX storage backend (\<open>MdbxLogger.hpp\<close>): sessions, records and payloads
  in three tables, written in transactions by the caller or by a worker that
  takes batches from a bounded queue.  The containers library is a parameter:
  a \<open>kv\<close> gives the operations of a table over an abstract table state, each of
  which may throw (\<open>None\<close>); values are the bytes the library obtains from
  \<open>to_bytes\<close> and hands to \<open>from_bytes\<close>.  A transaction works on a copy of the
  three tables that replaces them at the commit.  The clock, the process id and
  the compression libraries are the other fields of the environment; the clock
  is read once for each unique id.  The counters stay below 2^64.
\<close>

section \<open>Tables and environment\<close>

record ('k, 't) kv =
  kv_find :: "'k \<Rightarrow> 't \<Rightarrow> string option option"
  kv_contains :: "'k \<Rightarrow> 't \<Rightarrow> bool option"
  kv_insert :: "'k \<Rightarrow> string \<Rightarrow> 't \<Rightarrow> (bool \<times> 't) option"
  kv_insert_or_assign :: "'k \<Rightarrow> string \<Rightarrow> 't \<Rightarrow> 't option"
  kv_range :: "'k \<Rightarrow> 'k \<Rightarrow> 't \<Rightarrow> ('k \<times> string) list option"
  kv_count :: "'t \<Rightarrow> nat option"
  kv_clear :: "'t \<Rightarrow> 't option"

record ('s, 'r) mdbx_db =
  db_sessions :: 's
  db_records :: 'r
  db_payloads :: 's

record ('s, 'r) mdbx_env =
  me_ids :: "(u64, 's) kv"
  me_keys :: "(string, 'r) kv"
  me_begin :: bool
  me_commit :: bool
  me_clock :: "u64 \<Rightarrow> int"
  me_now :: int
  me_pid :: u64
  me_codec :: codec
  me_has_zlib :: bool
  me_has_zstd :: bool

section \<open>State\<close>

record Mdbx_Config =
  mq_app_name :: string
  mq_session_id :: u64
  mq_async :: bool
  mq_drop_on_overflow :: bool
  mq_max_queue_size :: nat
  mq_max_batch_size :: nat
  mq_flush_interval_ms :: int
  mq_large_payload_threshold :: nat
  mq_payload_preview_size :: nat
  mq_store_large_payloads_separately :: bool
  mq_payload_compression :: MdbxPayloadCompression
  mq_payload_compression_level :: int

definition Mdbx_Config_default :: Mdbx_Config where
  "Mdbx_Config_default =
     \<lparr>mq_app_name = [], mq_session_id = 0, mq_async = True, mq_drop_on_overflow = True,
      mq_max_queue_size = 8192, mq_max_batch_size = 256, mq_flush_interval_ms = 100,
      mq_large_payload_threshold = 4096, mq_payload_preview_size = 512,
      mq_store_large_payloads_separately = True, mq_payload_compression = CompressionNone,
      mq_payload_compression_level = 6\<rparr>"

record MdbxLogItem =
  mi_level :: LogLevel
  mi_timestamp_ms :: int
  mi_file :: string
  mi_function :: string
  mi_line :: int
  mi_message :: string

text \<open>The snapshot of a stored row; its level is the stored value.\<close>

record MdbxSnapshot =
  sp_session_id :: u64
  sp_timestamp_ms :: int
  sp_sequence :: u32
  sp_level :: u32
  sp_message :: string
  sp_payload_id :: u64
  sp_file :: string
  sp_function :: string
  sp_line :: int

text \<open>
  \<open>mb_ids\<close> is the function-local counter of \<open>make_unique_id\<close>;
  \<open>mb_notified\<close> records the calls of the subscribed callbacks, in order.
\<close>

record ('s, 'r, 'cb) MdbxLogger =
  mb_config :: Mdbx_Config
  mb_db :: "('s, 'r) mdbx_db"
  mb_queue :: "MdbxLogItem list"
  mb_stopping :: bool
  mb_idle :: bool
  mb_session_id :: u64
  mb_next_sequence_by_timestamp :: "int \<rightharpoonup> u32"
  mb_log_level :: LogLevel
  mb_last_log_ts :: int
  mb_last_log_mono_ts :: int
  mb_dropped :: nat
  mb_failed_writes :: nat
  mb_shutdown :: bool
  mb_callbacks :: "(nat \<times> 'cb) list"
  mb_next_callback_id :: nat
  mb_ids :: u64
  mb_notified :: "('cb \<times> MdbxSnapshot) list"

text \<open>What a transaction can throw.\<close>

datatype mdbx_error = TableError | StringTooLong | SequenceExhausted | NoUniqueId | NotBuilt | RowUnreadable

section \<open>Unique ids\<close>

definition make_unique_id :: "('s, 'r) mdbx_env \<Rightarrow> ('s, 'r, 'cb) MdbxLogger \<Rightarrow> u64 \<times> ('s, 'r, 'cb) MdbxLogger" where
  "make_unique_id env s =
     (let now = word_of_int (me_clock env (mb_ids s)) :: u64;
          n = mb_ids s AND 0xFFFF;
          ident = push_bit 16 now XOR push_bit 1 (me_pid env) XOR n
      in (if ident = 0 then n + 1 else ident, s\<lparr>mb_ids := mb_ids s + 1\<rparr>))"

section \<open>Writing one record\<close>

definition should_spill_payload :: "Mdbx_Config \<Rightarrow> string \<Rightarrow> bool" where
  "should_spill_payload c msg =
     (mq_store_large_payloads_separately c \<and> mq_large_payload_threshold c < length msg)"

definition make_payload_preview :: "Mdbx_Config \<Rightarrow> string \<Rightarrow> string" where
  "make_payload_preview c msg = take (min (length msg) (mq_payload_preview_size c)) msg"

text \<open>The payload row of a message, and whether the compression failed (one more failed write).\<close>

definition fill_payload :: "codec \<Rightarrow> Mdbx_Config \<Rightarrow> string \<Rightarrow> u64 \<Rightarrow> MdbxPayload \<times> bool" where
  "fill_payload cd c msg ident =
     (let plain = \<lparr>pl_payload_id = ident, pl_compression = CompressionNone, pl_data = msg\<rparr>;
          compressed = (case mq_payload_compression c of
              CompressionNone \<Rightarrow> None
            | CompressionGzip \<Rightarrow> compress_string_gzip cd msg (mq_payload_compression_level c)
            | CompressionZstd \<Rightarrow> compress_string_zstd cd msg (mq_payload_compression_level c))
      in if mq_payload_compression c = CompressionNone then (plain, False)
         else case compressed of
           None \<Rightarrow> (plain, True)
         | Some out \<Rightarrow> (plain\<lparr>pl_compression := mq_payload_compression c, pl_data := out\<rparr>, False))"

text \<open>The loop of 1024 attempts; the first argument counts those left.\<close>

fun allocate_payload_id :: "nat \<Rightarrow> ('s, 'r) mdbx_env \<Rightarrow> ('s, 'r, 'cb) MdbxLogger
    \<Rightarrow> (mdbx_error + u64) \<times> ('s, 'r, 'cb) MdbxLogger" where
  "allocate_payload_id 0 env s = (Inl NoUniqueId, s)"
| "allocate_payload_id (Suc n) env s =
     (let (candidate, s') = make_unique_id env s
      in case kv_contains (me_ids env) candidate (db_payloads (mb_db s')) of
           None \<Rightarrow> (Inl TableError, s')
         | Some present \<Rightarrow> if \<not> present then (Inr candidate, s') else allocate_payload_id n env s')"

definition max_u32 :: u32 where
  "max_u32 = - 1"

text \<open>The search for a free sequence number, upwards from a candidate.\<close>

function key_search :: "(u32 \<Rightarrow> bool option) \<Rightarrow> u32 \<Rightarrow> mdbx_error + u32" where
  "key_search present candidate =
     (case present candidate of
        None \<Rightarrow> Inl TableError
      | Some False \<Rightarrow> Inr candidate
      | Some True \<Rightarrow>
          if candidate = max_u32 then Inl SequenceExhausted else key_search present (candidate + 1))"
  by pat_completeness auto

lemma u32_succ: "c \<noteq> max_u32 \<Longrightarrow> unat (c + 1) = Suc (unat c)"
  by (simp add: max_u32_def unatSuc add.commute [of _ 1] eq_neg_iff_add_eq_0)

lemma u32_bound: "unat (c :: u32) < 2 ^ 32"
  using unsigned_less [of c, where 'a = nat] by simp

termination key_search
proof (relation "measure (\<lambda>(present, c). 2 ^ 32 - unat c)")
  fix present :: "u32 \<Rightarrow> bool option" and c x
  assume "c \<noteq> max_u32"
  then show "((present, c + 1), present, c) \<in> measure (\<lambda>(present, c). 2 ^ 32 - unat c)"
    using u32_bound [of c] by (simp add: u32_succ)
qed simp

declare key_search.simps [simp del]

definition start_sequence :: "int \<Rightarrow> ('s, 'r, 'cb) MdbxLogger \<Rightarrow> u32" where
  "start_sequence timestamp_ms s =
     (case mb_next_sequence_by_timestamp s timestamp_ms of None \<Rightarrow> 0 | Some q \<Rightarrow> q)"

definition next_record_key :: "('s, 'r) mdbx_env \<Rightarrow> int \<Rightarrow> ('s, 'r, 'cb) MdbxLogger
    \<Rightarrow> (mdbx_error + u32) \<times> ('s, 'r, 'cb) MdbxLogger" where
  "next_record_key env timestamp_ms s =
     (let present = (\<lambda>q. kv_contains (me_keys env) (make_mdbx_record_key timestamp_ms q) (db_records (mb_db s)))
      in case key_search present (start_sequence timestamp_ms s) of
           Inl e \<Rightarrow> (Inl e, s)
         | Inr q \<Rightarrow>
             (Inr q, s\<lparr>mb_next_sequence_by_timestamp := (mb_next_sequence_by_timestamp s)
                (timestamp_ms \<mapsto> (if q \<noteq> max_u32 then q + 1 else q))\<rparr>))"

definition advance_sequence_after_collision :: "int \<Rightarrow> u32 \<Rightarrow> ('s, 'r, 'cb) MdbxLogger
    \<Rightarrow> (mdbx_error + unit) \<times> ('s, 'r, 'cb) MdbxLogger" where
  "advance_sequence_after_collision timestamp_ms q s =
     (if q = max_u32 then (Inl SequenceExhausted, s)
      else (Inr (), s\<lparr>mb_next_sequence_by_timestamp :=
              (mb_next_sequence_by_timestamp s)(timestamp_ms \<mapsto> q + 1)\<rparr>))"

text \<open>The loop that inserts the record, moving to the next sequence number after a collision.\<close>

lemma key_search_ge: "key_search present c = Inr q \<Longrightarrow> unat c \<le> unat q"
proof (induction present c rule: key_search.induct)
  case (1 present c)
  note search = "1.prems" [unfolded key_search.simps [of present c]]
  show ?case
  proof (cases "present c = Some True \<and> c \<noteq> max_u32")
    case True
    with search have "key_search present (c + 1) = Inr q" by simp
    with "1.IH" [of True] True show ?thesis by (simp add: u32_succ)
  next
    case False
    with search show ?thesis by (simp split: option.splits bool.splits if_splits)
  qed
qed

function insert_record :: "('s, 'r) mdbx_env \<Rightarrow> MdbxRecord \<Rightarrow> ('s, 'r, 'cb) MdbxLogger
    \<Rightarrow> (mdbx_error + MdbxRecord) \<times> ('s, 'r, 'cb) MdbxLogger" where
  "insert_record env r s =
     (case next_record_key env (rc_timestamp_ms r) s of
        (Inl e, s1) \<Rightarrow> (Inl e, s1)
      | (Inr q, s1) \<Rightarrow>
          let r1 = r\<lparr>rc_sequence := q\<rparr>; key = make_mdbx_record_key (rc_timestamp_ms r) q
          in case serialize_record r1 of
               None \<Rightarrow> (Inl StringTooLong, s1)
             | Some bytes \<Rightarrow>
                 (case kv_insert (me_keys env) key bytes (db_records (mb_db s1)) of
                    None \<Rightarrow> (Inl TableError, s1)
                  | Some (inserted, t) \<Rightarrow>
                      let s2 = s1\<lparr>mb_db := (mb_db s1)\<lparr>db_records := t\<rparr>\<rparr>
                      in if inserted then (Inr r1, s2)
                         else case advance_sequence_after_collision (rc_timestamp_ms r) q s2 of
                           (Inl e, s3) \<Rightarrow> (Inl e, s3)
                         | (Inr _, s3) \<Rightarrow> insert_record env r1 s3))"
  by pat_completeness auto

lemma insert_record_measure:
  assumes "next_record_key env ts s = (Inr q, s1)"
    and "advance_sequence_after_collision ts q (s1\<lparr>mb_db := d\<rparr>) = (Inr u, s3)"
  shows "2 ^ 32 - unat (start_sequence ts s3) < 2 ^ 32 - unat (start_sequence ts s)"
proof -
  have "unat (start_sequence ts s) \<le> unat q"
    using assms(1) by (auto simp: next_record_key_def Let_def split: sum.splits intro: key_search_ge)
  moreover have q: "q \<noteq> max_u32" "start_sequence ts s3 = q + 1"
    using assms(2) by (auto simp: advance_sequence_after_collision_def start_sequence_def split: if_splits)
  ultimately show ?thesis using u32_succ [OF q(1)] u32_bound [of q] by simp
qed

termination insert_record
proof (relation "measure (\<lambda>(env, r, s). 2 ^ 32 - unat (start_sequence (rc_timestamp_ms r) s))")
  fix env :: "('s, 'r) mdbx_env" and r and s s1 s2 s3 :: "('s, 'r, 'cb) MdbxLogger"
    and x1 q r1 key bytes x2 inserted t x3 u
  assume "(x1, s1) = next_record_key env (rc_timestamp_ms r) s" "x1 = Inr q"
    "r1 = r\<lparr>rc_sequence := q\<rparr>" "s2 = s1\<lparr>mb_db := (mb_db s1)\<lparr>db_records := t\<rparr>\<rparr>"
    "(x3, s3) = advance_sequence_after_collision (rc_timestamp_ms r) q s2" "x3 = Inr u"
  then show "((env, r1, s3), env, r, s) \<in> measure (\<lambda>(env, r, s). 2 ^ 32 - unat (start_sequence (rc_timestamp_ms r) s))"
    using insert_record_measure [of env "rc_timestamp_ms r" s q s1] by simp
qed simp

declare insert_record.simps [simp del]

definition item_record :: "MdbxLogItem \<Rightarrow> u64 \<Rightarrow> MdbxRecord" where
  "item_record item session =
     \<lparr>rc_session_id = session, rc_timestamp_ms = mi_timestamp_ms item, rc_sequence = 0,
      rc_level = word_of_int (level_int (mi_level item)), rc_message = mi_message item, rc_payload_id = 0,
      rc_file = mi_file item, rc_function = mi_function item, rc_line = mi_line item\<rparr>"

definition store_payload :: "('s, 'r) mdbx_env \<Rightarrow> string \<Rightarrow> ('s, 'r, 'cb) MdbxLogger
    \<Rightarrow> (mdbx_error + u64) \<times> ('s, 'r, 'cb) MdbxLogger" where
  "store_payload env msg s =
     (case allocate_payload_id 1024 env s of
        (Inl e, s1) \<Rightarrow> (Inl e, s1)
      | (Inr ident, s1) \<Rightarrow>
          let (payload, failed) = fill_payload (me_codec env) (mb_config s1) msg ident;
              s2 = (if failed then s1\<lparr>mb_failed_writes := mb_failed_writes s1 + 1\<rparr> else s1)
          in case serialize_payload payload of
               None \<Rightarrow> (Inl StringTooLong, s2)
             | Some bytes \<Rightarrow>
                 (case kv_insert (me_ids env) ident bytes (db_payloads (mb_db s2)) of
                    None \<Rightarrow> (Inl TableError, s2)
                  | Some (inserted, t) \<Rightarrow> (Inr ident, s2\<lparr>mb_db := (mb_db s2)\<lparr>db_payloads := t\<rparr>\<rparr>)))"

definition write_item :: "('s, 'r) mdbx_env \<Rightarrow> MdbxLogItem \<Rightarrow> ('s, 'r, 'cb) MdbxLogger
    \<Rightarrow> (mdbx_error + MdbxRecord) \<times> ('s, 'r, 'cb) MdbxLogger" where
  "write_item env item s =
     (let r = item_record item (mb_session_id s)
      in if should_spill_payload (mb_config s) (mi_message item) then
           case store_payload env (mi_message item) s of
             (Inl e, s1) \<Rightarrow> (Inl e, s1)
           | (Inr ident, s1) \<Rightarrow>
               insert_record env (r\<lparr>rc_payload_id := ident,
                 rc_message := make_payload_preview (mb_config s) (mi_message item)\<rparr>) s1
         else insert_record env r s)"

section \<open>Writing a batch\<close>

definition to_log_record_snapshot :: "MdbxRecord \<Rightarrow> MdbxSnapshot" where
  "to_log_record_snapshot r =
     \<lparr>sp_session_id = rc_session_id r, sp_timestamp_ms = rc_timestamp_ms r, sp_sequence = rc_sequence r,
      sp_level = rc_level r, sp_message = rc_message r, sp_payload_id = rc_payload_id r,
      sp_file = rc_file r, sp_function = rc_function r, sp_line = rc_line r\<rparr>"

text \<open>Every callback for every snapshot; what a callback throws goes no further.\<close>

definition mdbx_notify :: "MdbxSnapshot list \<Rightarrow> ('s, 'r, 'cb) MdbxLogger \<Rightarrow> ('s, 'r, 'cb) MdbxLogger" where
  "mdbx_notify snapshots s =
     s\<lparr>mb_notified := mb_notified s @
         concat (map (\<lambda>sn. map (\<lambda>entry. (snd entry, sn)) (mb_callbacks s)) snapshots)\<rparr>"

fun write_items :: "('s, 'r) mdbx_env \<Rightarrow> MdbxLogItem list \<Rightarrow> ('s, 'r, 'cb) MdbxLogger
    \<Rightarrow> (mdbx_error + MdbxRecord list) \<times> ('s, 'r, 'cb) MdbxLogger" where
  "write_items env [] s = (Inr [], s)"
| "write_items env (item # items) s =
     (case write_item env item s of
        (Inl e, s1) \<Rightarrow> (Inl e, s1)
      | (Inr r, s1) \<Rightarrow>
          (case write_items env items s1 of
             (Inl e, s2) \<Rightarrow> (Inl e, s2)
           | (Inr rs, s2) \<Rightarrow> (Inr (r # rs), s2)))"

definition write_failed :: "('s, 'r) mdbx_db \<Rightarrow> ('s, 'r, 'cb) MdbxLogger \<Rightarrow> ('s, 'r, 'cb) MdbxLogger" where
  "write_failed db s = s\<lparr>mb_db := db, mb_failed_writes := mb_failed_writes s + 1\<rparr>"

text \<open>The flag says whether the transaction was committed.\<close>

definition write_batch :: "('s, 'r) mdbx_env \<Rightarrow> MdbxLogItem list \<Rightarrow> ('s, 'r, 'cb) MdbxLogger
    \<Rightarrow> bool \<times> ('s, 'r, 'cb) MdbxLogger" where
  "write_batch env batch s =
     (if batch = [] then (True, s)
      else if \<not> me_begin env then (False, write_failed (mb_db s) s)
      else case write_items env batch s of
        (Inl e, s1) \<Rightarrow> (False, write_failed (mb_db s) s1)
      | (Inr rs, s1) \<Rightarrow>
          if \<not> me_commit env then (False, write_failed (mb_db s) s1)
          else (True, mdbx_notify (map to_log_record_snapshot rs) s1))"

section \<open>Sessions\<close>

definition new_session :: "('s, 'r) mdbx_env \<Rightarrow> string \<Rightarrow> MdbxSession" where
  "new_session env app_name =
     \<lparr>ss_app_name = app_name, ss_start_time_ms = me_now env, ss_end_time_ms = 0,
      ss_process_id = me_pid env, ss_schema_version = 1\<rparr>"

definition find_session :: "('s, 'r) mdbx_env \<Rightarrow> u64 \<Rightarrow> ('s, 'r, 'cb) MdbxLogger \<Rightarrow> mdbx_error + MdbxSession option" where
  "find_session env ident s =
     (case kv_find (me_ids env) ident (db_sessions (mb_db s)) of
        None \<Rightarrow> Inl TableError
      | Some None \<Rightarrow> Inr None
      | Some (Some bytes) \<Rightarrow>
          (case deserialize_session bytes of Inl e \<Rightarrow> Inl RowUnreadable | Inr v \<Rightarrow> Inr (Some v)))"

definition put_session :: "('s, 'r) mdbx_env \<Rightarrow> u64 \<Rightarrow> MdbxSession \<Rightarrow> ('s, 'r, 'cb) MdbxLogger
    \<Rightarrow> mdbx_error + ('s, 'r, 'cb) MdbxLogger" where
  "put_session env ident session s =
     (case serialize_session session of
        None \<Rightarrow> Inl StringTooLong
      | Some bytes \<Rightarrow>
          (case kv_insert_or_assign (me_ids env) ident bytes (db_sessions (mb_db s)) of
             None \<Rightarrow> Inl TableError
           | Some t \<Rightarrow>
               if \<not> me_commit env then Inl TableError
               else Inr (s\<lparr>mb_db := (mb_db s)\<lparr>db_sessions := t\<rparr>\<rparr>)))"

text \<open>The search for an unused session id; the first argument counts the attempts left.\<close>

fun insert_new_session :: "nat \<Rightarrow> ('s, 'r) mdbx_env \<Rightarrow> ('s, 'r, 'cb) MdbxLogger
    \<Rightarrow> mdbx_error + ('s, 'r, 'cb) MdbxLogger" where
  "insert_new_session 0 env s = Inl NoUniqueId"
| "insert_new_session (Suc n) env s =
     (let (candidate, s1) = make_unique_id env s
      in case serialize_session (new_session env (mq_app_name (mb_config s1))) of
           None \<Rightarrow> Inl StringTooLong
         | Some bytes \<Rightarrow>
             (case kv_insert (me_ids env) candidate bytes (db_sessions (mb_db s1)) of
                None \<Rightarrow> Inl TableError
              | Some (inserted, t) \<Rightarrow>
                  if inserted
                  then if \<not> me_commit env then Inl TableError
                       else Inr (s1\<lparr>mb_db := (mb_db s1)\<lparr>db_sessions := t\<rparr>, mb_session_id := candidate\<rparr>)
                  else insert_new_session n env (s1\<lparr>mb_db := (mb_db s1)\<lparr>db_sessions := t\<rparr>\<rparr>)))"

definition open_session :: "('s, 'r) mdbx_env \<Rightarrow> ('s, 'r, 'cb) MdbxLogger
    \<Rightarrow> mdbx_error + ('s, 'r, 'cb) MdbxLogger" where
  "open_session env s =
     (let c = mb_config s; ident = mq_session_id c
      in if \<not> me_begin env then Inl TableError
         else if ident \<noteq> 0 then
           (case find_session env ident s of
              Inl e \<Rightarrow> Inl e
            | Inr None \<Rightarrow>
                (case put_session env ident (new_session env (mq_app_name c)) s of
                   Inl e \<Rightarrow> Inl e | Inr s1 \<Rightarrow> Inr (s1\<lparr>mb_session_id := ident\<rparr>))
            | Inr (Some v) \<Rightarrow>
                let v1 = v\<lparr>ss_app_name := (if mq_app_name c \<noteq> [] then mq_app_name c else ss_app_name v),
                    ss_start_time_ms := (if ss_start_time_ms v = 0 then me_now env else ss_start_time_ms v),
                    ss_end_time_ms := 0, ss_process_id := me_pid env, ss_schema_version := 1\<rparr>
                in (case put_session env ident v1 s of
                      Inl e \<Rightarrow> Inl e | Inr s1 \<Rightarrow> Inr (s1\<lparr>mb_session_id := ident\<rparr>)))
         else insert_new_session 1024 env s)"

definition update_session_end :: "('s, 'r) mdbx_env \<Rightarrow> ('s, 'r, 'cb) MdbxLogger
    \<Rightarrow> mdbx_error + ('s, 'r, 'cb) MdbxLogger" where
  "update_session_end env s =
     (if \<not> me_begin env then Inl TableError
      else case find_session env (mb_session_id s) s of
        Inl e \<Rightarrow> Inl e
      | Inr found \<Rightarrow>
          let session = (case found of None \<Rightarrow> new_session env (mq_app_name (mb_config s)) | Some v \<Rightarrow> v)
          in put_session env (mb_session_id s) (session\<lparr>ss_end_time_ms := me_now env\<rparr>) s)"

section \<open>Construction\<close>

definition normalize_config :: "Mdbx_Config \<Rightarrow> Mdbx_Config" where
  "normalize_config c =
     c\<lparr>mq_max_batch_size := (if mq_max_batch_size c = 0 then 1 else mq_max_batch_size c),
       mq_flush_interval_ms := (if mq_flush_interval_ms c \<le> 0 then 1 else mq_flush_interval_ms c)\<rparr>"

definition validate_compression_config :: "('s, 'r) mdbx_env \<Rightarrow> Mdbx_Config \<Rightarrow> bool" where
  "validate_compression_config env c =
     ((mq_payload_compression c = CompressionGzip \<longrightarrow> me_has_zlib env) \<and>
      (mq_payload_compression c = CompressionZstd \<longrightarrow> me_has_zstd env))"

definition mdbx_blank :: "Mdbx_Config \<Rightarrow> ('s, 'r) mdbx_db \<Rightarrow> u64 \<Rightarrow> ('s, 'r, 'cb) MdbxLogger" where
  "mdbx_blank c db ids =
     \<lparr>mb_config = c, mb_db = db, mb_queue = [], mb_stopping = False, mb_idle = True, mb_session_id = 0,
      mb_next_sequence_by_timestamp = Map.empty, mb_log_level = LOG_LVL_TRACE, mb_last_log_ts = 0,
      mb_last_log_mono_ts = 0, mb_dropped = 0, mb_failed_writes = 0, mb_shutdown = False,
      mb_callbacks = [], mb_next_callback_id = 1, mb_ids = ids, mb_notified = []\<rparr>"

text \<open>\<open>opened\<close> is what opening the tables gave, \<open>None\<close> when it threw.\<close>

definition MdbxLogger_init :: "('s, 'r) mdbx_env \<Rightarrow> Mdbx_Config \<Rightarrow> ('s, 'r) mdbx_db option \<Rightarrow> u64
    \<Rightarrow> mdbx_error + ('s, 'r, 'cb) MdbxLogger" where
  "MdbxLogger_init env config opened ids =
     (let c = normalize_config config
      in if \<not> validate_compression_config env c then Inl NotBuilt
         else case opened of None \<Rightarrow> Inl TableError | Some db \<Rightarrow> open_session env (mdbx_blank c db ids))"

section \<open>Reading\<close>

text \<open>The callback of \<open>for_each_range\<close>: rows are decoded as they are visited, up to the limit.\<close>

fun range_loop :: "nat \<Rightarrow> MdbxSnapshot list \<Rightarrow> (string \<times> string) list \<Rightarrow> LogReadError + MdbxSnapshot list" where
  "range_loop limit result [] = Inr result"
| "range_loop limit result ((key, bytes) # rows) =
     (case deserialize_record bytes of
        Inl e \<Rightarrow> Inl e
      | Inr r \<Rightarrow>
          let result' = result @ [to_log_record_snapshot r]
          in if limit = 0 \<or> length result' < limit then range_loop limit result' rows else Inr result')"

definition mdbx_read_range :: "('s, 'r) mdbx_env \<Rightarrow> int \<Rightarrow> int \<Rightarrow> nat \<Rightarrow> ('s, 'r, 'cb) MdbxLogger
    \<Rightarrow> LogReadError + MdbxSnapshot list" where
  "mdbx_read_range env from_ms to_ms limit s =
     (if to_ms \<le> from_ms then Inr []
      else case kv_range (me_keys env) (make_mdbx_record_key from_ms 0)
                  (make_mdbx_record_key (to_ms - 1) max_u32) (db_records (mb_db s)) of
             None \<Rightarrow> Inl StorageError
           | Some rows \<Rightarrow> range_loop limit [] rows)"

definition mdbx_read_recent :: "('s, 'r) mdbx_env \<Rightarrow> nat \<Rightarrow> int \<Rightarrow> LogReadOrder \<Rightarrow> ('s, 'r, 'cb) MdbxLogger
    \<Rightarrow> LogReadError + MdbxSnapshot list" where
  "mdbx_read_recent env limit period_ms order s =
     (let now_ms = me_now env; from_ms = (if 0 < period_ms then now_ms - period_ms else 0)
      in case mdbx_read_range env from_ms (now_ms + 1) 0 s of
           Inl e \<Rightarrow> Inl e
         | Inr all \<Rightarrow>
             let kept = (if 0 < limit \<and> limit < length all then drop (length all - limit) all else all)
             in Inr (if order = Descending then rev kept else kept))"

definition read_payload :: "('s, 'r) mdbx_env \<Rightarrow> u64 \<Rightarrow> ('s, 'r, 'cb) MdbxLogger \<Rightarrow> LogReadError + MdbxPayload" where
  "read_payload env ident s =
     (if ident = 0 then Inl NotFound
      else case kv_find (me_ids env) ident (db_payloads (mb_db s)) of
        None \<Rightarrow> Inl StorageError
      | Some None \<Rightarrow> Inl NotFound
      | Some (Some bytes) \<Rightarrow> deserialize_payload bytes)"

definition read_payload_data :: "('s, 'r) mdbx_env \<Rightarrow> u64 \<Rightarrow> ('s, 'r, 'cb) MdbxLogger \<Rightarrow> LogReadError + string" where
  "read_payload_data env ident s =
     (case read_payload env ident s of
        Inl e \<Rightarrow> Inl e
      | Inr p \<Rightarrow>
          (case pl_compression p of
             CompressionNone \<Rightarrow> Inr (pl_data p)
           | CompressionGzip \<Rightarrow>
               (case decompress_string_gzip (me_codec env) (pl_data p) of
                  None \<Rightarrow> Inl DecompressionError | Some out \<Rightarrow> Inr out)
           | CompressionZstd \<Rightarrow>
               (case decompress_string_zstd (me_codec env) (pl_data p) of
                  None \<Rightarrow> Inl DecompressionError | Some out \<Rightarrow> Inr out)))"

definition read_session :: "('s, 'r) mdbx_env \<Rightarrow> u64 \<Rightarrow> ('s, 'r, 'cb) MdbxLogger \<Rightarrow> LogReadError + MdbxSession" where
  "read_session env ident s =
     (if ident = 0 then Inl NotFound
      else case kv_find (me_ids env) ident (db_sessions (mb_db s)) of
        None \<Rightarrow> Inl StorageError
      | Some None \<Rightarrow> Inl NotFound
      | Some (Some bytes) \<Rightarrow> deserialize_session bytes)"

section \<open>Clearing\<close>

text \<open>
  The transaction of \<open>clear_logs\<close>: the tables it leaves, the number of records
  counted and the state with the new session id, or how far it got.
\<close>

definition clear_records :: "('s, 'r) mdbx_env \<Rightarrow> LogClearOptions \<Rightarrow> ('s, 'r) mdbx_db \<Rightarrow> nat \<times> ('s, 'r) mdbx_db option" where
  "clear_records env options db =
     (if \<not> co_include_persistent_records options then (0, Some db)
      else case kv_count (me_keys env) (db_records db) of
        None \<Rightarrow> (0, None)
      | Some n \<Rightarrow> (n, map_option (\<lambda>t. db\<lparr>db_records := t\<rparr>) (kv_clear (me_keys env) (db_records db))))"

definition clear_payloads :: "('s, 'r) mdbx_env \<Rightarrow> LogClearOptions \<Rightarrow> ('s, 'r) mdbx_db \<Rightarrow> ('s, 'r) mdbx_db option" where
  "clear_payloads env options db =
     (if \<not> co_include_payloads options then Some db
      else map_option (\<lambda>t. db\<lparr>db_payloads := t\<rparr>) (kv_clear (me_ids env) (db_payloads db)))"

definition clear_sessions :: "('s, 'r) mdbx_env \<Rightarrow> LogClearOptions \<Rightarrow> ('s, 'r) mdbx_db \<Rightarrow> ('s, 'r, 'cb) MdbxLogger
    \<Rightarrow> ('s, 'r) mdbx_db option \<times> ('s, 'r, 'cb) MdbxLogger" where
  "clear_sessions env options db s =
     (if \<not> co_include_sessions options then (Some db, s)
      else case kv_clear (me_ids env) (db_sessions db) of
        None \<Rightarrow> (None, s)
      | Some t \<Rightarrow>
          let (ident, s1) = make_unique_id env s; s2 = s1\<lparr>mb_session_id := ident\<rparr>
          in (case serialize_session (new_session env (mq_app_name (mb_config s))) of
                None \<Rightarrow> (None, s2)
              | Some bytes \<Rightarrow>
                  (map_option (\<lambda>t'. db\<lparr>db_sessions := t'\<rparr>) (kv_insert_or_assign (me_ids env) ident bytes t), s2)))"

text \<open>\<open>clear_logs\<close> after its \<open>wait()\<close>.\<close>

definition Mdbx_clear_logs :: "('s, 'r) mdbx_env \<Rightarrow> LogClearOptions \<Rightarrow> ('s, 'r, 'cb) MdbxLogger
    \<Rightarrow> LogClearResult \<times> ('s, 'r, 'cb) MdbxLogger" where
  "Mdbx_clear_logs env options s =
     (let failed = LogClearResult_init\<lparr>cl_ok := False, cl_status := Failed, cl_message := ''MdbxLogger clear error''\<rparr>
      in if \<not> me_begin env then (failed, s)
         else case clear_records env options (mb_db s) of
           (n, None) \<Rightarrow> (failed\<lparr>cl_cleared_records := n\<rparr>, s)
         | (n, Some db1) \<Rightarrow>
             (case clear_payloads env options db1 of
                None \<Rightarrow> (failed\<lparr>cl_cleared_records := n\<rparr>, s)
              | Some db2 \<Rightarrow>
                  (case clear_sessions env options db2 s of
                     (None, s1) \<Rightarrow> (failed\<lparr>cl_cleared_records := n\<rparr>, s1)
                   | (Some db3, s1) \<Rightarrow>
                       if \<not> me_commit env then (failed\<lparr>cl_cleared_records := n\<rparr>, s1)
                       else (LogClearResult_init\<lparr>cl_ok := True, cl_status := Cleared,
                               cl_cleared_records := n, cl_message := ''cleared''\<rparr>,
                             s1\<lparr>mb_db := db3, mb_next_sequence_by_timestamp := Map.empty,
                               mb_last_log_ts := 0, mb_last_log_mono_ts := 0\<rparr>))))"

section \<open>Logging\<close>

definition log_item :: "LogRecord \<Rightarrow> string \<Rightarrow> MdbxLogItem" where
  "log_item record message =
     \<lparr>mi_level = lr_log_level record, mi_timestamp_ms = lr_timestamp_ms record, mi_file = lr_file record,
      mi_function = lr_function record, mi_line = lr_line record, mi_message = message\<rparr>"

definition mark_last_log :: "int \<Rightarrow> int \<Rightarrow> ('s, 'r, 'cb) MdbxLogger \<Rightarrow> ('s, 'r, 'cb) MdbxLogger" where
  "mark_last_log mono_ms timestamp_ms s = s\<lparr>mb_last_log_ts := timestamp_ms, mb_last_log_mono_ts := mono_ms\<rparr>"

definition mb_drop :: "('s, 'r, 'cb) MdbxLogger \<Rightarrow> ('s, 'r, 'cb) MdbxLogger" where
  "mb_drop s = s\<lparr>mb_dropped := mb_dropped s + 1\<rparr>"

definition mb_push :: "MdbxLogItem \<Rightarrow> ('s, 'r, 'cb) MdbxLogger \<Rightarrow> ('s, 'r, 'cb) MdbxLogger" where
  "mb_push item s = s\<lparr>mb_queue := mb_queue s @ [item]\<rparr>"

text \<open>The events of a batch: completed when its transaction was committed, lost otherwise.\<close>

definition batch_events :: "bool \<Rightarrow> MdbxLogItem list \<Rightarrow> MdbxLogItem te_event list" where
  "batch_events committed batch = map (if committed then Finished else Evicted) batch"

text \<open>\<open>log\<close> up to the wait for space, and after it.\<close>

definition Mdbx_log :: "('s, 'r) mdbx_env \<Rightarrow> int \<Rightarrow> MdbxLogItem \<Rightarrow> ('s, 'r, 'cb) MdbxLogger
    \<Rightarrow> ('s, 'r, 'cb) MdbxLogger \<times> add_result \<times> MdbxLogItem te_event list" where
  "Mdbx_log env mono_ms item s =
     (if mb_stopping s then (mb_drop s, AddReturn, [Refused item])
      else let s1 = mark_last_log mono_ms (mi_timestamp_ms item) s; c = mb_config s
           in if \<not> mq_async c then
                let (committed, s2) = write_batch env [item] s1
                in (s2, AddReturn, Accepted item # batch_events committed [item])
              else if 0 < mq_max_queue_size c \<and> mq_max_queue_size c \<le> length (mb_queue s1) then
                if mq_drop_on_overflow c then (mb_drop s1, AddReturn, [Refused item])
                else (s1, AddSleep, [Slept item])
              else (mb_push item s1, AddPushed, [Accepted item]))"

definition Mdbx_log_resume :: "MdbxLogItem \<Rightarrow> ('s, 'r, 'cb) MdbxLogger
    \<Rightarrow> ('s, 'r, 'cb) MdbxLogger \<times> add_result \<times> MdbxLogItem te_event list" where
  "Mdbx_log_resume item s =
     (if \<not> (mb_stopping s \<or> mq_max_queue_size (mb_config s) = 0 \<or>
            length (mb_queue s) < mq_max_queue_size (mb_config s))
      then (s, AddSleep, [Slept item])
      else if mb_stopping s then (mb_drop s, AddReturn, [Refused item])
      else (mb_push item s, AddPushed, [Accepted item]))"

definition mdbx_wait_ready :: "('s, 'r, 'cb) MdbxLogger \<Rightarrow> bool" where
  "mdbx_wait_ready s = (\<not> mq_async (mb_config s) \<or> mb_queue s = [] \<and> mb_idle s)"

text \<open>\<open>shutdown\<close> up to the join of the worker, and after it.\<close>

definition mdbx_stop :: "('s, 'r, 'cb) MdbxLogger \<Rightarrow> ('s, 'r, 'cb) MdbxLogger" where
  "mdbx_stop s = (if mb_shutdown s then s else s\<lparr>mb_shutdown := True, mb_stopping := True\<rparr>)"

definition mdbx_end :: "('s, 'r) mdbx_env \<Rightarrow> ('s, 'r, 'cb) MdbxLogger \<Rightarrow> ('s, 'r, 'cb) MdbxLogger" where
  "mdbx_end env s =
     (case update_session_end env s of
        Inl e \<Rightarrow> s\<lparr>mb_failed_writes := mb_failed_writes s + 1\<rparr>
      | Inr s1 \<Rightarrow> s1)"

datatype mdbx_worker = MwWait | MwWrite "MdbxLogItem list" | MwExit

fun fill_batch :: "nat \<Rightarrow> 'a list \<Rightarrow> 'a list \<Rightarrow> 'a list \<times> 'a list" where
  "fill_batch n batch [] = (batch, [])"
| "fill_batch n batch (x # queue) =
     (if length batch < n then fill_batch n (batch @ [x]) queue else (batch, x # queue))"

text \<open>\<open>None\<close>: the wait has not ended, or ended by its timeout with nothing to do.\<close>

definition mdbx_worker_take :: "('s, 'r, 'cb) MdbxLogger \<Rightarrow> (('s, 'r, 'cb) MdbxLogger \<times> mdbx_worker) option" where
  "mdbx_worker_take s =
     (if mb_stopping s \<and> mb_queue s = [] then Some (s\<lparr>mb_idle := True\<rparr>, MwExit)
      else if mb_queue s = [] then None
      else case fill_batch (mq_max_batch_size (mb_config s)) [] (mb_queue s) of
        (batch, queue) \<Rightarrow> Some (s\<lparr>mb_idle := False, mb_queue := queue\<rparr>, MwWrite batch))"

section \<open>Parameters, level and callbacks\<close>

definition mdbx_counter_to_int64 :: "nat \<Rightarrow> int" where
  "mdbx_counter_to_int64 value = (if 2 ^ 63 - 1 < value then 2 ^ 63 - 1 else int value)"

definition mdbx_time_since_last_log :: "int \<Rightarrow> ('s, 'r, 'cb) MdbxLogger \<Rightarrow> int" where
  "mdbx_time_since_last_log now_mono s =
     (let last_mono = mb_last_log_mono_ts s
      in if last_mono \<le> 0 then 0 else if last_mono < now_mono then now_mono - last_mono else 0)"

definition Mdbx_get_int_param :: "int \<Rightarrow> LoggerParam \<Rightarrow> ('s, 'r, 'cb) MdbxLogger \<Rightarrow> int" where
  "Mdbx_get_int_param now_mono param s =
     (case param of
        LastLogTimestamp \<Rightarrow> mb_last_log_ts s
      | TimeSinceLastLog \<Rightarrow> mdbx_time_since_last_log now_mono s
      | DroppedLogCount \<Rightarrow> mdbx_counter_to_int64 (mb_dropped s)
      | FailedExportCount \<Rightarrow> mdbx_counter_to_int64 (mb_failed_writes s)
      | _ \<Rightarrow> 0)"

definition Mdbx_get_string_param :: "int \<Rightarrow> LoggerParam \<Rightarrow> ('s, 'r, 'cb) MdbxLogger \<Rightarrow> string" where
  "Mdbx_get_string_param now_mono param s =
     (case param of
        LastLogTimestamp \<Rightarrow> dec_int (mb_last_log_ts s)
      | TimeSinceLastLog \<Rightarrow> dec_int (mdbx_time_since_last_log now_mono s)
      | DroppedLogCount \<Rightarrow> dec_nat (mb_dropped s)
      | FailedExportCount \<Rightarrow> dec_nat (mb_failed_writes s)
      | _ \<Rightarrow> [])"

definition mdbx_add_callback :: "'cb \<Rightarrow> ('s, 'r, 'cb) MdbxLogger \<Rightarrow> nat \<times> ('s, 'r, 'cb) MdbxLogger" where
  "mdbx_add_callback callback s =
     (let ident = mb_next_callback_id s
      in (ident, s\<lparr>mb_next_callback_id := ident + 1, mb_callbacks := map_put ident callback (mb_callbacks s)\<rparr>))"

definition mdbx_remove_callback :: "nat \<Rightarrow> ('s, 'r, 'cb) MdbxLogger \<Rightarrow> bool \<times> ('s, 'r, 'cb) MdbxLogger" where
  "mdbx_remove_callback ident s =
     (map_of (mb_callbacks s) ident \<noteq> None, s\<lparr>mb_callbacks := map_erase ident (mb_callbacks s)\<rparr>)"

end
