(* ===== verification/MdbxProps.thy ===== *)
theory MdbxProps
  imports Mdbx Interfaces
begin

text \<open>
  What the MDBX backend guarantees of its store.  The tables of the containers
  library are assumed to behave as ordered maps whenever they do not throw
  (\<open>kv_ok\<close>); the record table then always holds, in key order, exactly the rows
  of the committed items, and a range query answers with those of the range,
  ordered by time and, within a millisecond, by the order they were written in.
\<close>

section \<open>What the containers library documents\<close>

text \<open>\<open>items\<close> gives the rows of a table in key order; an operation that returns has done its work.\<close>

definition kv_ok :: "('k::linorder, 't) kv \<Rightarrow> ('t \<Rightarrow> ('k \<times> string) list) \<Rightarrow> bool" where
  "kv_ok kv items =
     ((\<forall>t. map_inv (items t)) \<and>
      (\<forall>k t v. kv_find kv k t = Some v \<longrightarrow> v = map_of (items t) k) \<and>
      (\<forall>k t b. kv_contains kv k t = Some b \<longrightarrow> b = (map_of (items t) k \<noteq> None)) \<and>
      (\<forall>k v t b t'. kv_insert kv k v t = Some (b, t') \<longrightarrow>
         b = (map_of (items t) k = None) \<and> items t' = (if b then map_put k v (items t) else items t)) \<and>
      (\<forall>k v t t'. kv_insert_or_assign kv k v t = Some t' \<longrightarrow> items t' = map_put k v (items t)) \<and>
      (\<forall>a b t rows. kv_range kv a b t = Some rows \<longrightarrow> rows = filter (\<lambda>p. a \<le> fst p \<and> fst p \<le> b) (items t)) \<and>
      (\<forall>t n. kv_count kv t = Some n \<longrightarrow> n = length (items t)) \<and>
      (\<forall>t t'. kv_clear kv t = Some t' \<longrightarrow> items t' = []))"

definition mdbx_env_ok :: "codec \<Rightarrow> ('s \<Rightarrow> (u64 \<times> string) list) \<Rightarrow> ('r \<Rightarrow> (string \<times> string) list) \<Rightarrow> ('s, 'r) mdbx_env \<Rightarrow> bool" where
  "mdbx_env_ok cd ids keys env =
     (kv_ok (me_ids env) ids \<and> kv_ok (me_keys env) keys \<and> me_codec env = cd \<and> codec_ok cd)"

lemma kv_okD:
  assumes "kv_ok kv items"
  shows "map_inv (items t)"
    and "kv_find kv k t = Some v \<Longrightarrow> v = map_of (items t) k"
    and "kv_contains kv k t = Some b \<Longrightarrow> b = (map_of (items t) k \<noteq> None)"
    and "kv_insert kv k w t = Some (b, t') \<Longrightarrow>
      b = (map_of (items t) k = None) \<and> items t' = (if b then map_put k w (items t) else items t)"
    and "kv_insert_or_assign kv k w t = Some t' \<Longrightarrow> items t' = map_put k w (items t)"
    and "kv_range kv x y t = Some rows \<Longrightarrow> rows = filter (\<lambda>p. x \<le> fst p \<and> fst p \<le> y) (items t)"
    and "kv_count kv t = Some n \<Longrightarrow> n = length (items t)"
    and "kv_clear kv t = Some t' \<Longrightarrow> items t' = []"
  using assms unfolding kv_ok_def by - ((elim conjE)?, metis)+

section \<open>Stable sorting by time\<close>

text \<open>Records of one millisecond are numbered upwards in the order they were written.\<close>

definition numbered :: "MdbxRecord list \<Rightarrow> bool" where
  "numbered rs = sorted_wrt (\<lambda>r r'. rc_timestamp_ms r = rc_timestamp_ms r' \<longrightarrow> rc_sequence r < rc_sequence r') rs"

definition key_of :: "MdbxRecord \<Rightarrow> string" where
  "key_of r = make_mdbx_record_key (rc_timestamp_ms r) (rc_sequence r)"

definition table_rows :: "MdbxRecord list \<Rightarrow> (string \<times> string) list" where
  "table_rows rs = map (\<lambda>r. (key_of r, the (serialize_record r))) (sort_key rc_timestamp_ms rs)"

lemma key_of_less:
  "record_ok r \<Longrightarrow> record_ok r' \<Longrightarrow> key_of r < key_of r' \<longleftrightarrow> rc_timestamp_ms r < rc_timestamp_ms r' \<or>
     rc_timestamp_ms r = rc_timestamp_ms r' \<and> rc_sequence r < rc_sequence r'"
  by (simp add: key_of_def make_mdbx_record_key_less record_ok_def)

lemma insort_before_equals:
  assumes "sorted_wrt (\<lambda>r r'. f r < f r' \<or> f r = f r' \<and> lt r r') ys" "\<forall>y \<in> set ys. f x = f y \<longrightarrow> lt x y"
  shows "sorted_wrt (\<lambda>r r'. f r < f r' \<or> f r = f r' \<and> lt r r') (insort_key (f :: 'a \<Rightarrow> 'b::linorder) x ys)"
  using assms by (induction ys) (auto simp: set_insort_key)

lemma stable_sort_key:
  assumes "sorted_wrt (\<lambda>r r'. f r = f r' \<longrightarrow> lt r r') xs"
  shows "sorted_wrt (\<lambda>r r'. f r < f r' \<or> f r = f r' \<and> lt r r') (sort_key (f :: 'a \<Rightarrow> 'b::linorder) xs)"
  using assms by (induction xs) (simp_all add: insort_before_equals)

lemma table_rows_inv:
  assumes "numbered rs" "\<forall>r \<in> set rs. record_ok r"
  shows "map_inv (table_rows rs)"
proof -
  have "sorted_wrt (\<lambda>r r'. key_of r < key_of r') (sort_key rc_timestamp_ms rs)"
    using assms(2) by (intro sorted_wrt_mono_rel [OF _ stable_sort_key [OF assms(1) [unfolded numbered_def]]])
      (simp add: key_of_less)
  then show ?thesis
    by (simp add: map_inv_def table_rows_def sorted_wrt_map comp_def)
qed

text \<open>A strictly sorted association list is determined by its entries.\<close>

lemma map_inv_unique: "map_inv a \<Longrightarrow> map_inv b \<Longrightarrow> set a = set b \<Longrightarrow> a = b"
  by (rule map_sorted_distinct_set_unique [of fst])
    (auto simp: map_inv_def strict_sorted_iff distinct_map)

lemma set_map_put: "map_of m k = None \<Longrightarrow> set (map_put k v m) = insert (k, v) (set m)"
  by (induction m) (auto split: if_splits)

lemma table_rows_snoc:
  assumes "numbered (rs @ [r])" "\<forall>x \<in> set (rs @ [r]). record_ok x"
    and "map_of (table_rows rs) (key_of r) = None"
  shows "map_put (key_of r) (the (serialize_record r)) (table_rows rs) = table_rows (rs @ [r])"
proof (rule map_inv_unique)
  have "numbered rs" using assms(1) by (simp add: numbered_def sorted_wrt_append)
  then show "map_inv (map_put (key_of r) (the (serialize_record r)) (table_rows rs))"
    using assms(2) by (intro map_put_inv table_rows_inv) simp_all
  show "map_inv (table_rows (rs @ [r]))" using assms by (intro table_rows_inv)
  show "set (map_put (key_of r) (the (serialize_record r)) (table_rows rs)) = set (table_rows (rs @ [r]))"
    using assms(3) by (auto simp: set_map_put table_rows_def)
qed

section \<open>Stored items\<close>

text \<open>The text a payload row stands for.\<close>

definition payload_text :: "codec \<Rightarrow> MdbxPayload \<Rightarrow> string option" where
  "payload_text cd p =
     (case pl_compression p of
        CompressionNone \<Rightarrow> Some (pl_data p)
      | CompressionGzip \<Rightarrow> decompress_string_gzip cd (pl_data p)
      | CompressionZstd \<Rightarrow> decompress_string_zstd cd (pl_data p))"

definition holds_message :: "codec \<Rightarrow> (u64 \<times> string) list \<Rightarrow> u64 \<Rightarrow> string \<Rightarrow> bool" where
  "holds_message cd rows ident msg =
     (ident \<noteq> 0 \<and> (\<exists>bytes p. map_of rows ident = Some bytes \<and> deserialize_payload bytes = Inr p \<and>
        payload_text cd p = Some msg))"

text \<open>
  The record of an item: its fields are those of the item, and the message is
  there in full, inline or, for a spilled one, as a preview with a payload row.
\<close>

definition stored_as :: "codec \<Rightarrow> Mdbx_Config \<Rightarrow> (u64 \<times> string) list \<Rightarrow> MdbxLogItem \<Rightarrow> MdbxRecord \<Rightarrow> bool" where
  "stored_as cd c rows item r =
     (record_ok r \<and> rc_timestamp_ms r = mi_timestamp_ms item \<and>
      rc_level r = word_of_int (level_int (mi_level item)) \<and> rc_file r = mi_file item \<and>
      rc_function r = mi_function item \<and> rc_line r = mi_line item \<and>
      (if should_spill_payload c (mi_message item)
       then rc_message r = make_payload_preview c (mi_message item) \<and>
            holds_message cd rows (rc_payload_id r) (mi_message item)
       else rc_message r = mi_message item \<and> rc_payload_id r = 0))"

definition item_ok :: "MdbxLogItem \<Rightarrow> bool" where
  "item_ok item = (int64_range (mi_timestamp_ms item) \<and> int32_range (mi_line item))"

text \<open>The next sequence numbers are beyond those in use, up to the last one.\<close>

definition seq_bound :: "(int \<rightharpoonup> u32) \<Rightarrow> MdbxRecord list \<Rightarrow> bool" where
  "seq_bound m rs =
     (\<forall>r \<in> set rs. \<exists>n. m (rc_timestamp_ms r) = Some n \<and> (rc_sequence r < n \<or> n = max_u32))"

definition seq_mono :: "(int \<rightharpoonup> u32) \<Rightarrow> (int \<rightharpoonup> u32) \<Rightarrow> bool" where
  "seq_mono m m' = (\<forall>t n. m t = Some n \<longrightarrow> (\<exists>n'. m' t = Some n' \<and> n \<le> n'))"

lemma seq_mono_refl [simp]: "seq_mono m m"
  by (simp add: seq_mono_def)

lemma seq_mono_trans: "seq_mono a b \<Longrightarrow> seq_mono b c \<Longrightarrow> seq_mono a c"
  unfolding seq_mono_def by (meson order_trans)

lemma u32_le_max: "(n :: u32) \<le> max_u32"
  by (simp add: max_u32_def)

lemma seq_bound_mono: "seq_bound m rs \<Longrightarrow> seq_mono m m' \<Longrightarrow> seq_bound m' rs"
  unfolding seq_bound_def
proof (intro ballI)
  fix r assume bound: "\<forall>r \<in> set rs. \<exists>n. m (rc_timestamp_ms r) = Some n \<and> (rc_sequence r < n \<or> n = max_u32)"
    and "seq_mono m m'" "r \<in> set rs"
  then obtain n n' where "m (rc_timestamp_ms r) = Some n" "rc_sequence r < n \<or> n = max_u32"
    "m' (rc_timestamp_ms r) = Some n'" "n \<le> n'"
    unfolding seq_mono_def by blast
  then show "\<exists>n. m' (rc_timestamp_ms r) = Some n \<and> (rc_sequence r < n \<or> n = max_u32)"
    using u32_le_max [of n'] by (auto intro: order_antisym)
qed

definition store_inv :: "codec \<Rightarrow> ('s \<Rightarrow> (u64 \<times> string) list) \<Rightarrow> ('r \<Rightarrow> (string \<times> string) list)
    \<Rightarrow> MdbxLogItem list \<Rightarrow> MdbxRecord list \<Rightarrow> ('s, 'r, 'cb) MdbxLogger \<Rightarrow> bool" where
  "store_inv cd ids keys items rs s =
     (list_all2 (stored_as cd (mb_config s) (ids (db_payloads (mb_db s)))) items rs \<and>
      keys (db_records (mb_db s)) = table_rows rs \<and> numbered rs \<and>
      seq_bound (mb_next_sequence_by_timestamp s) rs)"

lemma store_inv_ok: "store_inv cd ids keys items rs s \<Longrightarrow> r \<in> set rs \<Longrightarrow> record_ok r"
  unfolding store_inv_def stored_as_def list_all2_conv_all_nth in_set_conv_nth by metis

section \<open>Sequence numbers\<close>

lemma key_search_free: "key_search present c = Inr q \<Longrightarrow> present q = Some False"
proof (induction present c rule: key_search.induct)
  case (1 present c)
  note search = "1.prems" [unfolded key_search.simps [of present c]]
  show ?case
  proof (cases "present c = Some True \<and> c \<noteq> max_u32")
    case True
    with search "1.IH" [of True] show ?thesis by simp
  next
    case False
    with search show ?thesis by (simp split: option.splits bool.splits if_splits)
  qed
qed

text \<open>The free number found is above every number used at that time.\<close>

lemma next_record_key_fresh:
  assumes "kv_ok (me_keys env) keys" "keys (db_records (mb_db s)) = table_rows rs"
    and "seq_bound (mb_next_sequence_by_timestamp s) rs" "\<forall>r \<in> set rs. record_ok r" "int64_range ts"
    and "next_record_key env ts s = (Inr q, s')"
  shows "map_of (keys (db_records (mb_db s))) (make_mdbx_record_key ts q) = None"
    and "\<forall>r \<in> set rs. rc_timestamp_ms r = ts \<longrightarrow> rc_sequence r < q"
    and "\<exists>n. (q < n \<or> n = max_u32) \<and> start_sequence ts s \<le> n \<and>
      s' = s\<lparr>mb_next_sequence_by_timestamp := (mb_next_sequence_by_timestamp s)(ts \<mapsto> n)\<rparr>"
proof -
  let ?present = "\<lambda>q. kv_contains (me_keys env) (make_mdbx_record_key ts q) (db_records (mb_db s))"
  from assms(6) have found: "key_search ?present (start_sequence ts s) = Inr q"
    and s': "s' = s\<lparr>mb_next_sequence_by_timestamp := (mb_next_sequence_by_timestamp s)
      (ts \<mapsto> (if q \<noteq> max_u32 then q + 1 else q))\<rparr>"
    by (auto simp: next_record_key_def Let_def split: sum.splits)
  from key_search_free [OF found] kv_okD(3) [OF assms(1)]
  show free: "map_of (keys (db_records (mb_db s))) (make_mdbx_record_key ts q) = None" by blast
  have ge: "start_sequence ts s \<le> q" using key_search_ge [OF found] by (simp add: word_le_nat_alt)
  show "\<forall>r \<in> set rs. rc_timestamp_ms r = ts \<longrightarrow> rc_sequence r < q"
  proof (intro ballI impI)
    fix r assume r: "r \<in> set rs" "rc_timestamp_ms r = ts"
    with assms(3) obtain n where n: "mb_next_sequence_by_timestamp s ts = Some n" "rc_sequence r < n \<or> n = max_u32"
      unfolding seq_bound_def by blast
    have "rc_sequence r \<noteq> q"
    proof
      assume "rc_sequence r = q"
      with r have "(make_mdbx_record_key ts q, the (serialize_record r)) \<in> set (table_rows rs)"
        by (auto simp: table_rows_def key_of_def)
      with free assms(2) show False by (auto simp: map_of_eq_None_iff image_iff)
    qed
    moreover from n ge have "rc_sequence r < q \<or> q = max_u32"
      by (auto simp: start_sequence_def intro: order_antisym u32_le_max)
    ultimately show "rc_sequence r < q" using u32_le_max [of "rc_sequence r"] by auto
  qed
  have "q \<le> q + 1 \<and> q < q + 1" if "q \<noteq> max_u32"
    using u32_succ [OF that] by (simp add: word_le_nat_alt word_less_nat_alt)
  with ge s' show "\<exists>n. (q < n \<or> n = max_u32) \<and> start_sequence ts s \<le> n \<and>
      s' = s\<lparr>mb_next_sequence_by_timestamp := (mb_next_sequence_by_timestamp s)(ts \<mapsto> n)\<rparr>"
    by (intro exI [of _ "if q \<noteq> max_u32 then q + 1 else q"]) auto
qed

lemma seq_mono_upd: "(case m ts of None \<Rightarrow> 0 | Some q \<Rightarrow> q) \<le> n \<Longrightarrow> seq_mono m (m(ts \<mapsto> n))"
  by (auto simp: seq_mono_def split: option.splits)

section \<open>Writing\<close>

text \<open>What no write changes.\<close>

definition same_frame :: "('s, 'r, 'cb) MdbxLogger \<Rightarrow> ('s, 'r, 'cb) MdbxLogger \<Rightarrow> bool" where
  "same_frame s s' =
     (mb_config s' = mb_config s \<and> mb_queue s' = mb_queue s \<and> mb_stopping s' = mb_stopping s \<and>
      mb_idle s' = mb_idle s \<and> mb_dropped s' = mb_dropped s \<and> mb_failed_writes s \<le> mb_failed_writes s' \<and>
      seq_mono (mb_next_sequence_by_timestamp s) (mb_next_sequence_by_timestamp s'))"

lemma same_frame_refl [simp]: "same_frame s s"
  by (simp add: same_frame_def)

lemma same_frame_trans: "same_frame a b \<Longrightarrow> same_frame b c \<Longrightarrow> same_frame a c"
  by (auto simp: same_frame_def intro: seq_mono_trans)

lemma write_string_Some: "write_string x = Some y \<Longrightarrow> fits_u32 x"
  by (auto simp: write_string_def fits_u32_def split: if_splits)

lemma serialize_record_ok:
  "serialize_record r = Some bytes \<Longrightarrow> int64_range (rc_timestamp_ms r) \<Longrightarrow> int32_range (rc_line r) \<Longrightarrow> record_ok r"
  by (auto simp: serialize_record_def record_ok_def split: option.splits dest: write_string_Some)

lemma insert_record_spec:
  assumes env: "kv_ok (me_keys env) keys" and inv: "store_inv cd ids keys items rs s"
    and ranges: "int64_range (rc_timestamp_ms r)" "int32_range (rc_line r)"
    and run: "insert_record env r s = (res, s')"
  shows "same_frame s s' \<and> db_payloads (mb_db s') = db_payloads (mb_db s) \<and>
    (\<forall>r'. res = Inr r' \<longrightarrow> r' = r\<lparr>rc_sequence := rc_sequence r'\<rparr> \<and> record_ok r' \<and>
       keys (db_records (mb_db s')) = table_rows (rs @ [r']) \<and> numbered (rs @ [r']) \<and>
       seq_bound (mb_next_sequence_by_timestamp s') (rs @ [r']))"
proof -
  note inv' = inv [unfolded store_inv_def]
  have ok: "\<forall>r \<in> set rs. record_ok r" using store_inv_ok [OF inv] by blast
  obtain key s1 where next_key: "next_record_key env (rc_timestamp_ms r) s = (key, s1)" by fastforce
  note run' = run [unfolded insert_record.simps [of env r s] next_key prod.case Let_def]
  show ?thesis
  proof (cases key)
    case (Inl e)
    with next_key have "s1 = s" by (auto simp: next_record_key_def Let_def split: sum.splits)
    with Inl run' show ?thesis by auto
  next
    case (Inr q)
    note fresh = next_record_key_fresh [OF env _ _ ok ranges(1) next_key [unfolded Inr], of]
    have free: "map_of (keys (db_records (mb_db s))) (make_mdbx_record_key (rc_timestamp_ms r) q) = None"
      and above: "\<forall>x \<in> set rs. rc_timestamp_ms x = rc_timestamp_ms r \<longrightarrow> rc_sequence x < q"
      using fresh(1,2) inv' by blast+
    obtain n where n: "q < n \<or> n = max_u32" "start_sequence (rc_timestamp_ms r) s \<le> n"
      and s1: "s1 = s\<lparr>mb_next_sequence_by_timestamp := (mb_next_sequence_by_timestamp s)(rc_timestamp_ms r \<mapsto> n)\<rparr>"
      using fresh(3) inv' by blast
    have frame: "same_frame s s1"
      using n(2) by (simp add: s1 same_frame_def seq_mono_upd start_sequence_def)
    let ?r = "r\<lparr>rc_sequence := q\<rparr>"
    show ?thesis
    proof (cases "serialize_record ?r")
      case None
      with Inr run' frame s1 show ?thesis by auto
    next
      case (Some bytes)
      show ?thesis
      proof (cases "kv_insert (me_keys env) (make_mdbx_record_key (rc_timestamp_ms r) q) bytes (db_records (mb_db s1))")
        case None
        with Inr Some run' frame s1 show ?thesis by auto
      next
        case (Some ins)
        obtain inserted t where ins: "ins = (inserted, t)" by fastforce
        with Some kv_okD(4) [OF env] free s1
        have t: "inserted" "keys t = map_put (key_of ?r) bytes (keys (db_records (mb_db s)))"
          by (fastforce simp: key_of_def)+
        have res: "res = Inr ?r" "s' = s1\<lparr>mb_db := (mb_db s1)\<lparr>db_records := t\<rparr>\<rparr>"
          using Inr \<open>serialize_record ?r = Some bytes\<close> Some ins t(1) run' by auto
        have rok: "record_ok ?r" using serialize_record_ok [OF \<open>serialize_record ?r = Some bytes\<close>] ranges by simp
        have num: "numbered (rs @ [?r])"
          using inv' above by (auto simp: numbered_def sorted_wrt_append)
        have "keys t = table_rows (rs @ [?r])"
          unfolding t(2) using table_rows_snoc [OF num] ok rok free inv' \<open>serialize_record ?r = Some bytes\<close>
          by (simp add: key_of_def)
        moreover have "seq_bound (mb_next_sequence_by_timestamp s1) (rs @ [?r])"
          using seq_bound_mono [of "mb_next_sequence_by_timestamp s" rs "mb_next_sequence_by_timestamp s1"] inv' frame n(1)
          by (auto simp: seq_bound_def same_frame_def s1)
        ultimately show ?thesis
          using res rok num frame by (simp add: same_frame_def) (simp add: s1)
      qed
    qed
  qed
qed

lemma make_unique_id_spec:
  "make_unique_id env s = (ident, s') \<Longrightarrow> ident \<noteq> 0 \<and> s' = s\<lparr>mb_ids := mb_ids s + 1\<rparr>"
proof -
  have "(n AND 0xFFFF) + 1 \<noteq> 0" for n :: u64
  proof
    assume "(n AND 0xFFFF) + 1 = 0"
    then have "n AND 0xFFFF = - 1" by (simp only: eq_neg_iff_add_eq_0)
    then have "bit (n AND 0xFFFF) 63 = bit (- 1 :: u64) 63" by (simp only:)
    then show False by (simp add: bit_simps)
  qed
  then show "make_unique_id env s = (ident, s') \<Longrightarrow> ident \<noteq> 0 \<and> s' = s\<lparr>mb_ids := mb_ids s + 1\<rparr>"
    by (auto simp: make_unique_id_def Let_def split: if_splits)
qed

lemma allocate_payload_id_spec:
  assumes "kv_ok (me_ids env) ids" "allocate_payload_id n env s = (res, s')"
  shows "(\<exists>k. s' = s\<lparr>mb_ids := k\<rparr>) \<and>
    (\<forall>ident. res = Inr ident \<longrightarrow> ident \<noteq> 0 \<and> map_of (ids (db_payloads (mb_db s))) ident = None)"
  using assms
proof (induction n env s rule: allocate_payload_id.induct)
  case (1 env s)
  then show ?case by (auto intro: exI [of _ "mb_ids s'"])
next
  case (2 n env s)
  obtain ident s1 where new: "make_unique_id env s = (ident, s1)" by fastforce
  from make_unique_id_spec [OF new] have s1: "ident \<noteq> 0" "s1 = s\<lparr>mb_ids := mb_ids s + 1\<rparr>" by auto
  show ?case
  proof (cases "kv_contains (me_ids env) ident (db_payloads (mb_db s1))")
    case None
    with 2(3) new s1 show ?thesis by auto
  next
    case (Some present)
    show ?thesis
    proof (cases present)
      case True
      with Some 2(3) new have "allocate_payload_id n env s1 = (res, s')" by simp
      with 2(1) [OF _ _ Some _ 2(2), of "(ident, s1)"] new True s1 show ?thesis by auto
    next
      case False
      with Some 2(3) new s1 kv_okD(3) [OF 2(2) Some] show ?thesis by auto
    qed
  qed
qed

lemma fill_payload_spec:
  assumes "codec_ok cd" "fill_payload cd c msg ident = (p, failed)"
  shows "payload_text cd p = Some msg"
  using assms
  by (cases "mq_payload_compression c")
    (auto simp: fill_payload_def payload_text_def Let_def codec_ok_def compress_string_gzip_def
      compress_string_zstd_def decompress_string_gzip_def decompress_string_zstd_def split: option.splits)

lemma serialize_payload_ok: "serialize_payload p = Some bytes \<Longrightarrow> payload_ok p"
  by (auto simp: serialize_payload_def payload_ok_def split: option.splits dest: write_string_Some)

text \<open>Rows are only added: what was there stays readable.\<close>

definition rows_kept :: "('k \<times> 'v) list \<Rightarrow> ('k \<times> 'v) list \<Rightarrow> bool" where
  "rows_kept a b = (map_of a \<subseteq>\<^sub>m map_of b)"

lemma holds_message_kept: "holds_message cd a ident msg \<Longrightarrow> rows_kept a b \<Longrightarrow> holds_message cd b ident msg"
  unfolding holds_message_def rows_kept_def map_le_def by (metis domI)

lemma stored_as_kept: "stored_as cd c a item r \<Longrightarrow> rows_kept a b \<Longrightarrow> stored_as cd c b item r"
  unfolding stored_as_def by (auto dest: holds_message_kept split: if_splits)

lemma store_payload_spec:
  assumes env: "mdbx_env_ok cd ids keys env" and run: "store_payload env msg s = (res, s')"
  shows "same_frame s s' \<and> db_records (mb_db s') = db_records (mb_db s) \<and>
    mb_next_sequence_by_timestamp s' = mb_next_sequence_by_timestamp s \<and>
    rows_kept (ids (db_payloads (mb_db s))) (ids (db_payloads (mb_db s'))) \<and>
    (\<forall>ident. res = Inr ident \<longrightarrow> holds_message cd (ids (db_payloads (mb_db s'))) ident msg)"
proof -
  from env have kv: "kv_ok (me_ids env) ids" and cd: "me_codec env = cd" "codec_ok cd"
    by (simp_all add: mdbx_env_ok_def)
  obtain alloc s1 where alloc: "allocate_payload_id 1024 env s = (alloc, s1)" by fastforce
  note fresh = allocate_payload_id_spec [OF kv alloc]
  from fresh obtain k where s1: "s1 = s\<lparr>mb_ids := k\<rparr>" by blast
  note run' = run [unfolded store_payload_def alloc prod.case]
  show ?thesis
  proof (cases alloc)
    case (Inl e)
    with run' s1 show ?thesis by (auto simp: same_frame_def rows_kept_def)
  next
    case (Inr ident)
    obtain p failed where fill: "fill_payload (me_codec env) (mb_config s1) msg ident = (p, failed)" by fastforce
    define s2 where "s2 = (if failed then s1\<lparr>mb_failed_writes := mb_failed_writes s1 + 1\<rparr> else s1)"
    have frame: "same_frame s s2" "mb_db s2 = mb_db s"
      "mb_next_sequence_by_timestamp s2 = mb_next_sequence_by_timestamp s"
      by (simp_all add: s2_def s1 same_frame_def)
    note run'' = run' [unfolded Inr sum.case fill prod.case Let_def s2_def [symmetric]]
    show ?thesis
    proof (cases "Option.bind (serialize_payload p) (\<lambda>bytes. kv_insert (me_ids env) ident bytes (db_payloads (mb_db s2)))")
      case None
      with run'' frame show ?thesis
        by (auto simp: rows_kept_def split: option.splits)
    next
      case (Some ins)
      then obtain bytes inserted t where ser: "serialize_payload p = Some bytes"
        and ins: "kv_insert (me_ids env) ident bytes (db_payloads (mb_db s2)) = Some (inserted, t)"
        by (cases "serialize_payload p"; cases ins) auto
      have s': "res = Inr ident" "s' = s2\<lparr>mb_db := (mb_db s2)\<lparr>db_payloads := t\<rparr>\<rparr>"
        using run'' ser ins by auto
      have id: "ident \<noteq> 0" "map_of (ids (db_payloads (mb_db s))) ident = None" using fresh Inr by auto
      have t: "ids t = map_put ident bytes (ids (db_payloads (mb_db s)))"
        using kv_okD(4) [OF kv ins] id(2) frame(2) by simp
      have "deserialize_payload bytes = Inr p"
        using payload_format.decode [OF serialize_payload_ok [OF ser] ser] by (simp add: deserialize_payload_def)
      then have "holds_message cd (ids t) ident msg"
        using fill_payload_spec [OF cd(2)] fill cd(1) id(1) by (auto simp: holds_message_def t)
      moreover have "rows_kept (ids (db_payloads (mb_db s))) (ids t)"
        using id(2) by (auto simp: rows_kept_def t map_le_def)
      ultimately show ?thesis using s' frame by (simp add: same_frame_def)
    qed
  qed
qed

lemma store_inv_payloads:
  assumes "store_inv cd ids keys items rs s" "mb_config s' = mb_config s"
    and "db_records (mb_db s') = db_records (mb_db s)"
    and "mb_next_sequence_by_timestamp s' = mb_next_sequence_by_timestamp s"
    and "rows_kept (ids (db_payloads (mb_db s))) (ids (db_payloads (mb_db s')))"
  shows "store_inv cd ids keys items rs s'"
  using assms by (auto simp: store_inv_def elim!: list_all2_mono intro: stored_as_kept)

lemma store_inv_snoc:
  assumes "store_inv cd ids keys items rs s" "same_frame s s'" "db_payloads (mb_db s') = db_payloads (mb_db s)"
    and "stored_as cd (mb_config s) (ids (db_payloads (mb_db s))) item r"
    and "keys (db_records (mb_db s')) = table_rows (rs @ [r])" "numbered (rs @ [r])"
    and "seq_bound (mb_next_sequence_by_timestamp s') (rs @ [r])"
  shows "store_inv cd ids keys (items @ [item]) (rs @ [r]) s'"
  using assms by (auto simp: store_inv_def same_frame_def intro!: list_all2_appendI)

lemma insert_stored:
  assumes kv: "kv_ok (me_keys env) keys" and inv: "store_inv cd ids keys items rs s"
    and ranges: "int64_range (rc_timestamp_ms r)" "int32_range (rc_line r)"
    and run: "insert_record env r s = (res, s')"
    and stored: "\<And>q. record_ok (r\<lparr>rc_sequence := q\<rparr>) \<Longrightarrow>
      stored_as cd (mb_config s) (ids (db_payloads (mb_db s))) item (r\<lparr>rc_sequence := q\<rparr>)"
  shows "same_frame s s' \<and> (\<forall>r'. res = Inr r' \<longrightarrow> store_inv cd ids keys (items @ [item]) (rs @ [r']) s')"
proof (intro conjI allI impI)
  note spec = insert_record_spec [OF kv inv ranges run]
  show frame: "same_frame s s'" using spec by blast
  fix r' assume "res = Inr r'"
  with spec have r': "r' = r\<lparr>rc_sequence := rc_sequence r'\<rparr>" "record_ok r'"
    and new: "keys (db_records (mb_db s')) = table_rows (rs @ [r'])" "numbered (rs @ [r'])"
      "seq_bound (mb_next_sequence_by_timestamp s') (rs @ [r'])" by blast+
  have "stored_as cd (mb_config s) (ids (db_payloads (mb_db s))) item r'"
    using stored [of "rc_sequence r'"] r' by metis
  from store_inv_snoc [OF inv frame _ this new] spec
  show "store_inv cd ids keys (items @ [item]) (rs @ [r']) s'" by blast
qed

lemma write_item_spec:
  assumes env: "mdbx_env_ok cd ids keys env" and inv: "store_inv cd ids keys items rs s"
    and ok: "item_ok item" and run: "write_item env item s = (res, s')"
  shows "same_frame s s' \<and> (\<forall>r. res = Inr r \<longrightarrow> store_inv cd ids keys (items @ [item]) (rs @ [r]) s')"
proof -
  from env have kv: "kv_ok (me_keys env) keys" by (simp add: mdbx_env_ok_def)
  let ?c = "mb_config s" and ?r = "item_record item (mb_session_id s)"
  have ranges: "int64_range (rc_timestamp_ms ?r)" "int32_range (rc_line ?r)"
    using ok by (simp_all add: item_ok_def item_record_def)
  note run' = run [unfolded write_item_def Let_def]
  show ?thesis
  proof (cases "should_spill_payload ?c (mi_message item)")
    case False
    with run' have "insert_record env ?r s = (res, s')" by simp
    then show ?thesis
      by (rule insert_stored [OF kv inv ranges]) (use False in \<open>simp add: stored_as_def item_record_def\<close>)
  next
    case True
    obtain p s1 where store: "store_payload env (mi_message item) s = (p, s1)" by fastforce
    note stored = store_payload_spec [OF env store]
    then have frame: "same_frame s s1" by blast
    show ?thesis
    proof (cases p)
      case (Inl e)
      with True run' store have "s' = s1" "res = Inl e" by simp_all
      with frame show ?thesis by simp
    next
      case (Inr ident)
      let ?r1 = "?r\<lparr>rc_payload_id := ident, rc_message := make_payload_preview ?c (mi_message item)\<rparr>"
      from True Inr run' store have ins: "insert_record env ?r1 s1 = (res, s')" by simp
      have c: "mb_config s1 = ?c" using frame by (simp add: same_frame_def)
      have inv1: "store_inv cd ids keys items rs s1"
        using stored by (intro store_inv_payloads [OF inv c]) blast+
      have "holds_message cd (ids (db_payloads (mb_db s1))) ident (mi_message item)" using stored Inr by blast
      then have "same_frame s1 s' \<and> (\<forall>r. res = Inr r \<longrightarrow> store_inv cd ids keys (items @ [item]) (rs @ [r]) s')"
        using ranges True c
        by (intro insert_stored [OF kv inv1 _ _ ins]) (simp_all add: stored_as_def item_record_def)
      with frame show ?thesis using same_frame_trans by blast
    qed
  qed
qed

lemma write_items_spec:
  assumes "mdbx_env_ok cd ids keys env" "store_inv cd ids keys items rs s" "\<forall>x \<in> set batch. item_ok x"
    and "write_items env batch s = (res, s')"
  shows "same_frame s s' \<and> (\<forall>rs'. res = Inr rs' \<longrightarrow> store_inv cd ids keys (items @ batch) (rs @ rs') s')"
  using assms
proof (induction batch arbitrary: s items rs res s')
  case Nil
  then show ?case by auto
next
  case (Cons item batch)
  obtain r s1 where item: "write_item env item s = (r, s1)" by fastforce
  note spec = write_item_spec [OF Cons.prems(1,2) _ item]
  show ?case
  proof (cases r)
    case (Inl e)
    with Cons.prems item spec show ?thesis by auto
  next
    case (Inr r1)
    obtain res2 s2 where rest: "write_items env batch s1 = (res2, s2)" by fastforce
    have inv1: "store_inv cd ids keys (items @ [item]) (rs @ [r1]) s1" "same_frame s s1"
      using spec Inr Cons.prems(3) by auto
    note IH = Cons.IH [OF Cons.prems(1) inv1(1) _ rest]
    have "s' = s2" "res = (case res2 of Inl e \<Rightarrow> Inl e | Inr rs2 \<Rightarrow> Inr (r1 # rs2))"
      using Cons.prems(4) item Inr rest by (auto split: sum.splits)
    with IH Cons.prems(3) same_frame_trans [OF inv1(2)] show ?thesis by (auto split: sum.splits)
  qed
qed

lemma store_inv_same:
  assumes "store_inv cd ids keys items rs s" "mb_db s' = mb_db s" "mb_config s' = mb_config s"
    and "seq_mono (mb_next_sequence_by_timestamp s) (mb_next_sequence_by_timestamp s')"
  shows "store_inv cd ids keys items rs s'"
  using assms by (auto simp: store_inv_def intro: seq_bound_mono)

lemma write_failed_spec:
  assumes "store_inv cd ids keys items rs s" "same_frame s s1"
  shows "same_frame s (write_failed (mb_db s) s1) \<and> 0 < mb_failed_writes (write_failed (mb_db s) s1) \<and>
    store_inv cd ids keys items rs (write_failed (mb_db s) s1)"
  using assms(2) store_inv_same [OF assms(1), of "write_failed (mb_db s) s1"]
  by (simp add: write_failed_def same_frame_def)

lemma mdbx_notify_spec:
  assumes "store_inv cd ids keys items rs s1" "same_frame s s1"
  shows "same_frame s (mdbx_notify sns s1) \<and> store_inv cd ids keys items rs (mdbx_notify sns s1)"
  using assms(2) store_inv_same [OF assms(1), of "mdbx_notify sns s1"]
  by (simp add: mdbx_notify_def same_frame_def)

lemma write_batch_spec:
  assumes env: "mdbx_env_ok cd ids keys env" and inv: "store_inv cd ids keys items rs s"
    and ok: "\<forall>x \<in> set batch. item_ok x" and run: "write_batch env batch s = (committed, s')"
  shows "same_frame s s' \<and> (committed \<or> 0 < mb_failed_writes s') \<and>
    (\<exists>rs'. store_inv cd ids keys (if committed then items @ batch else items) rs' s')"
proof -
  obtain res s1 where items: "write_items env batch s = (res, s1)" by fastforce
  note spec = write_items_spec [OF env inv ok items]
  consider "batch = []" "committed" "s' = s"
    | "\<not> committed" "s' = write_failed (mb_db s) s"
    | "\<not> committed" "s' = write_failed (mb_db s) s1"
    | rs' where "res = Inr rs'" "committed" "s' = mdbx_notify (map to_log_record_snapshot rs') s1"
    using run items by (auto simp: write_batch_def split: if_splits sum.splits)
  then show ?thesis
  proof cases
    case 1
    with inv show ?thesis by auto
  next
    case 2
    with write_failed_spec [OF inv same_frame_refl] show ?thesis by auto
  next
    case 3
    with write_failed_spec [OF inv, of s1] spec show ?thesis by auto
  next
    case (4 rs')
    with spec mdbx_notify_spec [of cd ids keys "items @ batch" "rs @ rs'" s1 s] show ?thesis by auto
  qed
qed

section \<open>Reading\<close>

definition in_range :: "int \<Rightarrow> int \<Rightarrow> MdbxRecord \<Rightarrow> bool" where
  "in_range from_ms to_ms r = (from_ms \<le> rc_timestamp_ms r \<and> rc_timestamp_ms r < to_ms)"

definition at_most :: "nat \<Rightarrow> 'a list \<Rightarrow> 'a list" where
  "at_most limit xs = (if limit = 0 then xs else take limit xs)"

lemma range_loop_rows:
  assumes "\<forall>r \<in> set rs. record_ok r" "limit = 0 \<or> length acc < limit"
  shows "range_loop limit acc (map (\<lambda>r. (key_of r, the (serialize_record r))) rs) =
    Inr (at_most limit (acc @ map to_log_record_snapshot rs))"
  using assms
proof (induction rs arbitrary: acc)
  case Nil
  then show ?case by (auto simp: at_most_def)
next
  case (Cons r rs)
  have "record_ok r" using Cons.prems(1) by simp
  then obtain bytes where bytes: "serialize_record r = Some bytes" "deserialize_record bytes = Inr r"
    using record_reads_back [of r] unfolding reads_back_def by blast
  let ?acc = "acc @ [to_log_record_snapshot r]"
  show ?case
  proof (cases "limit = 0 \<or> length ?acc < limit")
    case True
    have "\<forall>x \<in> set rs. record_ok x" using Cons.prems(1) by simp
    from Cons.IH [OF this True] True bytes show ?thesis by (auto simp: Let_def)
  next
    case False
    with Cons.prems(2) have "limit = Suc (length acc)" by auto
    with False bytes show ?thesis by (simp add: at_most_def Let_def)
  qed
qed

lemma in_key_range:
  assumes "int64_range from_ms" "int64_range (to_ms - 1)" "record_ok r"
  shows "make_mdbx_record_key from_ms 0 \<le> key_of r \<and> key_of r \<le> make_mdbx_record_key (to_ms - 1) max_u32
    \<longleftrightarrow> in_range from_ms to_ms r"
proof -
  have ts: "int64_range (rc_timestamp_ms r)" using assms(3) by (simp add: record_ok_def)
  show ?thesis
    using u32_le_max [of "rc_sequence r"]
    unfolding key_of_def linorder_not_less [symmetric] make_mdbx_record_key_less [OF ts assms(1)]
      make_mdbx_record_key_less [OF assms(2) ts] in_range_def
    by (auto simp: linorder_not_less)
qed

lemma mdbx_read_range_exact:
  assumes "kv_ok (me_keys env) keys" "keys (db_records (mb_db s)) = table_rows rs" "\<forall>r \<in> set rs. record_ok r"
    and "int64_range from_ms" "int64_range (to_ms - 1)"
    and "kv_range (me_keys env) (make_mdbx_record_key from_ms 0) (make_mdbx_record_key (to_ms - 1) max_u32)
      (db_records (mb_db s)) \<noteq> None"
  shows "mdbx_read_range env from_ms to_ms limit s =
    Inr (at_most limit (map to_log_record_snapshot (filter (in_range from_ms to_ms) (sort_key rc_timestamp_ms rs))))"
proof (cases "to_ms \<le> from_ms")
  case True
  then have "filter (in_range from_ms to_ms) (sort_key rc_timestamp_ms rs) = []"
    by (auto simp: filter_empty_conv in_range_def)
  with True show ?thesis by (simp add: mdbx_read_range_def at_most_def)
next
  case False
  from assms(6) obtain rows where rows: "kv_range (me_keys env) (make_mdbx_record_key from_ms 0)
    (make_mdbx_record_key (to_ms - 1) max_u32) (db_records (mb_db s)) = Some rows" by blast
  have "rows = map (\<lambda>r. (key_of r, the (serialize_record r))) (filter (in_range from_ms to_ms) (sort_key rc_timestamp_ms rs))"
    unfolding kv_okD(6) [OF assms(1) rows] assms(2) table_rows_def filter_map
    using assms(3) in_key_range [OF assms(4,5)] by (auto intro!: arg_cong [where f = "map _"] filter_cong)
  moreover have "limit = 0 \<or> length ([] :: MdbxSnapshot list) < limit" by auto
  ultimately show ?thesis
    using False rows assms(3) range_loop_rows [of "filter (in_range from_ms to_ms) (sort_key rc_timestamp_ms rs)" limit "[]"]
    by (simp add: mdbx_read_range_def)
qed

end
