(* ===== verification/MdbxSystem.thy ===== *)
theory MdbxSystem
  imports MdbxProps
begin

text \<open>
  The MDBX backend under concurrency: callers of \<open>log\<close>, the worker, \<open>wait\<close>,
  \<open>shutdown\<close>, \<open>clear_logs\<close> and the other loggers of the process (which share
  the counter of unique ids) interleave at the critical sections of \<open>m_mutex\<close>
  and \<open>m_db_mutex\<close>.  Every transaction runs in an environment of its own, so it
  may fail at any operation.  \<open>clear_logs\<close> is one step, and only the calls that
  clear the records are steps (the other options leave numbered records behind
  an emptied table of next numbers).
\<close>

section \<open>Interleavings\<close>

record ('s, 'r, 'cb) mdbx_system =
  mw_logger :: "('s, 'r, 'cb) MdbxLogger"
  mw_worker :: mdbx_worker
  mw_blocked :: "MdbxLogItem list"
  mw_stored :: "MdbxLogItem list"

inductive mdbx_step :: "codec \<Rightarrow> ('s \<Rightarrow> (u64 \<times> string) list) \<Rightarrow> ('r \<Rightarrow> (string \<times> string) list)
    \<Rightarrow> ('s, 'r, 'cb) mdbx_system \<Rightarrow> MdbxLogItem te_event list \<Rightarrow> ('s, 'r, 'cb) mdbx_system \<Rightarrow> bool"
  for cd ids keys where
  log: "mdbx_env_ok cd ids keys env \<Longrightarrow> item_ok item \<Longrightarrow> Mdbx_log env mono_ms item (mw_logger s) = (l, res, ev) \<Longrightarrow>
     mdbx_step cd ids keys s ev (s\<lparr>mw_logger := l, mw_stored := mw_stored s @ finished ev,
        mw_blocked := (if res = AddSleep then mw_blocked s @ [item] else mw_blocked s)\<rparr>)"
| resume: "mw_blocked s = xs @ item # ys \<Longrightarrow> Mdbx_log_resume item (mw_logger s) = (l, res, ev) \<Longrightarrow>
     mdbx_step cd ids keys s ev (s\<lparr>mw_logger := l,
        mw_blocked := (if res = AddSleep then mw_blocked s else xs @ ys)\<rparr>)"
| take: "mw_worker s = MwWait \<Longrightarrow> mdbx_worker_take (mw_logger s) = Some (l, w) \<Longrightarrow>
     mdbx_step cd ids keys s [] (s\<lparr>mw_logger := l, mw_worker := w\<rparr>)"
| commit: "mdbx_env_ok cd ids keys env \<Longrightarrow> mw_worker s = MwWrite batch \<Longrightarrow>
     write_batch env batch (mw_logger s) = (committed, l) \<Longrightarrow>
     mdbx_step cd ids keys s (batch_events committed batch)
       (s\<lparr>mw_logger := l\<lparr>mb_idle := True\<rparr>, mw_worker := MwWait,
          mw_stored := mw_stored s @ finished (batch_events committed batch)\<rparr>)"
| stop: "mdbx_step cd ids keys s [] (s\<lparr>mw_logger := mdbx_stop (mw_logger s)\<rparr>)"
| joined: "mdbx_env_ok cd ids keys env \<Longrightarrow> mw_worker s = MwExit \<Longrightarrow> mb_shutdown (mw_logger s) \<Longrightarrow>
     mdbx_step cd ids keys s [] (s\<lparr>mw_logger := mdbx_end env (mw_logger s)\<rparr>)"
| clear: "mdbx_env_ok cd ids keys env \<Longrightarrow> co_include_persistent_records options \<Longrightarrow>
     Mdbx_clear_logs env options (mw_logger s) = (result, l) \<Longrightarrow>
     mdbx_step cd ids keys s [] (s\<lparr>mw_logger := l, mw_stored := (if cl_ok result then [] else mw_stored s)\<rparr>)"
| level: "mdbx_step cd ids keys s [] (s\<lparr>mw_logger := (mw_logger s)\<lparr>mb_log_level := lvl\<rparr>\<rparr>)"
| subscribe: "mdbx_step cd ids keys s [] (s\<lparr>mw_logger := snd (mdbx_add_callback cb (mw_logger s))\<rparr>)"
| unsubscribe: "mdbx_step cd ids keys s [] (s\<lparr>mw_logger := snd (mdbx_remove_callback ident (mw_logger s))\<rparr>)"
| other: "mdbx_step cd ids keys s [] (s\<lparr>mw_logger := (mw_logger s)\<lparr>mb_ids := k\<rparr>\<rparr>)"

inductive mdbx_run :: "codec \<Rightarrow> ('s \<Rightarrow> (u64 \<times> string) list) \<Rightarrow> ('r \<Rightarrow> (string \<times> string) list) \<Rightarrow> Mdbx_Config
    \<Rightarrow> MdbxLogItem te_event list \<Rightarrow> ('s, 'r, 'cb) mdbx_system \<Rightarrow> bool"
  for cd ids keys c where
  init: "mdbx_env_ok cd ids keys env \<Longrightarrow> keys (db_records db) = [] \<Longrightarrow> MdbxLogger_init env c (Some db) k = Inr l \<Longrightarrow>
     mdbx_run cd ids keys c []
       \<lparr>mw_logger = l, mw_worker = (if mq_async c then MwWait else MwExit), mw_blocked = [], mw_stored = []\<rparr>"
| step: "mdbx_run cd ids keys c evs s \<Longrightarrow> mdbx_step cd ids keys s ev s' \<Longrightarrow> mdbx_run cd ids keys c (evs @ ev) s'"

section \<open>Histories\<close>

text \<open>The items taken out of the queue and disposed of, by a committed transaction or a failed one.\<close>

fun settled_by :: "'a te_event \<Rightarrow> 'a list" where
  "settled_by (Finished x) = [x]"
| "settled_by (Evicted x) = [x]"
| "settled_by _ = []"

definition settled :: "'a te_event list \<Rightarrow> 'a list" where
  "settled evs = concat (map settled_by evs)"

lemma settled_append [simp]: "settled (xs @ ys) = settled xs @ settled ys"
  by (simp add: settled_def)

lemma settled_finished: "subseq (finished evs) (settled evs)"
proof (induction evs)
  case (Cons e evs)
  have "subseq (finished_by e) (settled_by e)" by (cases e) simp_all
  with Cons show ?case by (auto simp: settled_def finished_def intro: list_emb_append_mono)
qed (simp add: settled_def finished_def)

lemma settled_mset: "mset (settled evs) = mset (finished evs) + mset (evicted evs)"
proof (induction evs)
  case (Cons e evs)
  have "mset (settled_by e) = mset (finished_by e) + mset (evicted_by e)" by (cases e) simp_all
  with Cons show ?case by (simp add: settled_def finished_def evicted_def)
qed (simp add: settled_def finished_def evicted_def)

lemma batch_events_history [simp]:
  "settled (batch_events b batch) = batch" "accepted (batch_events b batch) = []"
  "finished (batch_events b batch) = (if b then batch else [])"
  "evicted (batch_events b batch) = (if b then [] else batch)"
  by (induction batch) (simp_all add: batch_events_def settled_def accepted_def finished_def evicted_def)

lemma settled_simple [simp]:
  "settled [] = []" "settled [Accepted x] = []" "settled [Refused x] = []" "settled [Slept x] = []"
  "settled (Accepted x # evs) = settled evs"
  by (simp_all add: settled_def)

section \<open>Invariant\<close>

primrec mw_batch :: "mdbx_worker \<Rightarrow> MdbxLogItem list" where
  "mw_batch MwWait = []"
| "mw_batch (MwWrite b) = b"
| "mw_batch MwExit = []"

definition mdbx_inv :: "codec \<Rightarrow> ('s \<Rightarrow> (u64 \<times> string) list) \<Rightarrow> ('r \<Rightarrow> (string \<times> string) list) \<Rightarrow> Mdbx_Config
    \<Rightarrow> MdbxLogItem te_event list \<Rightarrow> ('s, 'r, 'cb) MdbxLogger \<Rightarrow> mdbx_worker \<Rightarrow> MdbxLogItem list \<Rightarrow> MdbxLogItem list \<Rightarrow> bool" where
  "mdbx_inv cd ids keys c evs l w blocked stored =
     ((\<exists>rs. store_inv cd ids keys stored rs l) \<and> mb_config l = c \<and>
      accepted evs = settled evs @ mw_batch w @ mb_queue l \<and>
      (\<forall>x \<in> set (mw_batch w @ mb_queue l @ blocked). item_ok x) \<and>
      suffix stored (finished evs) \<and> (evicted evs \<noteq> [] \<longrightarrow> 0 < mb_failed_writes l) \<and>
      (mb_idle l \<longleftrightarrow> (\<forall>b. w \<noteq> MwWrite b)) \<and>
      (\<not> mq_async c \<longrightarrow> w = MwExit \<and> mb_queue l = [] \<and> blocked = []))"

text \<open>What the accounting reads of the logger.\<close>

definition same_queue :: "('s, 'r, 'cb) MdbxLogger \<Rightarrow> ('s, 'r, 'cb) MdbxLogger \<Rightarrow> bool" where
  "same_queue l l' =
     (mb_config l' = mb_config l \<and> mb_queue l' = mb_queue l \<and> mb_idle l' = mb_idle l \<and>
      mb_failed_writes l \<le> mb_failed_writes l')"

lemma same_frame_queue: "same_frame l l' \<Longrightarrow> same_queue l l'"
  by (simp add: same_frame_def same_queue_def)

lemma mdbx_inv_same:
  assumes "mdbx_inv cd ids keys c evs l w blocked stored" "same_queue l l'" "store_inv cd ids keys stored' rs l'"
    and "suffix stored' (finished evs)"
  shows "mdbx_inv cd ids keys c evs l' w blocked stored'"
  using assms by (auto simp: mdbx_inv_def same_queue_def)

lemma mdbx_inv_quiet:
  assumes "mdbx_inv cd ids keys c evs l w blocked stored" "same_queue l l'" "mb_db l' = mb_db l"
    and "mb_next_sequence_by_timestamp l' = mb_next_sequence_by_timestamp l"
  shows "mdbx_inv cd ids keys c evs l' w blocked stored"
proof -
  obtain rs where "store_inv cd ids keys stored rs l" using assms(1) by (auto simp: mdbx_inv_def)
  then have "store_inv cd ids keys stored rs l'"
    using assms(2-) by (auto intro: store_inv_same simp: same_queue_def)
  then show ?thesis
    using assms(1) by (intro mdbx_inv_same [OF assms(1,2)]) (simp_all add: mdbx_inv_def)
qed

lemma mdbx_inv_log:
  assumes inv: "mdbx_inv cd ids keys c evs l w blocked stored" and env: "mdbx_env_ok cd ids keys env"
    and ok: "item_ok item" and run: "Mdbx_log env mono_ms item l = (l', res, ev)"
  shows "mdbx_inv cd ids keys c (evs @ ev) l' w
    (if res = AddSleep then blocked @ [item] else blocked) (stored @ finished ev)"
proof -
  let ?l = "mark_last_log mono_ms (mi_timestamp_ms item) l"
  have c: "mb_config l = c" using inv by (simp add: mdbx_inv_def)
  have drop: "mdbx_inv cd ids keys c (evs @ [Refused item]) (mb_drop k) w blocked stored"
    if "k = l \<or> k = ?l" for k
    using mdbx_inv_quiet [OF inv, of "mb_drop k"] that
    by (auto simp: same_queue_def mb_drop_def mark_last_log_def mdbx_inv_def)
  obtain rs where rs: "store_inv cd ids keys stored rs ?l"
    using inv store_inv_same [of cd ids keys stored _ l ?l] by (auto simp: mdbx_inv_def mark_last_log_def)
  consider "l' = mb_drop l \<or> l' = mb_drop ?l" "res = AddReturn" "ev = [Refused item]"
    | committed where "\<not> mq_async c" "write_batch env [item] ?l = (committed, l')" "res = AddReturn"
        "ev = Accepted item # batch_events committed [item]"
    | "mq_async c" "l' = ?l" "res = AddSleep" "ev = [Slept item]"
    | "mq_async c" "l' = mb_push item ?l" "res = AddPushed" "ev = [Accepted item]"
    using run c by (auto simp: Mdbx_log_def Let_def split: if_splits prod.splits)
  then show ?thesis
  proof cases
    case 1
    with drop show ?thesis by auto
  next
    case (2 committed)
    from write_batch_spec [OF env rs _ 2(2)] ok
    have spec: "same_frame ?l l'" "committed \<or> 0 < mb_failed_writes l'"
      "\<exists>rs'. store_inv cd ids keys (if committed then stored @ [item] else stored) rs' l'" by auto
    from inv 2(1) have "w = MwExit" "mb_queue l = []" "blocked = []" by (auto simp: mdbx_inv_def)
    with inv spec 2(1,3,4) show ?thesis
      by (auto simp: mdbx_inv_def same_frame_def mark_last_log_def)
  next
    case 3
    with inv rs ok show ?thesis by (auto simp: mdbx_inv_def mark_last_log_def)
  next
    case 4
    have "store_inv cd ids keys stored rs (mb_push item ?l)" by (rule store_inv_same [OF rs]) (simp_all add: mb_push_def)
    with 4 inv ok show ?thesis by (auto simp: mdbx_inv_def mark_last_log_def mb_push_def)
  qed
qed

lemma mdbx_inv_resume:
  assumes inv: "mdbx_inv cd ids keys c evs l w (xs @ item # ys) stored"
    and run: "Mdbx_log_resume item l = (l', res, ev)"
  shows "mdbx_inv cd ids keys c (evs @ ev) l' w (if res = AddSleep then xs @ item # ys else xs @ ys) stored"
proof -
  obtain rs where rs: "store_inv cd ids keys stored rs l" using inv by (auto simp: mdbx_inv_def)
  have "store_inv cd ids keys stored rs (mb_drop l)" "store_inv cd ids keys stored rs (mb_push item l)"
    by (rule store_inv_same [OF rs]; simp add: mb_drop_def mb_push_def)+
  with inv rs run show ?thesis
    by (auto simp: Mdbx_log_resume_def mdbx_inv_def mb_drop_def mb_push_def split: if_splits)
qed

lemma fill_batch_eq:
  "fill_batch n batch queue = (batch @ take (n - length batch) queue, drop (n - length batch) queue)"
proof (induction n batch queue rule: fill_batch.induct)
  case (2 n batch x queue)
  show ?case
  proof (cases "length batch < n")
    case True
    then have "n - length batch = Suc (n - Suc (length batch))" by arith
    with True 2 show ?thesis by simp
  qed simp
qed simp

lemma mdbx_inv_take:
  assumes inv: "mdbx_inv cd ids keys c evs l MwWait blocked stored" and run: "mdbx_worker_take l = Some (l', w)"
  shows "mdbx_inv cd ids keys c evs l' w blocked stored"
proof -
  obtain rs where rs: "store_inv cd ids keys stored rs l" using inv by (auto simp: mdbx_inv_def)
  have "store_inv cd ids keys stored rs l'"
    by (rule store_inv_same [OF rs]) (use run in \<open>auto simp: mdbx_worker_take_def split: if_splits prod.splits\<close>)
  with inv run show ?thesis
    by (auto simp: mdbx_worker_take_def mdbx_inv_def fill_batch_eq split: if_splits)
      (blast dest: in_set_takeD in_set_dropD)+
qed

lemma mdbx_inv_commit:
  assumes inv: "mdbx_inv cd ids keys c evs l (MwWrite batch) blocked stored" and env: "mdbx_env_ok cd ids keys env"
    and run: "write_batch env batch l = (committed, l')"
  shows "mdbx_inv cd ids keys c (evs @ batch_events committed batch) (l'\<lparr>mb_idle := True\<rparr>) MwWait blocked
    (stored @ finished (batch_events committed batch))"
proof -
  obtain rs where rs: "store_inv cd ids keys stored rs l" using inv by (auto simp: mdbx_inv_def)
  have ok: "\<forall>x \<in> set batch. item_ok x" using inv by (simp add: mdbx_inv_def)
  from write_batch_spec [OF env rs ok run] obtain rs' where spec: "same_frame l l'" "committed \<or> 0 < mb_failed_writes l'"
    "store_inv cd ids keys (if committed then stored @ batch else stored) rs' l'" by auto
  have "store_inv cd ids keys (if committed then stored @ batch else stored) rs' (l'\<lparr>mb_idle := True\<rparr>)"
    by (rule store_inv_same [OF spec(3)]) simp_all
  with inv spec(1,2) show ?thesis
    by (auto simp: mdbx_inv_def same_frame_def)
qed

text \<open>The session calls change the session table, the session id and the id counter only.\<close>

definition session_only :: "('s, 'r, 'cb) MdbxLogger \<Rightarrow> ('s, 'r, 'cb) MdbxLogger \<Rightarrow> bool" where
  "session_only l l' =
     (mb_config l' = mb_config l \<and> mb_queue l' = mb_queue l \<and> mb_idle l' = mb_idle l \<and>
      mb_failed_writes l' = mb_failed_writes l \<and>
      mb_next_sequence_by_timestamp l' = mb_next_sequence_by_timestamp l \<and>
      db_records (mb_db l') = db_records (mb_db l) \<and> db_payloads (mb_db l') = db_payloads (mb_db l))"

lemma put_session_spec: "put_session env ident session l = Inr l' \<Longrightarrow> session_only l l'"
  by (auto simp: put_session_def session_only_def split: option.splits if_splits)

lemma make_unique_id_session: "make_unique_id env l = (ident, l') \<Longrightarrow> session_only l l' \<and> mb_db l' = mb_db l"
  by (drule make_unique_id_spec) (simp add: session_only_def)

lemma insert_new_session_spec: "insert_new_session n env l = Inr l' \<Longrightarrow> session_only l l'"
proof (induction n env l rule: insert_new_session.induct)
  case (2 n env l)
  obtain ident l1 where new: "make_unique_id env l = (ident, l1)" by fastforce
  from "2.prems" new obtain bytes inserted t where ser: "serialize_session (new_session env (mq_app_name (mb_config l1))) = Some bytes"
    and ins: "kv_insert (me_ids env) ident bytes (db_sessions (mb_db l1)) = Some (inserted, t)"
    by (auto split: option.splits)
  show ?case
  proof (cases inserted)
    case True
    with "2.prems" new ser ins make_unique_id_session [OF new] show ?thesis
      by (auto simp: session_only_def split: if_splits)
  next
    case False
    with "2.prems" new ser ins
    have "insert_new_session n env (l1\<lparr>mb_db := (mb_db l1)\<lparr>db_sessions := t\<rparr>\<rparr>) = Inr l'" by simp
    with "2.IH" [of "(ident, l1)" ident l1 bytes "(inserted, t)" inserted t] new ser ins False
      make_unique_id_session [OF new] show ?thesis
      by (simp add: session_only_def)
  qed
qed simp

lemma open_session_spec:
  assumes "open_session env l = Inr l'"
  shows "session_only l l'"
proof (cases "mq_session_id (mb_config l) = 0")
  case True
  with assms show ?thesis by (auto simp: open_session_def Let_def split: if_splits intro: insert_new_session_spec)
next
  case False
  then obtain v l1 where put: "put_session env (mq_session_id (mb_config l)) v l = Inr l1"
    "l' = l1\<lparr>mb_session_id := mq_session_id (mb_config l)\<rparr>"
    using assms by (auto simp: open_session_def Let_def split: if_splits sum.splits option.splits)
  with put_session_spec [OF put(1)] show ?thesis by (simp add: session_only_def)
qed

lemma MdbxLogger_init_inv:
  assumes "keys (db_records db) = []" "MdbxLogger_init env c (Some db) k = Inr l"
  shows "mdbx_inv cd ids keys (normalize_config c) [] l (if mq_async c then MwWait else MwExit) [] []"
proof -
  from assms(2) have "open_session env (mdbx_blank (normalize_config c) db k) = Inr l"
    by (auto simp: MdbxLogger_init_def Let_def split: if_splits)
  from open_session_spec [OF this] assms(1) show ?thesis
    by (auto simp: mdbx_inv_def store_inv_def session_only_def mdbx_blank_def table_rows_def numbered_def seq_bound_def
      settled_def accepted_def finished_def evicted_def normalize_config_def)
qed

lemma mdbx_inv_session:
  assumes inv: "mdbx_inv cd ids keys c evs l w blocked stored" and "session_only l l'"
  shows "mdbx_inv cd ids keys c evs l' w blocked stored"
proof -
  obtain rs where "store_inv cd ids keys stored rs l" using inv by (auto simp: mdbx_inv_def)
  with assms(2) have "store_inv cd ids keys stored rs l'" by (simp add: store_inv_def session_only_def)
  then show ?thesis
    using assms by (intro mdbx_inv_same [OF inv]) (auto simp: same_queue_def mdbx_inv_def session_only_def)
qed

lemma mdbx_inv_end:
  assumes inv: "mdbx_inv cd ids keys c evs l w blocked stored"
  shows "mdbx_inv cd ids keys c evs (mdbx_end env l) w blocked stored"
proof (cases "update_session_end env l")
  case (Inl e)
  then show ?thesis
    by (intro mdbx_inv_quiet [OF inv]) (simp_all add: mdbx_end_def same_queue_def)
next
  case (Inr l')
  then have "session_only l l'"
    by (auto simp: update_session_end_def Let_def split: sum.splits if_splits intro: put_session_spec)
  with Inr show ?thesis using mdbx_inv_session [OF inv] by (simp add: mdbx_end_def)
qed

lemma clear_sessions_spec:
  assumes "clear_sessions env options db l = (res, l')"
  shows "session_only l l' \<and> mb_db l' = mb_db l \<and> (\<forall>db'. res = Some db' \<longrightarrow> db_records db' = db_records db)"
proof -
  obtain ident l1 where new: "make_unique_id env l = (ident, l1)" by fastforce
  with assms make_unique_id_session [OF new] show ?thesis
    by (auto simp: clear_sessions_def Let_def session_only_def split: if_splits option.splits)
qed

text \<open>A successful clear empties the record table, a failed one leaves the tables as they were.\<close>

lemma Mdbx_clear_logs_spec:
  assumes kv: "kv_ok (me_keys env) keys" and recs: "co_include_persistent_records options"
    and run: "Mdbx_clear_logs env options l = (result, l')"
  shows "same_queue l l' \<and>
    (if cl_ok result then keys (db_records (mb_db l')) = [] \<and> mb_next_sequence_by_timestamp l' = Map.empty
     else mb_db l' = mb_db l \<and> mb_next_sequence_by_timestamp l' = mb_next_sequence_by_timestamp l)"
proof -
  obtain n d1 where recs': "clear_records env options (mb_db l) = (n, d1)" by fastforce
  have empty: "keys (db_records db) = []" if "d1 = Some db" for db
    using recs' recs that kv_okD(8) [OF kv] by (auto simp: clear_records_def split: option.splits if_splits)
  have same: "db_records db2 = db_records db1" if "clear_payloads env options db1 = Some db2" for db1 db2
    using that by (auto simp: clear_payloads_def split: if_splits)
  consider "\<not> cl_ok result" "l' = l"
    | db2 where "\<not> cl_ok result" "clear_sessions env options db2 l = (None, l')"
    | db2 db3 where "\<not> cl_ok result" "clear_sessions env options db2 l = (Some db3, l')"
    | db1 db2 db3 l1 where "cl_ok result" "d1 = Some db1" "clear_payloads env options db1 = Some db2"
        "clear_sessions env options db2 l = (Some db3, l1)"
        "l' = l1\<lparr>mb_db := db3, mb_next_sequence_by_timestamp := Map.empty, mb_last_log_ts := 0, mb_last_log_mono_ts := 0\<rparr>"
    using run recs'
    by (auto simp: Mdbx_clear_logs_def Let_def LogClearResult_init_def split: if_splits option.splits prod.splits)
  then show ?thesis
  proof cases
    case (4 db1 db2 db3 l1)
    with clear_sessions_spec [OF 4(4)] empty same show ?thesis by (auto simp: same_queue_def session_only_def)
  qed (auto simp: same_queue_def session_only_def dest!: clear_sessions_spec)
qed

lemma mdbx_inv_clear:
  assumes inv: "mdbx_inv cd ids keys c evs l w blocked stored" and env: "mdbx_env_ok cd ids keys env"
    and "co_include_persistent_records options" "Mdbx_clear_logs env options l = (result, l')"
  shows "mdbx_inv cd ids keys c evs l' w blocked (if cl_ok result then [] else stored)"
proof -
  have kv: "kv_ok (me_keys env) keys" using env by (simp add: mdbx_env_ok_def)
  note spec = Mdbx_clear_logs_spec [OF kv assms(3,4)]
  show ?thesis
  proof (cases "cl_ok result")
    case True
    with spec have "store_inv cd ids keys [] [] l'"
      by (simp add: store_inv_def table_rows_def numbered_def seq_bound_def)
    with True spec show ?thesis by (auto intro: mdbx_inv_same [OF inv])
  next
    case False
    with spec show ?thesis by (auto intro: mdbx_inv_quiet [OF inv])
  qed
qed

lemma mdbx_run_inv:
  "mdbx_run cd ids keys c evs s \<Longrightarrow>
   mdbx_inv cd ids keys (normalize_config c) evs (mw_logger s) (mw_worker s) (mw_blocked s) (mw_stored s)"
proof (induction rule: mdbx_run.induct)
  case (init env db k l)
  from MdbxLogger_init_inv [of keys db, OF init(2,3)] show ?case by simp
next
  case (step evs s ev s')
  note inv = step.IH
  from step(2) show ?case
  proof cases
    case (log env item mono_ms l res)
    with mdbx_inv_log [OF inv log(2,3,4)] show ?thesis by simp
  next
    case (resume xs item ys l res)
    have "mdbx_inv cd ids keys (normalize_config c) evs (mw_logger s) (mw_worker s) (xs @ item # ys) (mw_stored s)"
      using inv resume(2) by simp
    from mdbx_inv_resume [OF this resume(3)] resume(1,2) show ?thesis by (simp split: if_splits)
  next
    case (take l w)
    with mdbx_inv_take [of cd ids keys _ evs "mw_logger s" "mw_blocked s"] inv show ?thesis by simp
  next
    case (commit env batch committed l)
    with mdbx_inv_commit [of cd ids keys _ evs "mw_logger s" batch "mw_blocked s"] inv show ?thesis by simp
  next
    case stop
    with mdbx_inv_quiet [OF inv, of "mdbx_stop (mw_logger s)"] show ?thesis
      by (simp add: mdbx_stop_def same_queue_def)
  next
    case (joined env)
    with mdbx_inv_end [OF inv] show ?thesis by simp
  next
    case (clear env options result l)
    with mdbx_inv_clear [OF inv clear(3,4,5)] show ?thesis by simp
  next
    case (level lvl)
    with mdbx_inv_quiet [OF inv, of "(mw_logger s)\<lparr>mb_log_level := lvl\<rparr>"] show ?thesis by (simp add: same_queue_def)
  next
    case (subscribe cb)
    with mdbx_inv_quiet [OF inv, of "snd (mdbx_add_callback cb (mw_logger s))"] show ?thesis
      by (simp add: same_queue_def mdbx_add_callback_def Let_def)
  next
    case (unsubscribe ident)
    with mdbx_inv_quiet [OF inv, of "snd (mdbx_remove_callback ident (mw_logger s))"] show ?thesis
      by (simp add: same_queue_def mdbx_remove_callback_def)
  next
    case (other k)
    with mdbx_inv_quiet [OF inv, of "(mw_logger s)\<lparr>mb_ids := k\<rparr>"] show ?thesis by (simp add: same_queue_def)
  qed
qed

lemma mdbx_in_order: "mdbx_run cd ids keys c evs s \<Longrightarrow> subseq (finished evs) (accepted evs)"
  using mdbx_run_inv [of cd ids keys c evs s] settled_finished [of evs]
  by (auto simp: mdbx_inv_def intro: subseq_order.trans list_emb_append2)

lemma mdbx_conserved:
  assumes "mdbx_run cd ids keys c evs s" "mdbx_wait_ready (mw_logger s)"
  shows "mset (accepted evs) = mset (finished evs) + mset (evicted evs)"
proof -
  have "mw_batch (mw_worker s) @ mb_queue (mw_logger s) = []"
    using mdbx_run_inv [OF assms(1)] assms(2)
    by (cases "mw_worker s") (auto simp: mdbx_inv_def mdbx_wait_ready_def)
  with mdbx_run_inv [OF assms(1)] settled_mset [of evs] show ?thesis by (auto simp: mdbx_inv_def)
qed

interpretation mb: fifo_executor "mdbx_run cd ids keys c" accepted evicted finished "\<lambda>s. mdbx_wait_ready (mw_logger s)"
  by unfold_locales (auto intro: mdbx_in_order mdbx_conserved)

section \<open>The store\<close>

text \<open>
  What reading gives for a stored item: its fields, and its message in full,
  inline or through its payload row (unless the table throws).
\<close>

definition recovered :: "Mdbx_Config \<Rightarrow> ('s, 'r) mdbx_env \<Rightarrow> ('s, 'r, 'cb) MdbxLogger \<Rightarrow> MdbxLogItem \<Rightarrow> MdbxRecord \<Rightarrow> bool" where
  "recovered c env l item r =
     (rc_timestamp_ms r = mi_timestamp_ms item \<and> rc_level r = word_of_int (level_int (mi_level item)) \<and>
      rc_file r = mi_file item \<and> rc_function r = mi_function item \<and> rc_line r = mi_line item \<and>
      (if should_spill_payload c (mi_message item)
       then rc_message r = make_payload_preview c (mi_message item) \<and>
            (read_payload_data env (rc_payload_id r) l = Inr (mi_message item) \<or>
             read_payload_data env (rc_payload_id r) l = Inl StorageError)
       else rc_message r = mi_message item \<and> rc_payload_id r = 0))"

lemma read_payload_data_holds:
  assumes "mdbx_env_ok cd ids keys env" "holds_message cd (ids (db_payloads (mb_db l))) ident msg"
  shows "read_payload_data env ident l = Inr msg \<or> read_payload_data env ident l = Inl StorageError"
proof (cases "kv_find (me_ids env) ident (db_payloads (mb_db l))")
  case None
  with assms(2) show ?thesis by (simp add: holds_message_def read_payload_data_def read_payload_def)
next
  case (Some v)
  have kv: "kv_ok (me_ids env) ids" and cd: "me_codec env = cd" using assms(1) by (simp_all add: mdbx_env_ok_def)
  from assms(2) obtain bytes p where "v = Some bytes" "deserialize_payload bytes = Inr p" "payload_text cd p = Some msg"
    "ident \<noteq> 0"
    using kv_okD(2) [OF kv Some] by (auto simp: holds_message_def)
  with Some show ?thesis
    by (cases "pl_compression p") (simp_all add: read_payload_data_def read_payload_def payload_text_def cd)
qed

lemma stored_recovered:
  assumes "mdbx_env_ok cd ids keys env" "stored_as cd c (ids (db_payloads (mb_db l))) item r"
  shows "recovered c env l item r"
  using assms(2) read_payload_data_holds [OF assms(1), of l "rc_payload_id r" "mi_message item"]
  by (auto simp: stored_as_def recovered_def)


text \<open>A table as the history of its assignments, newest first, over lists.\<close>

definition demo_rows :: "('k::linorder \<times> string) list \<Rightarrow> ('k \<times> string) list" where
  "demo_rows t = foldr (\<lambda>p. map_put (fst p) (snd p)) t []"

definition demo_kv :: "('k::linorder, ('k \<times> string) list) kv" where
  "demo_kv =
     \<lparr>kv_find = (\<lambda>k t. Some (map_of (demo_rows t) k)),
      kv_contains = (\<lambda>k t. Some (map_of (demo_rows t) k \<noteq> None)),
      kv_insert = (\<lambda>k v t. Some (if map_of (demo_rows t) k = None then (True, (k, v) # t) else (False, t))),
      kv_insert_or_assign = (\<lambda>k v t. Some ((k, v) # t)),
      kv_range = (\<lambda>a b t. Some (filter (\<lambda>p. a \<le> fst p \<and> fst p \<le> b) (demo_rows t))),
      kv_count = (\<lambda>t. Some (length (demo_rows t))), kv_clear = (\<lambda>t. Some [])\<rparr>"

lemma demo_rows_simps [simp]: "demo_rows [] = []" "demo_rows ((k, v) # t) = map_put k v (demo_rows t)"
  by (simp_all add: demo_rows_def)

lemma demo_rows_inv: "map_inv (demo_rows t)"
  by (induction t) (auto simp: map_inv_def [of "[]"])

lemma demo_kv_ok: "kv_ok demo_kv demo_rows"
  unfolding kv_ok_def demo_kv_def by (auto simp: demo_rows_inv split: if_splits)

definition demo_mdbx_env :: "((u64 \<times> string) list, (string \<times> string) list) mdbx_env" where
  "demo_mdbx_env =
     \<lparr>me_ids = demo_kv, me_keys = demo_kv, me_begin = True, me_commit = True, me_clock = (\<lambda>n. 1000),
      me_now = 1000, me_pid = 5, me_codec = demo_codec, me_has_zlib = True, me_has_zstd = True\<rparr>"

lemma demo_mdbx_env_ok: "mdbx_env_ok demo_codec demo_rows demo_rows demo_mdbx_env"
  by (simp add: mdbx_env_ok_def demo_mdbx_env_def demo_kv_ok demo_codec_ok)

definition demo_mdbx_config :: Mdbx_Config where
  "demo_mdbx_config = Mdbx_Config_default\<lparr>mq_async := False, mq_session_id := 7, mq_large_payload_threshold := 4\<rparr>"

definition demo_mdbx_start :: "mdbx_error + ((u64 \<times> string) list, (string \<times> string) list, unit) MdbxLogger" where
  "demo_mdbx_start = MdbxLogger_init demo_mdbx_env demo_mdbx_config
     (Some \<lparr>db_sessions = [], db_records = [], db_payloads = []\<rparr>) 0"

definition demo_item :: "int \<Rightarrow> string \<Rightarrow> MdbxLogItem" where
  "demo_item ts msg =
     \<lparr>mi_level = LOG_LVL_INFO, mi_timestamp_ms = ts, mi_file = ''a.cpp'', mi_function = ''f'', mi_line = 1,
      mi_message = msg\<rparr>"

definition demo_mdbx_log :: "((u64 \<times> string) list, (string \<times> string) list, unit) MdbxLogger
    \<Rightarrow> ((u64 \<times> string) list, (string \<times> string) list, unit) MdbxLogger \<times> add_result \<times> MdbxLogItem te_event list" where
  "demo_mdbx_log l = Mdbx_log demo_mdbx_env 10 (demo_item 5 ''a long message'') l"

lemma demo_mdbx_works:
  "\<exists>l xs. demo_mdbx_start = Inr l \<and> finished (snd (snd (demo_mdbx_log l))) \<noteq> [] \<and>
     mdbx_read_range demo_mdbx_env 0 10 0 (fst (demo_mdbx_log l)) = Inr xs"
proof -
  have "(case demo_mdbx_start of Inl e \<Rightarrow> False
    | Inr l \<Rightarrow> finished (snd (snd (demo_mdbx_log l))) \<noteq> [] \<and>
        (case mdbx_read_range demo_mdbx_env 0 10 0 (fst (demo_mdbx_log l)) of Inl e \<Rightarrow> False | Inr xs \<Rightarrow> True))"
    by code_simp
  then show ?thesis by (auto split: sum.splits)
qed


end
