(* ===== verification/Json.thy ===== *)
theory Json
  imports Prelude
begin

text \<open>
  The JSON side of the development: the escaping both serializers of the
  repository use, and an independent JSON reader that serves as the
  specification of what they write.  The reader is strict where the
  repository writes: control characters inside strings are rejected and number
  tokens follow the JSON grammar.  Fuel bounds its nesting; the length of the
  text is always enough.
\<close>

section \<open>Quoting and escaping\<close>

abbreviation DQ :: char where
  "DQ \<equiv> CHR 0x22"

abbreviation BS :: char where
  "BS \<equiv> CHR 0x5C"

definition quoted :: "string \<Rightarrow> string" where
  "quoted s = DQ # s @ [DQ]"

definition hex_digit :: "nat \<Rightarrow> char" where
  "hex_digit d = (if d < 10 then chr (48 + d) else chr (87 + d))"

definition json_escape_char :: "char \<Rightarrow> string" where
  "json_escape_char c =
     (if c = DQ then [BS, DQ]
      else if c = BS then [BS, BS]
      else if c = chr 8 then [BS, CHR ''b'']
      else if c = chr 12 then [BS, CHR ''f'']
      else if c = chr 10 then [BS, CHR ''n'']
      else if c = chr 13 then [BS, CHR ''r'']
      else if c = chr 9 then [BS, CHR ''t'']
      else if code c < 32 then
        BS # ''u00'' @ [hex_digit (code c div 16), hex_digit (code c mod 16)]
      else [c])"

lemma json_escape_plain [simp]:
  "32 \<le> code c \<Longrightarrow> c \<noteq> DQ \<Longrightarrow> c \<noteq> BS \<Longrightarrow> json_escape_char c = [c]"
  by (auto simp: json_escape_char_def eq_chr)

section \<open>The interface of an escaping writer and a scanner\<close>

text \<open>
  \<open>esc\<close> writes one byte between quotes, \<open>scan\<close> reads up to the closing quote.
\<close>

locale quoted_text =
  fixes esc :: "char \<Rightarrow> string"
    and scan :: "string \<Rightarrow> (string \<times> string) option"
  assumes scan_close: "scan (DQ # r) = Some ([], r)"
    and scan_esc: "scan (esc c @ s) = map_option (apfst (Cons c)) (scan s)"
begin

lemma scan_escaped: "scan (concat (map esc s) @ DQ # r) = Some (s, r)"
  by (induction s) (simp_all add: scan_close scan_esc)

lemma escaped_unique:
  assumes "concat (map esc s) @ DQ # r = concat (map esc t) @ DQ # q"
  shows "s = t \<and> r = q"
  using arg_cong [OF assms, of scan] by (simp add: scan_escaped)

lemma escaped_inject: "concat (map esc s) = concat (map esc t) \<longleftrightarrow> s = t"
proof
  assume "concat (map esc s) = concat (map esc t)"
  then have "concat (map esc s) @ DQ # [] = concat (map esc t) @ DQ # []" by (rule arg_cong)
  then show "s = t" by (rule escaped_unique [THEN conjunct1])
qed simp

end

section \<open>The reader\<close>

datatype json =
    JNull
  | JBool bool
  | JNum string
  | JStr string
  | JArr "json list"
  | JObj "(string \<times> json) list"

definition hex_value :: "char \<Rightarrow> nat option" where
  "hex_value c =
     (if isdigit c then Some (code c - 48)
      else if 97 \<le> code c \<and> code c \<le> 102 then Some (code c - 87)
      else if 65 \<le> code c \<and> code c \<le> 70 then Some (code c - 55)
      else None)"

definition simple_escape :: "char \<Rightarrow> char option" where
  "simple_escape e =
     (if e = DQ \<or> e = BS \<or> e = CHR ''/'' then Some e
      else if e = CHR ''b'' then Some (chr 8)
      else if e = CHR ''f'' then Some (chr 12)
      else if e = CHR ''n'' then Some (chr 10)
      else if e = CHR ''r'' then Some (chr 13)
      else if e = CHR ''t'' then Some (chr 9)
      else None)"

text \<open>A \<open>\u\<close> escape of a code point below 128, the only ones a byte writer needs.\<close>

definition unicode_escape :: "string \<Rightarrow> char option" where
  "unicode_escape h =
     (case map hex_value h of
        [Some a, Some b, Some c, Some d] \<Rightarrow>
          (let n = ((a * 16 + b) * 16 + c) * 16 + d in if n < 128 then Some (chr n) else None)
      | _ \<Rightarrow> None)"

fun jstr :: "string \<Rightarrow> (string \<times> string) option" where
  "jstr [] = None"
| "jstr [c] = (if c = DQ then Some ([], []) else None)"
| "jstr (c # e # s) =
     (if c = DQ then Some ([], e # s)
      else if c = BS then
        (if e = CHR ''u'' then
           (case unicode_escape (take 4 s) of
              None \<Rightarrow> None
            | Some x \<Rightarrow> map_option (apfst (Cons x)) (jstr (drop 4 s)))
         else (case simple_escape e of
                 None \<Rightarrow> None
               | Some x \<Rightarrow> map_option (apfst (Cons x)) (jstr s)))
      else if code c < 32 then None
      else map_option (apfst (Cons c)) (jstr (e # s)))"

definition is_ws :: "char \<Rightarrow> bool" where
  "is_ws c = (code c \<in> {32, 9, 10, 13})"

definition skip_ws :: "string \<Rightarrow> string" where
  "skip_ws s = dropWhile is_ws s"

definition token_char :: "char \<Rightarrow> bool" where
  "token_char c = (isalnum c \<or> c = CHR ''+'' \<or> c = CHR ''-'' \<or> c = CHR ''.'')"

definition all_digits :: "string \<Rightarrow> bool" where
  "all_digits s = (s \<noteq> [] \<and> list_all isdigit s)"

definition valid_int :: "string \<Rightarrow> bool" where
  "valid_int s = (all_digits s \<and> (hd s = CHR ''0'' \<longrightarrow> length s = 1))"

definition valid_exponent :: "string \<Rightarrow> bool" where
  "valid_exponent s =
     (case s of
        [] \<Rightarrow> True
      | e # s' \<Rightarrow>
          (e = CHR ''e'' \<or> e = CHR ''E'') \<and>
          (case s' of
             [] \<Rightarrow> False
           | c # s'' \<Rightarrow> if c = CHR ''+'' \<or> c = CHR ''-'' then all_digits s'' else all_digits s'))"

definition valid_unsigned :: "string \<Rightarrow> bool" where
  "valid_unsigned s =
     (let i = takeWhile isdigit s; r = dropWhile isdigit s in
      valid_int i \<and>
      (case r of
         [] \<Rightarrow> True
       | c # r' \<Rightarrow>
           if c = CHR ''.'' then takeWhile isdigit r' \<noteq> [] \<and> valid_exponent (dropWhile isdigit r')
           else valid_exponent r))"

definition valid_number :: "string \<Rightarrow> bool" where
  "valid_number s =
     (case s of
        [] \<Rightarrow> False
      | c # s' \<Rightarrow> if c = CHR ''-'' then valid_unsigned s' else valid_unsigned s)"

definition jtoken :: "string \<Rightarrow> json option" where
  "jtoken t =
     (if t = ''true'' then Some (JBool True)
      else if t = ''false'' then Some (JBool False)
      else if t = ''null'' then Some JNull
      else if valid_number t then Some (JNum t)
      else None)"

text \<open>The items up to a closing bracket, and one member of an object, given the reader of an item.\<close>

type_synonym 'a reader = "string \<Rightarrow> ('a \<times> string) option"

primrec jlist :: "'a reader \<Rightarrow> char \<Rightarrow> nat \<Rightarrow> 'a list reader" where
  "jlist p close 0 s = None"
| "jlist p close (Suc n) s =
     (case p s of
        None \<Rightarrow> None
      | Some (v, r) \<Rightarrow>
          (case skip_ws r of
             [] \<Rightarrow> None
           | c # r' \<Rightarrow>
               if c = CHR '','' then map_option (apfst (Cons v)) (jlist p close n r')
               else if c = close then Some ([v], r')
               else None))"

definition jmember :: "json reader \<Rightarrow> (string \<times> json) reader" where
  "jmember p s =
     (case skip_ws s of
        [] \<Rightarrow> None
      | c # s' \<Rightarrow>
          if c \<noteq> DQ then None
          else case jstr s' of
            None \<Rightarrow> None
          | Some (k, r) \<Rightarrow>
              (case skip_ws r of
                 [] \<Rightarrow> None
               | d # r' \<Rightarrow> if d = CHR '':'' then map_option (apfst (Pair k)) (p r') else None))"

primrec jval :: "nat \<Rightarrow> json reader" where
  "jval 0 s = None"
| "jval (Suc n) s =
     (case skip_ws s of
        [] \<Rightarrow> None
      | c # r \<Rightarrow>
          if c = DQ then map_option (apfst JStr) (jstr r)
          else if c = CHR ''['' then
            (case skip_ws r of
               [] \<Rightarrow> None
             | d # r' \<Rightarrow>
                 if d = CHR '']'' then Some (JArr [], r')
                 else map_option (apfst JArr) (jlist (jval n) (CHR '']'') (length r) r))
          else if c = CHR ''{'' then
            (case skip_ws r of
               [] \<Rightarrow> None
             | d # r' \<Rightarrow>
                 if d = CHR ''}'' then Some (JObj [], r')
                 else map_option (apfst JObj) (jlist (jmember (jval n)) (CHR ''}'') (length r) r))
          else map_option (\<lambda>v. (v, dropWhile token_char (c # r)))
                 (jtoken (takeWhile token_char (c # r))))"

declare jval.simps(2) [simp del] jlist.simps(2) [simp del]

definition json_read :: "string \<Rightarrow> json option" where
  "json_read s =
     (case jval (length s) s of
        Some (v, r) \<Rightarrow> if skip_ws r = [] then Some v else None
      | None \<Rightarrow> None)"

section \<open>Escaping is read back\<close>

lemma hex_value_digit: "d < 16 \<Longrightarrow> hex_value (hex_digit d) = Some d"
  by (auto simp: hex_value_def hex_digit_def isdigit_def)

lemma unicode_escape_hex:
  assumes "code c < 32"
  shows "unicode_escape [CHR ''0'', CHR ''0'', hex_digit (code c div 16), hex_digit (code c mod 16)]
         = Some c"
  using assms
  by (simp add: unicode_escape_def hex_value_digit) (simp add: hex_value_def isdigit_def)

lemma jstr_cons:
  "c \<noteq> DQ \<Longrightarrow> c \<noteq> BS \<Longrightarrow> \<not> code c < 32 \<Longrightarrow>
   jstr (c # s) = map_option (apfst (Cons c)) (jstr s)"
  by (cases s) auto

lemma jstr_escape: "jstr (json_escape_char c @ s) = map_option (apfst (Cons c)) (jstr s)"
proof (cases "code c < 32 \<and> code c \<notin> {8, 9, 10, 12, 13}")
  case True
  then have "json_escape_char c =
      BS # ''u00'' @ [hex_digit (code c div 16), hex_digit (code c mod 16)]"
    by (simp add: json_escape_char_def eq_chr) (use True in \<open>force\<close>)
  with True show ?thesis using unicode_escape_hex [of c] by simp
next
  case False
  show ?thesis
  proof (cases "c = DQ \<or> c = BS \<or> code c < 32")
    case True
    with False have "c \<in> {DQ, BS, chr 8, chr 9, chr 10, chr 12, chr 13}"
      by (auto simp: eq_chr)
    then show ?thesis
      by (elim insertE) (simp_all add: json_escape_char_def simple_escape_def)
  next
    case False
    then have "json_escape_char c = [c]" by (auto simp: json_escape_char_def)
    with False show ?thesis by (simp add: jstr_cons)
  qed
qed

interpretation json_text: quoted_text json_escape_char jstr
proof
  show "jstr (DQ # r) = Some ([], r)" for r by (cases r) simp_all
qed (rule jstr_escape)

section \<open>Texts that denote a value\<close>

definition delim :: "string \<Rightarrow> bool" where
  "delim r = (case r of [] \<Rightarrow> True | c # _ \<Rightarrow> \<not> token_char c)"

text \<open>
  \<open>t\<close> is read as \<open>x\<close> by the reader \<open>p\<close>, whatever follows it and with any
  white space in front.
\<close>

definition reads_as :: "'a reader \<Rightarrow> 'a \<Rightarrow> string \<Rightarrow> bool" where
  "reads_as p x t =
     (t \<noteq> [] \<and> \<not> is_ws (hd t) \<and> hd t \<notin> {CHR '']'', CHR ''}''} \<and>
      (\<forall>sp r. list_all is_ws sp \<longrightarrow> delim r \<longrightarrow> p (sp @ t @ r) = Some (x, r)))"

definition json_denotes :: "json \<Rightarrow> string \<Rightarrow> bool" where
  "json_denotes v t = (\<forall>n \<ge> length t. reads_as (jval n) v t)"

lemma skip_ws_append [simp]: "list_all is_ws sp \<Longrightarrow> skip_ws (sp @ s) = skip_ws s"
  by (induction sp) (simp_all add: skip_ws_def)

lemma skip_ws_Cons [simp]: "\<not> is_ws c \<Longrightarrow> skip_ws (c # s) = c # s"
  by (simp add: skip_ws_def)

lemma jval_ws [simp]: "list_all is_ws sp \<Longrightarrow> jval n (sp @ s) = jval n s"
  by (cases n) (simp_all add: jval.simps)

lemma not_ws [simp]:
  "\<not> is_ws (CHR '','')" "\<not> is_ws (CHR '']'')" "\<not> is_ws (CHR ''}'')" "\<not> is_ws (CHR '':'')"
  "\<not> is_ws (CHR ''['')" "\<not> is_ws (CHR ''{'')" "\<not> is_ws DQ"
  by (simp_all add: is_ws_def)

lemma delim_simps [simp]:
  "delim []" "delim (CHR '','' # r)" "delim (CHR '']'' # r)" "delim (CHR ''}'' # r)"
  by (simp_all add: delim_def token_char_def ctype_defs)

lemma jlist_items:
  assumes "list_all2 (reads_as p) xs ts" "xs \<noteq> []" "list_all is_ws sp" "length xs \<le> n"
    and "close = CHR '']'' \<or> close = CHR ''}''"
  shows "list_all is_ws sp' \<Longrightarrow>
         jlist p close n (sp' @ join (CHR '','' # sp) ts @ close # r) = Some (xs, r)"
  using assms
proof (induction xs ts arbitrary: n sp' rule: list_all2_induct)
  case (Cons x xs t ts)
  then obtain m where n: "n = Suc m" by (cases n) auto
  have p: "p (sp' @ t @ q) = Some (x, q)" if "delim q" for q
    using Cons.hyps(1) Cons.prems(1) that by (simp add: reads_as_def)
  show ?case
  proof (cases xs)
    case Nil
    with Cons.hyps(2) have "ts = []" by simp
    with Nil n p [of "close # r"] Cons.prems show ?thesis
      by (auto simp: jlist.simps)
  next
    case tail: (Cons y ys)
    then obtain u us where ts: "ts = u # us"
      using Cons.hyps(2) by (cases ts) auto
    have "jlist p close m (sp @ join (CHR '','' # sp) ts @ close # r) = Some (xs, r)"
      using Cons.IH [of sp m] Cons.prems tail n by simp
    with n ts p [of "CHR '','' # sp @ join (CHR '','' # sp) ts @ close # r"] show ?thesis
      by (simp add: jlist.simps)
  qed
qed simp

lemma join_length_ge:
  "list_all (\<lambda>t. t \<noteq> []) ts \<Longrightarrow> length ts \<le> length (join sep ts)"
proof (induction sep ts rule: join.induct)
  case (3 sep x y ys)
  then have "1 \<le> length x" "length (y # ys) \<le> length (join sep (y # ys))"
    by (simp_all add: Suc_le_eq)
  then have "1 + length (y # ys) \<le> length x + length (join sep (y # ys))" by (rule add_mono)
  then show ?case by simp
qed (simp_all add: Suc_le_eq)

lemma jlist_body:
  assumes "list_all2 (reads_as p) xs ts" "xs \<noteq> []" "list_all is_ws sp"
    and "close = CHR '']'' \<or> close = CHR ''}''"
  obtains c b where "join (CHR '','' # sp) ts @ close # r = c # b"
    "\<not> is_ws c" "c \<noteq> CHR '']''" "c \<noteq> CHR ''}''"
    "jlist p close (Suc (length b)) (c # b) = Some (xs, r)"
proof -
  let ?body = "join (CHR '','' # sp) ts @ close # r"
  obtain x xs' t ts' where ts: "ts = t # ts'" "reads_as p x t"
    using assms(1,2) by (cases xs; cases ts) auto
  then obtain c t' where t: "t = c # t'" "\<not> is_ws c" "c \<noteq> CHR '']''" "c \<noteq> CHR ''}''"
    by (cases t) (auto simp: reads_as_def)
  obtain b where b: "?body = c # b"
    using ts(1) t(1) by (cases ts') auto
  have "list_all (\<lambda>t. t \<noteq> []) ts"
    using assms(1) by (induction rule: list_all2_induct) (auto simp: reads_as_def)
  from join_length_ge [OF this, of "CHR '','' # sp"] assms(1)
  have "length xs \<le> length ?body" by (simp add: list_all2_lengthD)
  from jlist_items [OF assms(1-3) this assms(4), of "[]" r] b
  have "jlist p close (Suc (length b)) (c # b) = Some (xs, r)" by simp
  with b t(2-4) show thesis by (rule that)
qed

lemma jval_array:
  assumes "list_all2 (reads_as (jval n)) vs ts" "list_all is_ws sp"
  shows "jval (Suc n) (CHR ''['' # join (CHR '','' # sp) ts @ CHR '']'' # r) = Some (JArr vs, r)"
proof (cases "vs = []")
  case True
  with assms show ?thesis by (simp add: jval.simps)
next
  case False
  from jlist_body [OF assms(1) False assms(2), of "CHR '']''" r]
  obtain c b where "join (CHR '','' # sp) ts @ CHR '']'' # r = c # b"
    "\<not> is_ws c" "c \<noteq> CHR '']''"
    "jlist (jval n) (CHR '']'') (Suc (length b)) (c # b) = Some (vs, r)" by blast
  then show ?thesis by (simp add: jval.simps)
qed

lemma jval_object:
  assumes "list_all2 (reads_as (jmember (jval n))) ms ts" "list_all is_ws sp"
  shows "jval (Suc n) (CHR ''{'' # join (CHR '','' # sp) ts @ CHR ''}'' # r) = Some (JObj ms, r)"
proof (cases "ms = []")
  case True
  with assms show ?thesis by (simp add: jval.simps)
next
  case False
  from jlist_body [OF assms(1) False assms(2), of "CHR ''}''" r]
  obtain c b where "join (CHR '','' # sp) ts @ CHR ''}'' # r = c # b"
    "\<not> is_ws c" "c \<noteq> CHR ''}''"
    "jlist (jmember (jval n)) (CHR ''}'') (Suc (length b)) (c # b) = Some (ms, r)" by blast
  then show ?thesis by (simp add: jval.simps)
qed

lemma join_length_mem: "t \<in> set ts \<Longrightarrow> length t \<le> length (join sep ts)"
  by (induction sep ts rule: join.induct) auto

text \<open>The texts of the writers: arrays, objects, strings, tokens.\<close>

lemma denotes_array:
  assumes "list_all2 json_denotes vs ts" "list_all is_ws sp"
  shows "json_denotes (JArr vs) (CHR ''['' # join (CHR '','' # sp) ts @ '']'')"
  unfolding json_denotes_def
proof (intro allI impI)
  fix n
  assume n: "length (CHR ''['' # join (CHR '','' # sp) ts @ '']'') \<le> n"
  then obtain m where m: "n = Suc m" "length (join (CHR '','' # sp) ts) \<le> m"
    by (cases n) auto
  have "list_all2 (reads_as (jval m)) vs ts"
    using assms(1) m(2) join_length_mem [of _ ts "CHR '','' # sp"]
    by (auto simp: list_all2_conv_all_nth json_denotes_def) (meson le_trans nth_mem)
  from jval_array [OF this assms(2)] m(1)
  show "reads_as (jval n) (JArr vs) (CHR ''['' # join (CHR '','' # sp) ts @ '']'')"
    by (simp add: reads_as_def)
qed

definition json_member :: "string \<Rightarrow> string \<Rightarrow> string \<Rightarrow> string" where
  "json_member k sp t = quoted (concat (map json_escape_char k)) @ CHR '':'' # sp @ t"

lemma member_reads:
  assumes "reads_as p v t" "list_all is_ws sp"
  shows "reads_as (jmember p) (k, v) (json_member k sp t)"
  using assms
  by (simp add: reads_as_def json_member_def quoted_def jmember_def json_text.scan_escaped)

lemma denotes_object:
  assumes "list_all2 (\<lambda>(k, v) m. \<exists>t. json_denotes v t \<and> m = json_member k sp t) ms ts"
    and "list_all is_ws sp"
  shows "json_denotes (JObj ms) (CHR ''{'' # join (CHR '','' # sp) ts @ ''}'')"
  unfolding json_denotes_def
proof (intro allI impI)
  fix n
  assume n: "length (CHR ''{'' # join (CHR '','' # sp) ts @ ''}'') \<le> n"
  then obtain m where m: "n = Suc m" "length (join (CHR '','' # sp) ts) \<le> m"
    by (cases n) auto
  have "list_all2 (reads_as (jmember (jval m))) ms ts"
    unfolding list_all2_conv_all_nth
  proof (intro conjI allI impI)
    show "length ms = length ts" using assms(1) by (rule list_all2_lengthD)
    fix i
    assume i: "i < length ms"
    obtain k v where kv: "ms ! i = (k, v)" by (cases "ms ! i")
    with assms(1) i obtain t where t: "json_denotes v t" "ts ! i = json_member k sp t"
      by (auto simp: list_all2_conv_all_nth)
    have "length (ts ! i) \<le> m"
      using m(2) i assms(1) join_length_mem [of "ts ! i" ts "CHR '','' # sp"]
      by (simp add: list_all2_lengthD)
    then have "length t \<le> m" by (simp add: t(2) json_member_def quoted_def)
    with t(1) have "reads_as (jval m) v t" by (simp add: json_denotes_def)
    then show "reads_as (jmember (jval m)) (ms ! i) (ts ! i)"
      using member_reads assms(2) by (simp add: kv t(2))
  qed
  from jval_object [OF this assms(2)] m(1)
  show "reads_as (jval n) (JObj ms) (CHR ''{'' # join (CHR '','' # sp) ts @ ''}'')"
    by (simp add: reads_as_def)
qed

lemma denotes_string: "json_denotes (JStr s) (quoted (concat (map json_escape_char s)))"
  unfolding json_denotes_def
proof (intro allI impI)
  fix n
  assume "length (quoted (concat (map json_escape_char s))) \<le> n"
  then obtain m where "n = Suc m" by (cases n) (auto simp: quoted_def)
  then show "reads_as (jval n) (JStr s) (quoted (concat (map json_escape_char s)))"
    by (simp add: reads_as_def quoted_def jval.simps json_text.scan_escaped)
qed

lemma token_not_special:
  "token_char c \<Longrightarrow> \<not> is_ws c \<and> c \<noteq> DQ \<and> c \<noteq> CHR ''['' \<and> c \<noteq> CHR ''{'' \<and> c \<noteq> CHR '']'' \<and> c \<noteq> CHR ''}''"
  by (auto simp: token_char_def is_ws_def ctype_defs)

lemma denotes_token:
  assumes "list_all token_char t" "t \<noteq> []" "jtoken t = Some v"
  shows "json_denotes v t"
  unfolding json_denotes_def
proof (intro allI impI)
  fix n
  assume "length t \<le> n"
  with assms(2) obtain m where n: "n = Suc m" by (cases n) auto
  obtain c t' where t: "t = c # t'" "token_char c" using assms(1,2) by (cases t) auto
  have split: "takeWhile token_char (t @ r) = t" "dropWhile token_char (t @ r) = r"
    if "delim r" for r
    using assms(1) that by (induction t) (auto simp: delim_def split: list.splits)
  show "reads_as (jval n) v t"
    using split t token_not_special [OF t(2)] assms(3)
    by (simp add: reads_as_def n jval.simps)
qed

lemma denotes_bool: "json_denotes (JBool b) (if b then ''true'' else ''false'')"
  by (cases b) (auto intro!: denotes_token simp: jtoken_def token_char_def ctype_defs)

text \<open>Integers are valid number tokens.\<close>

lemma dec_nat_no_leading_zero: "hd (dec_nat n) = CHR ''0'' \<Longrightarrow> n = 0"
proof (induction n rule: dec_nat.induct)
  case (1 n)
  show ?case
  proof (cases "n < 10")
    case True
    with 1 have "digit_char n = digit_char 0" by (subst (asm) dec_nat.simps) simp
    then show ?thesis using True code_digit_char [of n] code_digit_char [of 0] by simp
  next
    case False
    with 1 show ?thesis by (subst (asm) (2) dec_nat.simps) (simp add: hd_append)
  qed
qed

lemma dec_nat_all_digits: "all_digits (dec_nat n)"
  using dec_nat_digits by (auto simp: all_digits_def list_all_iff)

lemma valid_int_dec_nat: "valid_int (dec_nat n)"
  using dec_nat_no_leading_zero [of n]
  by (auto simp: valid_int_def dec_nat_all_digits dec_nat.simps [of 0])

lemma digits_takeWhile:
  "all_digits s \<Longrightarrow> takeWhile isdigit s = s \<and> dropWhile isdigit s = []"
  by (simp add: all_digits_def list_all_iff takeWhile_eq_all_conv [THEN iffD2]
      dropWhile_eq_Nil_conv [THEN iffD2])

lemma valid_unsigned_dec_nat: "valid_unsigned (dec_nat n)"
proof -
  have "takeWhile isdigit (dec_nat n) = dec_nat n" "dropWhile isdigit (dec_nat n) = []"
    using digits_takeWhile [OF dec_nat_all_digits, of n] by blast+
  then show ?thesis
    unfolding valid_unsigned_def Let_def by (simp only: valid_int_dec_nat list.case simp_thms)
qed

lemma dec_nat_Cons: "dec_nat n = c # cs \<Longrightarrow> isdigit c"
  using dec_nat_digits [of c n] by simp

lemma valid_number_dec_int: "valid_number (dec_int i)"
proof (cases "i < 0")
  case True
  then show ?thesis by (simp add: dec_int_def valid_number_def valid_unsigned_dec_nat)
next
  case False
  then show ?thesis
    using valid_unsigned_dec_nat [of "nat i"]
    by (cases "dec_nat (nat i)") (auto simp: dec_int_def valid_number_def)
qed

lemma token_digit: "isdigit c \<Longrightarrow> token_char c"
  by (simp add: token_char_def isalnum_def)

lemma dec_int_token: "list_all token_char (dec_int i)"
  using dec_nat_digits token_digit
  by (auto simp: dec_int_def list_all_iff) (auto simp: token_char_def)

lemma valid_number_not_word:
  "valid_number t \<Longrightarrow> t \<noteq> ''true'' \<and> t \<noteq> ''false'' \<and> t \<noteq> ''null''"
  by (auto simp: valid_number_def valid_unsigned_def valid_int_def all_digits_def isdigit_def)

lemma denotes_number:
  "valid_number t \<Longrightarrow> list_all token_char t \<Longrightarrow> json_denotes (JNum t) t"
  using valid_number_not_word [of t]
  by (intro denotes_token) (auto simp: jtoken_def valid_number_def)

lemma denotes_int: "json_denotes (JNum (dec_int i)) (dec_int i)"
  by (intro denotes_number valid_number_dec_int dec_int_token)

text \<open>What the writers' correctness comes down to.\<close>

lemma denotes_read: "json_denotes v t \<Longrightarrow> json_read t = Some v"
proof -
  assume "json_denotes v t"
  then have "reads_as (jval (length t)) v t" by (simp add: json_denotes_def)
  then have "jval (length t) ([] @ t @ []) = Some (v, [])"
    unfolding reads_as_def by (elim conjE allE [of _ "[]"]) simp
  then show ?thesis by (simp add: json_read_def skip_ws_def)
qed

end
