(* ===== verification/FloatText.thy ===== *)
theory FloatText
  imports Records Json
begin

text \<open>
  Stream output of a finite double with a given precision
  (\<open>std::setprecision(p) << value\<close>, that is \<open>%.pg\<close>): \<open>p\<close> significant decimal
  digits, correctly rounded, trailing zeros removed, scientific notation for
  exponents below -4 or at least \<open>p\<close>.  The exact binary value is the fraction
  \<open>f64_fraction_of\<close>.
\<close>

definition strip_zeros :: "string \<Rightarrow> string" where
  "strip_zeros s = rev (dropWhile (\<lambda>c. c = CHR ''0'') (rev s))"

definition with_fraction :: "string \<Rightarrow> string \<Rightarrow> string" where
  "with_fraction i f = (if strip_zeros f = [] then i else i @ CHR ''.'' # strip_zeros f)"

text \<open>The exponent of the leading decimal digit of \<open>n / d\<close>.\<close>

definition decimal_exponent :: "nat \<Rightarrow> nat \<Rightarrow> int" where
  "decimal_exponent n d =
     (if d \<le> n then int (length (dec_nat (n div d))) - 1
      else - int (length (dec_nat ((d - 1) div n))))"

text \<open>\<open>n / d\<close> as a \<open>p\<close>-digit mantissa and an exponent.\<close>

definition scaled :: "nat \<Rightarrow> nat \<Rightarrow> nat \<Rightarrow> nat \<times> int" where
  "scaled p n d =
     (let x = decimal_exponent n d; k = x - (int p - 1);
          m = (if 0 \<le> k then round_div_even n (d * 10 ^ nat k) else round_div_even (n * 10 ^ nat (- k)) d)
      in if m = 10 ^ p then (10 ^ (p - 1), x + 1) else (m, x))"

definition print_digits :: "nat \<Rightarrow> string \<Rightarrow> int \<Rightarrow> string" where
  "print_digits p ds x =
     (if - 4 \<le> x \<and> x < int p then
        (if 0 \<le> x then with_fraction (take (nat x + 1) ds) (drop (nat x + 1) ds)
         else with_fraction ''0'' (replicate (nat (- x - 1)) (CHR ''0'') @ ds))
      else with_fraction [hd ds] (tl ds) @ CHR ''e'' # (if x < 0 then CHR ''-'' else CHR ''+'') #
             pad_left (CHR ''0'') 2 (dec_nat (nat \<bar>x\<bar>)))"

definition print_g :: "nat \<Rightarrow> f64 \<Rightarrow> string" where
  "print_g p v =
     (let (n, d) = f64_fraction_of v
      in (if f64_sign v then ''-'' else []) @
         (if n = 0 then ''0'' else (case scaled p n d of (m, x) \<Rightarrow> print_digits p (dec_nat m) x)))"

section \<open>The text is a JSON number\<close>

lemma strip_zeros_sub: "set (strip_zeros s) \<subseteq> set s"
  by (auto simp: strip_zeros_def dest: set_dropWhileD)

lemma strip_zeros_digits: "list_all isdigit s \<Longrightarrow> list_all isdigit (strip_zeros s)"
  using strip_zeros_sub [of s] by (auto simp: list_all_iff)

text \<open>An integer part, an optional fraction and an optional exponent make a number.\<close>

lemma digits_span:
  "list_all isdigit f \<Longrightarrow> r = [] \<or> \<not> isdigit (hd r) \<Longrightarrow> takeWhile isdigit (f @ r) = f \<and> dropWhile isdigit (f @ r) = r"
  by (induction f) (cases r; auto)+

lemma not_digit_chars [simp]: "\<not> isdigit (CHR ''.'')" "\<not> isdigit (CHR ''e'')"
  by (simp_all add: isdigit_def)

lemma valid_unsigned_parts:
  assumes "valid_int i" "list_all isdigit f" "valid_exponent e" "e = [] \<or> hd e = CHR ''e''"
  shows "valid_unsigned (with_fraction i f @ e)"
proof -
  have i: "list_all isdigit i" using assms(1) by (simp add: valid_int_def all_digits_def)
  have e: "e = [] \<or> \<not> isdigit (hd e)" using assms(4) by auto
  show ?thesis
  proof (cases "strip_zeros f = []")
    case True
    with digits_span [OF i e] assms show ?thesis
      by (auto simp: with_fraction_def valid_unsigned_def Let_def split: list.split)
  next
    case False
    let ?r = "CHR ''.'' # strip_zeros f @ e"
    have "takeWhile isdigit (i @ ?r) = i" "dropWhile isdigit (i @ ?r) = ?r"
      using digits_span [OF i, of ?r] by auto
    moreover have "takeWhile isdigit (strip_zeros f @ e) = strip_zeros f"
      "dropWhile isdigit (strip_zeros f @ e) = e"
      using digits_span [OF strip_zeros_digits [OF assms(2)] e] by auto
    ultimately show ?thesis
      using False assms by (simp add: with_fraction_def valid_unsigned_def Let_def)
  qed
qed

lemma valid_int_take: "valid_int (take (Suc k) (dec_nat n))"
proof (cases "n = 0")
  case True
  then show ?thesis by (simp add: dec_nat.simps [of 0] valid_int_def all_digits_def isdigit_def)
next
  case False
  then have "hd (dec_nat n) \<noteq> CHR ''0''" using dec_nat_no_leading_zero by blast
  moreover have "hd (take (Suc k) (dec_nat n)) = hd (dec_nat n)" by (cases "dec_nat n") auto
  moreover have "list_all isdigit (take (Suc k) (dec_nat n))"
    using dec_nat_digits by (auto simp: list_all_iff dest: in_set_takeD)
  ultimately show ?thesis by (simp add: valid_int_def all_digits_def)
qed

lemma dec_nat_list_all: "list_all isdigit (dec_nat n)"
  using dec_nat_all_digits by (simp add: all_digits_def)

lemma exponent_valid:
  "valid_exponent (CHR ''e'' # (if x < 0 then CHR ''-'' else CHR ''+'') # pad_left (CHR ''0'') 2 (dec_nat k))"
proof -
  have "all_digits (pad_left (CHR ''0'') 2 (dec_nat k))"
    using dec_nat_list_all [of k]
    by (auto simp: pad_left_def all_digits_def list_all_iff isdigit_def)
  then show ?thesis by (simp add: valid_exponent_def)
qed

lemma print_digits_valid: "valid_unsigned (print_digits p (dec_nat m) x)"
proof -
  have digits: "list_all isdigit (drop k (dec_nat m))" "list_all isdigit (tl (dec_nat m))"
    "list_all isdigit (replicate k (CHR ''0'') @ dec_nat m)" for k
    using dec_nat_list_all [of m]
    by (auto simp: list_all_iff isdigit_def dest: in_set_dropD list.set_sel(2) [rotated])
  have one: "[hd (dec_nat m)] = take (Suc 0) (dec_nat m)" by (cases "dec_nat m") auto
  have zero: "valid_int ''0''" by (simp add: valid_int_def all_digits_def isdigit_def)
  consider "- 4 \<le> x \<and> x < int p \<and> 0 \<le> x" | "- 4 \<le> x \<and> x < int p \<and> \<not> 0 \<le> x"
    | "\<not> (- 4 \<le> x \<and> x < int p)" by blast
  then show ?thesis
  proof cases
    case 1
    with valid_unsigned_parts [OF valid_int_take [of "nat x" m] digits(1), of "[]" "nat x + 1"]
    show ?thesis by (simp add: print_digits_def valid_exponent_def)
  next
    case 2
    with valid_unsigned_parts [OF zero digits(3) [of "nat (- x - 1)"], of "[]"]
    show ?thesis by (simp add: print_digits_def valid_exponent_def)
  next
    case 3
    with valid_unsigned_parts [OF valid_int_take [of 0 m] digits(2) exponent_valid [of x "nat \<bar>x\<bar>"]]
    show ?thesis unfolding print_digits_def one by (simp only: if_False list.sel simp_thms)
  qed
qed

lemma digits_token: "list_all isdigit s \<Longrightarrow> list_all token_char s"
  by (auto simp: list_all_iff token_digit)

lemma token_specials [simp]:
  "token_char (CHR ''.'')" "token_char (CHR ''e'')" "token_char (CHR ''+'')" "token_char (CHR ''-'')"
  "token_char (CHR ''0'')"
  by (simp_all add: token_char_def ctype_defs)

lemma with_fraction_token:
  "list_all isdigit i \<Longrightarrow> list_all isdigit f \<Longrightarrow> list_all token_char (with_fraction i f)"
  using digits_token [of i] digits_token [OF strip_zeros_digits [of f]]
  by (simp add: with_fraction_def)

lemma print_digits_token: "list_all token_char (print_digits p (dec_nat m) x)"
proof -
  have d: "list_all isdigit (dec_nat m)" by (rule dec_nat_list_all)
  then have "list_all isdigit (take k (dec_nat m))" "list_all isdigit (drop k (dec_nat m))"
    "list_all isdigit (tl (dec_nat m))" "isdigit (hd (dec_nat m))"
    "list_all isdigit (replicate k (CHR ''0'') @ dec_nat m)" for k
    by (auto simp: list_all_iff isdigit_def dest: in_set_takeD in_set_dropD list.set_sel(2) [rotated])
  moreover have "list_all token_char (pad_left (CHR ''0'') 2 (dec_nat k))" for k
    using digits_token [OF dec_nat_list_all [of k]] by (auto simp: pad_left_def list_all_iff)
  moreover have "isdigit (CHR ''0'')" by (simp add: isdigit_def)
  ultimately show ?thesis
    unfolding print_digits_def by (simp add: with_fraction_token)
qed

lemma valid_unsigned_hd: "valid_unsigned s \<Longrightarrow> s \<noteq> [] \<and> hd s \<noteq> CHR ''-''"
  by (cases s) (auto simp: valid_unsigned_def valid_int_def all_digits_def Let_def split: if_splits)

lemma valid_number_signed: "valid_unsigned s \<Longrightarrow> valid_number ((if b then ''-'' else []) @ s)"
  using valid_unsigned_hd [of s] by (cases s) (auto simp: valid_number_def)

lemma print_g_token: "list_all token_char (print_g p v)"
  using print_digits_token by (auto simp: print_g_def split: prod.split)

lemma denotes_print_g: "json_denotes (JNum (print_g p v)) (print_g p v)"
proof -
  obtain n d where nd: "f64_fraction_of v = (n, d)" by force
  obtain m x where mx: "scaled p n d = (m, x)" by force
  let ?u = "if n = 0 then ''0'' else print_digits p (dec_nat m) x"
  have u: "print_g p v = (if f64_sign v then ''-'' else []) @ ?u" by (simp add: print_g_def nd mx)
  have "valid_unsigned ?u"
    using print_digits_valid valid_unsigned_dec_nat [of 0] by (simp add: dec_nat.simps [of 0])
  then have "valid_number (print_g p v)" unfolding u by (rule valid_number_signed)
  then show ?thesis using print_g_token by (rule denotes_number)
qed

end
