(* ===== verification/Prometheus.thy ===== *)
theory Prometheus
  imports FloatText ILogger
begin

text \<open>
  The Prometheus side: the text exposition serializer
  (\<open>prometheus/PrometheusTextSerializer.hpp\<close>), the builders and the registry of
  callbacks, the built-in metrics and the payload logger.  User callbacks are
  arguments: a callback that throws answers \<open>None\<close>.
\<close>

section \<open>Data\<close>

datatype PrometheusMetricType = Counter | Gauge | Untyped

record PrometheusLabel =
  pl_name :: string
  pl_value :: string

record PrometheusSample =
  ps_name :: string
  ps_value :: f64
  ps_labels :: "PrometheusLabel list"
  ps_timestamp_ms :: int

record PrometheusMetricFamily =
  pf_name :: string
  pf_help :: string
  pf_type :: PrometheusMetricType
  pf_samples :: "PrometheusSample list"

record PrometheusTextFormatConfig =
  pt_include_help :: bool
  pt_include_type :: bool
  pt_include_timestamp :: bool
  pt_metric_prefix :: string
  pt_const_labels :: "PrometheusLabel list"
  pt_include_logger_label :: bool
  pt_logger_label_name :: string
  pt_include_instance_label :: bool
  pt_instance_label_name :: string
  pt_instance_label_value :: string
  pt_include_build_info :: bool

definition PrometheusTextFormatConfig_default :: PrometheusTextFormatConfig where
  "PrometheusTextFormatConfig_default =
     \<lparr>pt_include_help = True, pt_include_type = True, pt_include_timestamp = False,
      pt_metric_prefix = ''logit_'', pt_const_labels = [], pt_include_logger_label = True,
      pt_logger_label_name = ''logger'', pt_include_instance_label = False,
      pt_instance_label_name = ''instance'', pt_instance_label_value = [],
      pt_include_build_info = True\<rparr>"

definition make_prometheus_label :: "string \<Rightarrow> string \<Rightarrow> PrometheusLabel" where
  "make_prometheus_label name text = \<lparr>pl_name = name, pl_value = text\<rparr>"

definition make_prometheus_sample :: "string \<Rightarrow> f64 \<Rightarrow> PrometheusLabel list \<Rightarrow> int \<Rightarrow> PrometheusSample" where
  "make_prometheus_sample name v labels timestamp_ms =
     \<lparr>ps_name = name, ps_value = v, ps_labels = labels, ps_timestamp_ms = timestamp_ms\<rparr>"

text \<open>The counter, gauge and untyped builders differ only in the type they set.\<close>

definition make_prometheus_family ::
  "PrometheusMetricType \<Rightarrow> string \<Rightarrow> string \<Rightarrow> f64 \<Rightarrow> PrometheusLabel list \<Rightarrow> PrometheusMetricFamily" where
  "make_prometheus_family type name help v labels =
     \<lparr>pf_name = name, pf_help = help, pf_type = type,
      pf_samples = [make_prometheus_sample name v labels 0]\<rparr>"

definition make_prometheus_counter where
  "make_prometheus_counter = make_prometheus_family Counter"

definition make_prometheus_gauge where
  "make_prometheus_gauge = make_prometheus_family Gauge"

definition make_prometheus_untyped where
  "make_prometheus_untyped = make_prometheus_family Untyped"

section \<open>Text exposition\<close>

definition help_escape_char :: "char \<Rightarrow> string" where
  "help_escape_char c = (if c = BS then [BS, BS] else if c = CHR 0x0A then [BS, CHR ''n''] else [c])"

definition prometheus_escape_help :: "string \<Rightarrow> string" where
  "prometheus_escape_help text = concat (map help_escape_char text)"

definition label_escape_char :: "char \<Rightarrow> string" where
  "label_escape_char c =
     (if c = BS then [BS, BS] else if c = DQ then [BS, DQ]
      else if c = CHR 0x0A then [BS, CHR ''n''] else [c])"

definition prometheus_escape_label_value :: "string \<Rightarrow> string" where
  "prometheus_escape_label_value text = concat (map label_escape_char text)"

definition metric_first :: "char \<Rightarrow> bool" where
  "metric_first c = (isalpha c \<or> c = CHR ''_'' \<or> c = CHR '':'')"

definition metric_char :: "char \<Rightarrow> bool" where
  "metric_char c = (isalnum c \<or> c = CHR ''_'' \<or> c = CHR '':'')"

definition label_first :: "char \<Rightarrow> bool" where
  "label_first c = (isalpha c \<or> c = CHR ''_'')"

definition label_char :: "char \<Rightarrow> bool" where
  "label_char c = (isalnum c \<or> c = CHR ''_'')"

definition sanitize_with :: "(char \<Rightarrow> bool) \<Rightarrow> (char \<Rightarrow> bool) \<Rightarrow> string \<Rightarrow> string" where
  "sanitize_with first_ok rest_ok name =
     (case name of
        [] \<Rightarrow> ''_''
      | c # cs \<Rightarrow> (if first_ok c then c else CHR ''_'') # map (\<lambda>c. if rest_ok c then c else CHR ''_'') cs)"

definition prometheus_sanitize_metric_name :: "string \<Rightarrow> string" where
  "prometheus_sanitize_metric_name = sanitize_with metric_first metric_char"

definition prometheus_sanitize_label_name :: "string \<Rightarrow> string" where
  "prometheus_sanitize_label_name = sanitize_with label_first label_char"

definition prometheus_format_value :: "f64 \<Rightarrow> string" where
  "prometheus_format_value v =
     (if isnan v then ''NaN''
      else if isinf v then (if \<not> f64_sign v then ''+Inf'' else ''-Inf'')
      else print_g 17 v)"

definition metric_type_name :: "PrometheusMetricType \<Rightarrow> string" where
  "metric_type_name type =
     (case type of Counter \<Rightarrow> ''counter'' | Gauge \<Rightarrow> ''gauge'' | Untyped \<Rightarrow> ''untyped'')"

definition prometheus_label_text :: "PrometheusLabel \<Rightarrow> string" where
  "prometheus_label_text l =
     prometheus_sanitize_label_name (pl_name l) @ [CHR ''='', DQ] @
     prometheus_escape_label_value (pl_value l) @ [DQ]"

definition prometheus_write_sample :: "PrometheusTextFormatConfig \<Rightarrow> PrometheusSample \<Rightarrow> string" where
  "prometheus_write_sample config sample =
     (let merged = pt_const_labels config @ ps_labels sample
      in prometheus_sanitize_metric_name (ps_name sample) @
         (if merged \<noteq> [] then ''{'' @ join '','' (map prometheus_label_text merged) @ ''}'' else []) @
         '' '' @ prometheus_format_value (ps_value sample) @
         (if pt_include_timestamp config \<and> ps_timestamp_ms sample \<noteq> 0
          then '' '' @ dec_int (ps_timestamp_ms sample) else []) @
         [CHR 0x0A])"

definition prometheus_write_metric_family ::
  "PrometheusTextFormatConfig \<Rightarrow> PrometheusMetricFamily \<Rightarrow> string" where
  "prometheus_write_metric_family config family =
     (let safe_name = prometheus_sanitize_metric_name (pf_name family)
      in (if pt_include_help config \<and> pf_help family \<noteq> []
          then ''# HELP '' @ safe_name @ '' '' @ prometheus_escape_help (pf_help family) @ [CHR 0x0A] else []) @
         (if pt_include_type config
          then ''# TYPE '' @ safe_name @ '' '' @ metric_type_name (pf_type family) @ [CHR 0x0A] else []) @
         concat (map (prometheus_write_sample config) (pf_samples family)))"

definition build_prometheus_text_payload ::
  "PrometheusMetricFamily list \<Rightarrow> PrometheusTextFormatConfig \<Rightarrow> string" where
  "build_prometheus_text_payload families config =
     concat (map (prometheus_write_metric_family config) families)"

section \<open>Registry\<close>

record 'fn prometheus_entry =
  pe_type :: PrometheusMetricType
  pe_name :: string
  pe_help :: string
  pe_value_fn :: 'fn
  pe_labels :: "PrometheusLabel list"

record 'fn PrometheusRegistry =
  pr_metric_prefix :: string
  pr_entries :: "'fn prometheus_entry list"

definition labels_equal :: "PrometheusLabel list \<Rightarrow> PrometheusLabel list \<Rightarrow> bool" where
  "labels_equal lhs rhs =
     (length lhs = length rhs \<and>
      list_all (\<lambda>(a, b). pl_name a = pl_name b \<and> pl_value a = pl_value b) (zip lhs rhs))"

fun set_entry :: "'fn prometheus_entry \<Rightarrow> 'fn prometheus_entry list \<Rightarrow> 'fn prometheus_entry list" where
  "set_entry new [] = [new]"
| "set_entry new (e # es) =
     (if pe_name e = pe_name new \<and> labels_equal (pe_labels e) (pe_labels new)
      then new # es else e # set_entry new es)"

definition set_metric :: "PrometheusMetricType \<Rightarrow> string \<Rightarrow> string \<Rightarrow> 'fn \<Rightarrow> PrometheusLabel list
   \<Rightarrow> 'fn PrometheusRegistry \<Rightarrow> 'fn PrometheusRegistry" where
  "set_metric type name help value_fn labels r =
     r\<lparr>pr_entries := set_entry
         \<lparr>pe_type = type, pe_name = name, pe_help = help, pe_value_fn = value_fn, pe_labels = labels\<rparr>
         (pr_entries r)\<rparr>"

definition set_gauge where
  "set_gauge name help value_fn labels r = set_metric Gauge name help value_fn labels r"

definition set_counter where
  "set_counter name help value_fn labels r = set_metric Counter name help value_fn labels r"

definition set_metric_prefix :: "string \<Rightarrow> 'fn PrometheusRegistry \<Rightarrow> 'fn PrometheusRegistry" where
  "set_metric_prefix metric_prefix r = r\<lparr>pr_metric_prefix := metric_prefix\<rparr>"

text \<open>Append a sample to the family of that name and type, creating it at the end if needed.\<close>

fun add_to_family :: "string \<Rightarrow> string \<Rightarrow> PrometheusMetricType \<Rightarrow> PrometheusSample
   \<Rightarrow> PrometheusMetricFamily list \<Rightarrow> PrometheusMetricFamily list" where
  "add_to_family name help type sample [] =
     [\<lparr>pf_name = name, pf_help = help, pf_type = type, pf_samples = [sample]\<rparr>]"
| "add_to_family name help type sample (f # fs) =
     (if pf_name f = name \<and> pf_type f = type
      then f\<lparr>pf_samples := pf_samples f @ [sample]\<rparr> # fs
      else f # add_to_family name help type sample fs)"

text \<open>\<open>call\<close> runs a callback; the second result tells that some callback threw.\<close>

fun collect_entries :: "('fn \<Rightarrow> f64 option) \<Rightarrow> string \<Rightarrow> 'fn prometheus_entry list
   \<Rightarrow> PrometheusMetricFamily list \<Rightarrow> PrometheusMetricFamily list \<times> bool" where
  "collect_entries call pre [] collected = (collected, False)"
| "collect_entries call pre (e # es) collected =
     (case call (pe_value_fn e) of
        None \<Rightarrow> (fst (collect_entries call pre es collected), True)
      | Some v \<Rightarrow>
          collect_entries call pre es
            (add_to_family (pre @ pe_name e) (pe_help e) (pe_type e)
               (make_prometheus_sample (pre @ pe_name e) v (pe_labels e) 0) collected))"

definition registry_collect :: "('fn \<Rightarrow> f64 option) \<Rightarrow> 'fn PrometheusRegistry
   \<Rightarrow> PrometheusMetricFamily list \<Rightarrow> PrometheusMetricFamily list \<times> bool" where
  "registry_collect call r out =
     (case collect_entries call (pr_metric_prefix r) (pr_entries r) [] of
        (collected, threw) \<Rightarrow> (out @ collected, threw))"

section \<open>Integers as doubles\<close>

text \<open>
  \<open>static_cast<double>\<close> of an integer: the nearest double, ties to the even
  mantissa.  \<open>e\<close> is the position of the leading bit; above 52 the low bits are
  rounded away (a carry out of the mantissa moves into the exponent field).
\<close>

fun bit_length :: "nat \<Rightarrow> nat" where
  "bit_length n = (if n = 0 then 0 else Suc (bit_length (n div 2)))"

declare bit_length.simps [simp del]

definition round_half_even :: "nat \<Rightarrow> nat \<Rightarrow> nat" where
  "round_half_even n d =
     (let q = n div d; r = n mod d
      in if 2 * r < d then q else if d < 2 * r then q + 1 else if even q then q else q + 1)"

definition double_of_nat :: "nat \<Rightarrow> f64" where
  "double_of_nat n =
     (if n = 0 then 0
      else let e = bit_length n - 1;
               m = (if e \<le> 52 then n * 2 ^ (52 - e) else round_half_even n (2 ^ (e - 52)))
           in of_nat ((e + 1023) * 2 ^ 52 + (m - 2 ^ 52)))"

definition double_of_int :: "int \<Rightarrow> f64" where
  "double_of_int i = (if i < 0 then double_of_nat (nat (- i)) + 2 ^ 63 else double_of_nat (nat i))"

lemma double_of_nat_examples:
  "double_of_nat 1 = 0x3FF0000000000000" "double_of_nat 3 = 0x4008000000000000"
  "double_of_nat (2 ^ 53 + 1) = 0x4340000000000000" "double_of_nat (2 ^ 53 + 3) = 0x4340000000000002"
  "double_of_nat (2 ^ 64 - 1) = 0x43F0000000000000"
  by (simp_all add: double_of_nat_def bit_length.simps round_half_even_def Let_def)

section \<open>Built-in metrics\<close>

record PrometheusLoggerMetrics =
  pm_log_records_total :: u64
  pm_dropped :: u64
  pm_failed_exports :: u64
  pm_last_log_ts :: int

definition PrometheusLoggerMetrics_init :: PrometheusLoggerMetrics where
  "PrometheusLoggerMetrics_init =
     \<lparr>pm_log_records_total = 0, pm_dropped = 0, pm_failed_exports = 0, pm_last_log_ts = 0\<rparr>"

definition pm_on_log :: "int \<Rightarrow> PrometheusLoggerMetrics \<Rightarrow> PrometheusLoggerMetrics" where
  "pm_on_log timestamp_ms m =
     m\<lparr>pm_last_log_ts := timestamp_ms, pm_log_records_total := pm_log_records_total m + 1\<rparr>"

definition pm_add_dropped :: "u64 \<Rightarrow> PrometheusLoggerMetrics \<Rightarrow> PrometheusLoggerMetrics" where
  "pm_add_dropped n m = m\<lparr>pm_dropped := pm_dropped m + n\<rparr>"

definition pm_add_failed_export :: "u64 \<Rightarrow> PrometheusLoggerMetrics \<Rightarrow> PrometheusLoggerMetrics" where
  "pm_add_failed_export n m = m\<lparr>pm_failed_exports := pm_failed_exports m + n\<rparr>"

definition pm_time_since_last_log_ms :: "int \<Rightarrow> PrometheusLoggerMetrics \<Rightarrow> int" where
  "pm_time_since_last_log_ms now_ms m =
     (let last = pm_last_log_ts m
      in if last \<le> 0 then 0 else if last < now_ms then now_ms - last else 0)"

definition pm_counter_to_int64 :: "u64 \<Rightarrow> int" where
  "pm_counter_to_int64 n = (if 2 ^ 63 - 1 < unat n then 2 ^ 63 - 1 else int (unat n))"

definition add_common_labels ::
  "PrometheusTextFormatConfig \<Rightarrow> string \<Rightarrow> PrometheusLabel list \<Rightarrow> PrometheusLabel list" where
  "add_common_labels config logger_name labels =
     labels @
     (if pt_include_logger_label config
      then [make_prometheus_label (pt_logger_label_name config) logger_name] else []) @
     (if pt_include_instance_label config
      then [make_prometheus_label (pt_instance_label_name config) (pt_instance_label_value config)] else [])"

text \<open>
  One block of \<open>build_builtin_metrics\<close>; version and compiler of the build are the
  two labels of the information metric.
\<close>

definition builtin_family :: "PrometheusTextFormatConfig \<Rightarrow> string \<Rightarrow> PrometheusMetricType \<Rightarrow> string
   \<Rightarrow> string \<Rightarrow> f64 \<Rightarrow> PrometheusLabel list \<Rightarrow> PrometheusMetricFamily" where
  "builtin_family config logger_name type name help v labels =
     (let full = pt_metric_prefix config @ name
      in \<lparr>pf_name = full, pf_help = help, pf_type = type,
          pf_samples = [make_prometheus_sample full v (add_common_labels config logger_name labels) 0]\<rparr>)"

definition build_builtin_metrics :: "string \<Rightarrow> string \<Rightarrow> PrometheusTextFormatConfig \<Rightarrow> string \<Rightarrow> int
   \<Rightarrow> PrometheusLoggerMetrics \<Rightarrow> PrometheusMetricFamily list" where
  "build_builtin_metrics version compiler config logger_name now_ms m =
     (let family = builtin_family config logger_name
      in [family Counter ''log_records_total'' ''Total number of log records processed''
            (double_of_nat (unat (pm_log_records_total m))) [],
          family Counter ''dropped_logs_total'' ''Total number of dropped log records''
            (double_of_nat (unat (pm_dropped m))) [],
          family Counter ''failed_exports_total'' ''Total number of failed export attempts''
            (double_of_nat (unat (pm_failed_exports m))) [],
          family Gauge ''last_log_timestamp_ms'' ''Timestamp of the last log record in milliseconds''
            (double_of_int (pm_last_log_ts m)) [],
          family Gauge ''time_since_last_log_ms'' ''Milliseconds since the last log record''
            (double_of_int (pm_time_since_last_log_ms now_ms m)) []] @
         (if pt_include_build_info config
          then [family Gauge ''build_info'' ''Build information for logit-cpp'' 0x3FF0000000000000
                  [make_prometheus_label ''version'' version, make_prometheus_label ''compiler'' compiler]]
          else []))"

section \<open>The payload logger\<close>

text \<open>
  The callbacks of the configuration: \<open>on_collect\<close> maps the families to the
  families it leaves behind and whether it returned normally; \<open>on_payload\<close>
  tells whether it returned normally.  \<open>None\<close> is an empty \<open>std::function\<close>.
  \<open>pp_payloads\<close> lists the texts handed to \<open>on_payload\<close>.
\<close>

record PrometheusPayload_Config =
  pq_format :: PrometheusTextFormatConfig
  pq_on_payload :: "(string \<Rightarrow> bool) option"
  pq_on_collect :: "(PrometheusMetricFamily list \<Rightarrow> PrometheusMetricFamily list \<times> bool) option"
  pq_emit_on_log :: bool
  pq_emit_on_wait :: bool

record PrometheusPayloadLogger =
  pp_config :: PrometheusPayload_Config
  pp_metrics :: PrometheusLoggerMetrics
  pp_log_level :: LogLevel
  pp_payloads :: "string list"

definition PrometheusPayloadLogger_init :: "PrometheusPayload_Config \<Rightarrow> PrometheusPayloadLogger" where
  "PrometheusPayloadLogger_init config =
     \<lparr>pp_config = config, pp_metrics = PrometheusLoggerMetrics_init, pp_log_level = LOG_LVL_TRACE,
      pp_payloads = []\<rparr>"

definition collect_payload :: "string \<Rightarrow> string \<Rightarrow> int \<Rightarrow> PrometheusPayloadLogger
   \<Rightarrow> string \<times> PrometheusPayloadLogger" where
  "collect_payload version compiler now_ms s =
     (let config = pp_config s;
          families = build_builtin_metrics version compiler (pq_format config) ''prometheus_payload'' now_ms
            (pp_metrics s);
          (families, s) = (case pq_on_collect config of
             None \<Rightarrow> (families, s)
           | Some f \<Rightarrow>
               (case f families of (families', ok) \<Rightarrow>
                  (families', if ok then s
                              else s\<lparr>pp_metrics := pm_add_failed_export 1 (pp_metrics s)\<rparr>)))
      in (build_prometheus_text_payload families (pq_format config), s))"

definition emit_payload :: "string \<Rightarrow> string \<Rightarrow> int \<Rightarrow> bool \<Rightarrow> PrometheusPayloadLogger
   \<Rightarrow> PrometheusPayloadLogger" where
  "emit_payload version compiler now_ms enabled s =
     (case pq_on_payload (pp_config s) of
        None \<Rightarrow> s
      | Some f \<Rightarrow>
          if enabled then
            (case collect_payload version compiler now_ms s of
               (payload, s1) \<Rightarrow>
                 let s2 = s1\<lparr>pp_payloads := pp_payloads s1 @ [payload]\<rparr>
                 in if f payload then s2
                    else s2\<lparr>pp_metrics := pm_add_failed_export 1 (pp_metrics s2)\<rparr>)
          else s)"

definition PrometheusPayloadLogger_log :: "string \<Rightarrow> string \<Rightarrow> int \<Rightarrow> LogRecord \<Rightarrow> string
   \<Rightarrow> PrometheusPayloadLogger \<Rightarrow> PrometheusPayloadLogger" where
  "PrometheusPayloadLogger_log version compiler now_ms record message s =
     emit_payload version compiler now_ms (pq_emit_on_log (pp_config s))
       (s\<lparr>pp_metrics := pm_on_log (lr_timestamp_ms record) (pp_metrics s)\<rparr>)"

definition PrometheusPayloadLogger_wait :: "string \<Rightarrow> string \<Rightarrow> int
   \<Rightarrow> PrometheusPayloadLogger \<Rightarrow> PrometheusPayloadLogger" where
  "PrometheusPayloadLogger_wait version compiler now_ms s =
     emit_payload version compiler now_ms (pq_emit_on_wait (pp_config s)) s"

definition prometheus_get_string_param :: "int \<Rightarrow> LoggerParam \<Rightarrow> PrometheusPayloadLogger \<Rightarrow> string" where
  "prometheus_get_string_param now_ms param s =
     (case param of
        LastLogTimestamp \<Rightarrow> dec_int (pm_last_log_ts (pp_metrics s))
      | TimeSinceLastLog \<Rightarrow> dec_int (pm_time_since_last_log_ms now_ms (pp_metrics s))
      | DroppedLogCount \<Rightarrow> dec_nat (unat (pm_dropped (pp_metrics s)))
      | FailedExportCount \<Rightarrow> dec_nat (unat (pm_failed_exports (pp_metrics s)))
      | _ \<Rightarrow> [])"

definition prometheus_get_int_param :: "int \<Rightarrow> LoggerParam \<Rightarrow> PrometheusPayloadLogger \<Rightarrow> int" where
  "prometheus_get_int_param now_ms param s =
     (case param of
        LastLogTimestamp \<Rightarrow> pm_last_log_ts (pp_metrics s)
      | TimeSinceLastLog \<Rightarrow> pm_time_since_last_log_ms now_ms (pp_metrics s)
      | DroppedLogCount \<Rightarrow> pm_counter_to_int64 (pm_dropped (pp_metrics s))
      | FailedExportCount \<Rightarrow> pm_counter_to_int64 (pm_failed_exports (pp_metrics s))
      | _ \<Rightarrow> 0)"

definition prometheus_ilogger :: "string \<Rightarrow> string \<Rightarrow> int \<Rightarrow> PrometheusPayloadLogger ILogger" where
  "prometheus_ilogger version compiler now_ms =
     \<lparr>il_log = PrometheusPayloadLogger_log version compiler now_ms,
      il_supports_concurrent_log = (\<lambda>_. False),
      il_get_string_param = prometheus_get_string_param now_ms,
      il_get_int_param = prometheus_get_int_param now_ms,
      il_set_log_level = (\<lambda>level s. s\<lparr>pp_log_level := level\<rparr>),
      il_get_log_level = pp_log_level,
      il_get_buffered_strings = ILogger_get_buffered,
      il_get_buffered_entries = ILogger_get_buffered,
      il_list_log_files = ILogger_list_log_files,
      il_read_log_file = ILogger_read_log_file,
      il_clear_logs = ILogger_clear_logs,
      il_wait = PrometheusPayloadLogger_wait version compiler now_ms,
      il_shutdown = (\<lambda>s. s)\<rparr>"

lemma emit_level [simp]: "pp_log_level (emit_payload version compiler now_ms enabled s) = pp_log_level s"
  by (auto simp: emit_payload_def collect_payload_def Let_def split: option.splits prod.splits)

interpretation prometheus_level: levelled_logger "prometheus_ilogger version compiler now_ms"
  by unfold_locales
     (simp_all add: prometheus_ilogger_def PrometheusPayloadLogger_log_def PrometheusPayloadLogger_wait_def)

end
