(* ===== verification/PrometheusProps.thy ===== *)
theory PrometheusProps
  imports Prometheus "HOL-Library.Multiset"
begin

text \<open>
  A reader of the Prometheus text exposition format serves as the specification
  of the serializer: every payload is read back as the lines its metric families
  stand for.  Names are well formed by construction, and the registry groups its
  samples by metric.
\<close>

section \<open>Names\<close>

definition name_ok :: "(char \<Rightarrow> bool) \<Rightarrow> (char \<Rightarrow> bool) \<Rightarrow> string \<Rightarrow> bool" where
  "name_ok first_ok rest_ok s = (case s of [] \<Rightarrow> False | c # cs \<Rightarrow> first_ok c \<and> list_all rest_ok cs)"

lemma sanitize_ok:
  "first_ok (CHR ''_'') \<Longrightarrow> rest_ok (CHR ''_'') \<Longrightarrow> name_ok first_ok rest_ok (sanitize_with first_ok rest_ok name)"
  by (auto simp: name_ok_def sanitize_with_def list_all_iff split: list.split)

lemma sanitize_id: "name_ok first_ok rest_ok name \<Longrightarrow> sanitize_with first_ok rest_ok name = name"
  by (auto simp: name_ok_def sanitize_with_def list_all_iff split: list.splits intro!: map_idI)

lemma sanitize_length: "name \<noteq> [] \<Longrightarrow> length (sanitize_with first_ok rest_ok name) = length name"
  by (auto simp: sanitize_with_def split: list.split)

abbreviation metric_name_ok :: "string \<Rightarrow> bool" where
  "metric_name_ok \<equiv> name_ok metric_first metric_char"

abbreviation label_name_ok :: "string \<Rightarrow> bool" where
  "label_name_ok \<equiv> name_ok label_first label_char"

lemma underscore_ok [simp]:
  "metric_first (CHR ''_'')" "metric_char (CHR ''_'')" "label_first (CHR ''_'')" "label_char (CHR ''_'')"
  by (simp_all add: metric_first_def metric_char_def label_first_def label_char_def)

lemma metric_sanitized [simp]: "metric_name_ok (prometheus_sanitize_metric_name name)"
  and label_sanitized [simp]: "label_name_ok (prometheus_sanitize_label_name name)"
  by (simp_all add: prometheus_sanitize_metric_name_def prometheus_sanitize_label_name_def sanitize_ok)


section \<open>The reader\<close>

datatype prom_line =
    PHelp string string
  | PType string string
  | PSample string "(string \<times> string) list" string "string option"

text \<open>A label value up to its closing quote.\<close>

fun prom_value :: "string \<Rightarrow> (string \<times> string) option" where
  "prom_value [] = None"
| "prom_value [c] = (if c = DQ then Some ([], []) else None)"
| "prom_value (c # e # s) =
     (if c = DQ then Some ([], e # s)
      else if c = BS then
        (if e = BS \<or> e = DQ then map_option (apfst (Cons e)) (prom_value s)
         else if e = CHR ''n'' then map_option (apfst (Cons (CHR 0x0A))) (prom_value s)
         else None)
      else if c = CHR 0x0A then None
      else map_option (apfst (Cons c)) (prom_value (e # s)))"

fun prom_help :: "string \<Rightarrow> string option" where
  "prom_help [] = Some []"
| "prom_help [c] = (if c = BS then None else Some [c])"
| "prom_help (c # e # s) =
     (if c = BS then
        (if e = BS then map_option (Cons BS) (prom_help s)
         else if e = CHR ''n'' then map_option (Cons (CHR 0x0A)) (prom_help s)
         else None)
      else map_option (Cons c) (prom_help (e # s)))"

text \<open>The labels between braces; fuel bounds their number.\<close>

fun prom_labels :: "nat \<Rightarrow> string \<Rightarrow> ((string \<times> string) list \<times> string) option" where
  "prom_labels 0 s = None"
| "prom_labels (Suc n) s =
     (let name = takeWhile label_char s; r = dropWhile label_char s
      in if label_name_ok name \<and> take 2 r = [CHR ''='', DQ] then
           (case prom_value (drop 2 r) of
              Some (v, c # r') \<Rightarrow>
                (if c = CHR '','' then map_option (apfst (Cons (name, v))) (prom_labels n r')
                 else if c = CHR ''}'' then Some ([(name, v)], r')
                 else None)
            | _ \<Rightarrow> None)
         else None)"

definition prom_numbers :: "string \<Rightarrow> (string \<times> string option) option" where
  "prom_numbers s =
     (case s of
        [] \<Rightarrow> None
      | c # t \<Rightarrow>
          if c \<noteq> CHR '' '' then None
          else (case split_at (CHR '' '') t of
                  None \<Rightarrow> Some (t, None)
                | Some (v, ts) \<Rightarrow> Some (v, Some ts)))"

definition prom_sample :: "string \<Rightarrow> prom_line option" where
  "prom_sample s =
     (let name = takeWhile metric_char s; r = dropWhile metric_char s
      in if \<not> metric_name_ok name then None
         else case (if r \<noteq> [] \<and> hd r = CHR ''{'' then prom_labels (length r) (tl r) else Some ([], r)) of
                None \<Rightarrow> None
              | Some (labels, r') \<Rightarrow>
                  (case prom_numbers r' of
                     None \<Rightarrow> None
                   | Some (v, ts) \<Rightarrow> Some (PSample name labels v ts)))"

definition prom_comment :: "(string \<Rightarrow> string \<Rightarrow> prom_line option) \<Rightarrow> string \<Rightarrow> prom_line option" where
  "prom_comment f s =
     (case split_at (CHR '' '') s of
        Some (name, t) \<Rightarrow> if metric_name_ok name then f name t else None
      | None \<Rightarrow> None)"

definition prom_line :: "string \<Rightarrow> prom_line option" where
  "prom_line s =
     (if prefix ''# HELP '' s then prom_comment (\<lambda>n t. map_option (PHelp n) (prom_help t)) (drop 7 s)
      else if prefix ''# TYPE '' s then prom_comment (\<lambda>n t. Some (PType n t)) (drop 7 s)
      else prom_sample s)"

text \<open>The lines of a text in which every line is terminated.\<close>

fun text_lines :: "string \<Rightarrow> string \<Rightarrow> string list option" where
  "text_lines acc [] = (if acc = [] then Some [] else None)"
| "text_lines acc (c # cs) =
     (if c = CHR 0x0A then map_option (Cons (rev acc)) (text_lines [] cs) else text_lines (c # acc) cs)"

definition prom_read :: "string \<Rightarrow> prom_line list option" where
  "prom_read text = Option.bind (text_lines [] text) (\<lambda>ls. those (map prom_line ls))"

section \<open>Reading back\<close>

interpretation prom_label: quoted_text label_escape_char prom_value
proof
  show "prom_value (DQ # r) = Some ([], r)" for r by (cases r) simp_all
  show "prom_value (label_escape_char c @ s) = map_option (apfst (Cons c)) (prom_value s)" for c s
    by (cases s) (auto simp: label_escape_char_def)
qed

lemma prom_help_escaped: "prom_help (prometheus_escape_help t) = Some t"
proof -
  have step: "prom_help (help_escape_char c @ s) = map_option (Cons c) (prom_help s)" for c s
    by (cases s) (auto simp: help_escape_char_def)
  show ?thesis unfolding prometheus_escape_help_def by (induction t) (simp_all add: step)
qed

lemma text_lines_line:
  "CHR 0x0A \<notin> set l \<Longrightarrow> text_lines acc (l @ CHR 0x0A # r) = map_option (Cons (rev acc @ l)) (text_lines [] r)"
  by (induction l arbitrary: acc) auto

lemma text_lines_all:
  "\<forall>l \<in> set ls. CHR 0x0A \<notin> set l \<Longrightarrow> text_lines [] (concat (map (\<lambda>l. l @ [CHR 0x0A]) ls)) = Some ls"
  by (induction ls) (simp_all add: text_lines_line)

fun render_line :: "prom_line \<Rightarrow> string" where
  "render_line (PHelp n t) = ''# HELP '' @ n @ '' '' @ prometheus_escape_help t"
| "render_line (PType n t) = ''# TYPE '' @ n @ '' '' @ t"
| "render_line (PSample n labels v ts) =
     n @ (if labels = [] then []
          else ''{'' @ join '','' (map (\<lambda>(k, v). prometheus_label_text \<lparr>pl_name = k, pl_value = v\<rparr>) labels) @ ''}'') @
     '' '' @ v @ (case ts of None \<Rightarrow> [] | Some t \<Rightarrow> '' '' @ t)"

fun line_ok :: "prom_line \<Rightarrow> bool" where
  "line_ok (PHelp n t) = metric_name_ok n"
| "line_ok (PType n t) = (metric_name_ok n \<and> list_all token_char t)"
| "line_ok (PSample n labels v ts) =
     (metric_name_ok n \<and> list_all (\<lambda>(k, v). label_name_ok k) labels \<and> list_all token_char v \<and>
      (case ts of None \<Rightarrow> True | Some t \<Rightarrow> list_all token_char t))"

definition sample_line :: "PrometheusTextFormatConfig \<Rightarrow> PrometheusSample \<Rightarrow> prom_line" where
  "sample_line config s =
     PSample (prometheus_sanitize_metric_name (ps_name s))
       (map (\<lambda>l. (prometheus_sanitize_label_name (pl_name l), pl_value l)) (pt_const_labels config @ ps_labels s))
       (prometheus_format_value (ps_value s))
       (if pt_include_timestamp config \<and> ps_timestamp_ms s \<noteq> 0
        then Some (dec_int (ps_timestamp_ms s)) else None)"

definition family_lines :: "PrometheusTextFormatConfig \<Rightarrow> PrometheusMetricFamily \<Rightarrow> prom_line list" where
  "family_lines config f =
     (if pt_include_help config \<and> pf_help f \<noteq> []
      then [PHelp (prometheus_sanitize_metric_name (pf_name f)) (pf_help f)] else []) @
     (if pt_include_type config
      then [PType (prometheus_sanitize_metric_name (pf_name f)) (metric_type_name (pf_type f))] else []) @
     map (sample_line config) (pf_samples f)"

lemma label_sanitize_idem [simp]:
  "prometheus_sanitize_label_name (prometheus_sanitize_label_name n) = prometheus_sanitize_label_name n"
  using sanitize_id [OF label_sanitized [of n]] by (simp add: prometheus_sanitize_label_name_def)

lemma label_text_sanitized [simp]:
  "prometheus_label_text \<lparr>pl_name = prometheus_sanitize_label_name (pl_name l), pl_value = pl_value l\<rparr>
   = prometheus_label_text l"
  by (simp add: prometheus_label_text_def)

lemma write_sample_line: "prometheus_write_sample config s = render_line (sample_line config s) @ [CHR 0x0A]"
  by (simp add: prometheus_write_sample_def sample_line_def Let_def comp_def)

lemma write_family_lines:
  "prometheus_write_metric_family config f = concat (map (\<lambda>l. render_line l @ [CHR 0x0A]) (family_lines config f))"
  by (simp add: prometheus_write_metric_family_def family_lines_def Let_def
      write_sample_line [abs_def] comp_def)

text \<open>Character classes of the tokens between separators.\<close>

lemma name_ok_chars:
  "name_ok first_ok rest_ok n \<Longrightarrow> (\<And>c. first_ok c \<Longrightarrow> rest_ok c) \<Longrightarrow> n \<noteq> [] \<and> list_all rest_ok n"
  by (cases n) (auto simp: name_ok_def)

lemma metric_name_chars: "metric_name_ok n \<Longrightarrow> n \<noteq> [] \<and> list_all metric_char n"
  by (erule name_ok_chars) (auto simp: metric_first_def metric_char_def isalnum_def)

lemma label_name_chars: "label_name_ok n \<Longrightarrow> n \<noteq> [] \<and> list_all label_char n"
  by (erule name_ok_chars) (auto simp: label_first_def label_char_def isalnum_def)

lemma not_metric [simp]:
  "\<not> metric_char (CHR '' '')" "\<not> metric_char (CHR ''{'')" "\<not> metric_char (CHR 0x0A)" "\<not> metric_char (CHR ''#'')"
  by code_simp+

lemma not_label [simp]: "\<not> label_char (CHR ''='')" "\<not> label_char (CHR 0x0A)"
  by code_simp+

lemma not_token [simp]: "\<not> token_char (CHR '' '')" "\<not> token_char (CHR 0x0A)"
  by code_simp+

lemma class_absent: "list_all P s \<Longrightarrow> \<not> P c \<Longrightarrow> c \<notin> set s"
  by (auto simp: list_all_iff)

lemma span_class:
  "list_all P s \<Longrightarrow> \<not> P c \<Longrightarrow> takeWhile P (s @ c # r) = s \<and> dropWhile P (s @ c # r) = c # r"
  by (induction s) auto

lemma format_value_token: "list_all token_char (prometheus_format_value v)"
proof -
  have "list_all token_char ''NaN''" "list_all token_char ''+Inf''" "list_all token_char ''-Inf''"
    by code_simp+
  then show ?thesis by (simp add: prometheus_format_value_def print_g_token)
qed

lemma family_lines_ok: "list_all line_ok (family_lines config f)"
proof -
  have "list_all token_char (metric_type_name t)" for t by (cases t) (simp_all add: metric_type_name_def token_char_def ctype_defs)
  then show ?thesis
    by (auto simp: family_lines_def sample_line_def list_all_iff [of line_ok] format_value_token
             dec_int_token list_all_iff [of "\<lambda>(k, v). label_name_ok k"])
qed

lemma labels_read:
  "list_all (\<lambda>(k, v). label_name_ok k) labels \<Longrightarrow> labels \<noteq> [] \<Longrightarrow> length labels \<le> n \<Longrightarrow>
   prom_labels n (join '','' (map (\<lambda>(k, v). prometheus_label_text \<lparr>pl_name = k, pl_value = v\<rparr>) labels) @
     CHR ''}'' # r) = Some (labels, r)"
proof (induction labels arbitrary: n)
  case (Cons kv labels)
  obtain k v where kv: "kv = (k, v)" by (cases kv)
  obtain m where n: "n = Suc m" using Cons.prems(3) by (cases n) auto
  have k: "label_name_ok k" using Cons.prems(1) by (simp add: kv)
  have san: "prometheus_sanitize_label_name k = k"
    using sanitize_id [OF k] by (simp add: prometheus_sanitize_label_name_def)
  have spelt: "prometheus_label_text \<lparr>pl_name = k, pl_value = v\<rparr> @ t =
      k @ CHR ''='' # DQ # prometheus_escape_label_value v @ DQ # t" for t
    by (simp add: prometheus_label_text_def san)
  have span: "takeWhile label_char (k @ CHR ''='' # t) = k" "dropWhile label_char (k @ CHR ''='' # t) = CHR ''='' # t"
    for t using span_class [of label_char k "CHR ''=''" t] label_name_chars [OF k] by simp_all
  have scan: "prom_value (prometheus_escape_label_value v @ DQ # t) = Some (v, t)" for t
    unfolding prometheus_escape_label_value_def by (rule prom_label.scan_escaped)
  show ?case
  proof (cases "labels = []")
    case True
    then show ?thesis by (simp add: n kv spelt span scan k)
  next
    case False
    then show ?thesis
      using Cons.IH [of m] Cons.prems n by (simp add: kv join_Cons spelt span scan k)
  qed
qed simp

lemma numbers_read:
  assumes "list_all token_char v" "case ts of None \<Rightarrow> True | Some t \<Rightarrow> list_all token_char t"
  shows "prom_numbers (CHR '' '' # v @ (case ts of None \<Rightarrow> [] | Some t \<Rightarrow> '' '' @ t)) = Some (v, ts)"
proof -
  have "CHR '' '' \<notin> set v" using class_absent [OF assms(1)] by simp
  then show ?thesis
    by (cases ts) (simp_all add: prom_numbers_def split_at_None [THEN iffD2])
qed

lemma label_escape_no_newline: "CHR 0x0A \<notin> set (prometheus_escape_label_value v)"
proof -
  have "CHR 0x0A \<notin> set (label_escape_char c)" for c by (simp add: label_escape_char_def)
  then show ?thesis by (simp add: prometheus_escape_label_value_def)
qed

lemma help_escape_no_newline: "CHR 0x0A \<notin> set (prometheus_escape_help v)"
proof -
  have "CHR 0x0A \<notin> set (help_escape_char c)" for c by (simp add: help_escape_char_def)
  then show ?thesis by (simp add: prometheus_escape_help_def)
qed

lemma join_set: "set (join sep xs) \<subseteq> set sep \<union> \<Union> (set ` set xs)"
  by (induction sep xs rule: join.induct) auto

lemma line_no_newline:
  assumes "line_ok l"
  shows "CHR 0x0A \<notin> set (render_line l)"
proof (cases l)
  case (PHelp n t)
  then show ?thesis
    using assms class_absent [of metric_char n "CHR 0x0A"] metric_name_chars [of n] help_escape_no_newline [of t]
    by simp
next
  case (PType n t)
  then show ?thesis
    using assms class_absent [of metric_char n "CHR 0x0A"] metric_name_chars [of n] class_absent [of token_char t "CHR 0x0A"]
    by simp
next
  case (PSample n labels v ts)
  have lab: "CHR 0x0A \<notin> set (prometheus_label_text \<lparr>pl_name = k, pl_value = w\<rparr>)" for k w
    using class_absent [of label_char "prometheus_sanitize_label_name k" "CHR 0x0A"]
      label_name_chars [OF label_sanitized [of k]] label_escape_no_newline [of w]
    by (simp add: prometheus_label_text_def)
  have "CHR 0x0A \<notin> set (join '','' (map (\<lambda>(k, v). prometheus_label_text \<lparr>pl_name = k, pl_value = v\<rparr>) labels))"
    using join_set [of "'',''" "map (\<lambda>(k, v). prometheus_label_text \<lparr>pl_name = k, pl_value = v\<rparr>) labels"] lab
    by auto
  then show ?thesis
    using assms PSample class_absent [of metric_char n "CHR 0x0A"] metric_name_chars [of n]
      class_absent [of token_char _ "CHR 0x0A"]
    by (auto split: option.splits)
qed

lemma sample_read:
  assumes "line_ok (PSample n labels v ts)"
  shows "prom_sample (render_line (PSample n labels v ts)) = Some (PSample n labels v ts)"
proof -
  let ?nums = "v @ (case ts of None \<Rightarrow> [] | Some t \<Rightarrow> '' '' @ t)"
  let ?labels = "join '','' (map (\<lambda>(k, v). prometheus_label_text \<lparr>pl_name = k, pl_value = v\<rparr>) labels)"
  have n: "n \<noteq> []" "list_all metric_char n" "metric_name_ok n" using assms metric_name_chars by auto
  have nums: "prom_numbers (CHR '' '' # ?nums) = Some (v, ts)"
    using assms by (intro numbers_read) auto
  show ?thesis
  proof (cases "labels = []")
    case True
    then have "render_line (PSample n labels v ts) = n @ CHR '' '' # ?nums" by simp
    then show ?thesis
      using span_class [OF n(2), of "CHR '' ''" ?nums] n(3) nums True by (simp add: prom_sample_def)
  next
    case False
    let ?r = "?labels @ CHR ''}'' # CHR '' '' # ?nums"
    have long: "length labels \<le> length (CHR ''{'' # ?r)"
    proof -
      have "length ls \<le> Suc (length (join '','' (map (\<lambda>(k, v). prometheus_label_text \<lparr>pl_name = k, pl_value = v\<rparr>) ls)))"
        for ls
        by (induction ls rule: induct_list012) (auto simp: prometheus_label_text_def)
      from this [of labels] show ?thesis by simp
    qed
    have "render_line (PSample n labels v ts) = n @ CHR ''{'' # ?r" using False by simp
    moreover have "prom_labels (length (CHR ''{'' # ?r)) ?r = Some (labels, CHR '' '' # ?nums)"
      using labels_read [OF _ False long] assms by simp
    ultimately show ?thesis
      using span_class [OF n(2), of "CHR ''{''" ?r] n(3) nums by (simp add: prom_sample_def)
  qed
qed

lemma line_read:
  assumes "line_ok l"
  shows "prom_line (render_line l) = Some l"
proof (cases l)
  case (PSample n labels v ts)
  have "n \<noteq> []" "list_all metric_char n" using assms PSample metric_name_chars by auto
  then obtain c n' where c: "n = c # n'" "metric_char c" by (cases n) auto
  have "c \<noteq> CHR ''#''" using c(2) not_metric(4) by metis
  then have "\<not> prefix ''# HELP '' (render_line l)" "\<not> prefix ''# TYPE '' (render_line l)"
    by (simp_all add: PSample c(1))
  then show ?thesis using sample_read assms PSample by (simp only: prom_line_def if_False)
next
  case (PHelp n t)
  have "CHR '' '' \<notin> set n" using assms PHelp metric_name_chars [of n] class_absent [of metric_char n] by auto
  then show ?thesis
    using assms PHelp by (simp add: prom_line_def prom_comment_def prom_help_escaped)
next
  case (PType n t)
  have "CHR '' '' \<notin> set n" using assms PType metric_name_chars [of n] class_absent [of metric_char n] by auto
  then show ?thesis
    using assms PType by (simp add: prom_line_def prom_comment_def)
qed

lemma those_map: "(\<And>x. x \<in> set xs \<Longrightarrow> f (g x) = Some x) \<Longrightarrow> those (map f (map g xs)) = Some xs"
  by (induction xs) auto

text \<open>C36: the text payload is read back exactly.  For every list of metric families
  and every configuration, reading the serialized payload as Prometheus text
  exposition succeeds and gives, in order, the HELP line (with its text restored),
  the TYPE line and the samples of each family, each with the constant and own
  labels in order, label values restored byte for byte, the printed value and the
  optional timestamp.\<close>

theorem prometheus_payload_read:
  "prom_read (build_prometheus_text_payload families config) =
     Some (concat (map (family_lines config) families))"
proof -
  let ?ls = "concat (map (family_lines config) families)"
  have ok: "line_ok l" if "l \<in> set ?ls" for l
    using that family_lines_ok by (auto simp: list_all_iff)
  have "build_prometheus_text_payload families config = concat (map (\<lambda>l. l @ [CHR 0x0A]) (map render_line ?ls))"
    unfolding build_prometheus_text_payload_def
    by (induction families) (simp_all add: write_family_lines comp_def)
  then have "text_lines [] (build_prometheus_text_payload families config) = Some (map render_line ?ls)"
    using text_lines_all [of "map render_line ?ls"] line_no_newline ok by auto
  then show ?thesis
    using those_map [of ?ls prom_line render_line] line_read ok by (simp add: prom_read_def)
qed

section \<open>The registry\<close>

definition series_key :: "'fn prometheus_entry \<Rightarrow> string \<times> PrometheusLabel list" where
  "series_key e = (pe_name e, pe_labels e)"

lemma label_eq: "a = b \<longleftrightarrow> pl_name a = pl_name b \<and> pl_value a = pl_value b" for a b :: PrometheusLabel
  by (cases a, cases b) simp

lemma labels_equal_Nil: "labels_equal [] r \<longleftrightarrow> r = []" "labels_equal l [] \<longleftrightarrow> l = []"
  by (simp_all add: labels_equal_def)

lemma labels_equal_Cons: "labels_equal (a # l) (b # r) \<longleftrightarrow> a = b \<and> labels_equal l r"
  unfolding labels_equal_def label_eq [of a b] by simp blast

lemma labels_equal_iff: "labels_equal l r \<longleftrightarrow> l = r"
proof (induction l arbitrary: r)
  case (Cons a l)
  then show ?case by (cases r) (simp_all add: labels_equal_Cons labels_equal_Nil)
qed (auto simp: labels_equal_Nil)

lemma set_entry_keys:
  "set (map series_key (set_entry new es)) = insert (series_key new) (set (map series_key es))"
  by (induction es) (auto simp: labels_equal_iff series_key_def)

lemma set_entry_distinct:
  "distinct (map series_key es) \<Longrightarrow> distinct (map series_key (set_entry new es))"
proof (induction es)
  case (Cons e es)
  then show ?case
    using set_entry_keys [of new es] by (auto simp: labels_equal_iff series_key_def)
qed simp

text \<open>A registry after a sequence of registrations (type, name, help, callback, labels).\<close>

type_synonym 'fn registration = "PrometheusMetricType \<times> string \<times> string \<times> 'fn \<times> PrometheusLabel list"

definition registry_after :: "string \<Rightarrow> 'fn registration list \<Rightarrow> 'fn PrometheusRegistry" where
  "registry_after pre calls =
     foldl (\<lambda>r (type, name, help, fn, labels). set_metric type name help fn labels r)
       \<lparr>pr_metric_prefix = pre, pr_entries = []\<rparr> calls"

lemma registry_after_distinct: "distinct (map series_key (pr_entries (registry_after pre calls)))"
  unfolding registry_after_def
  by (induction calls rule: rev_induct) (auto simp: set_metric_def set_entry_distinct)

lemma registry_after_prefix [simp]: "pr_metric_prefix (registry_after pre calls) = pre"
  unfolding registry_after_def
  by (induction calls rule: rev_induct) (auto simp: set_metric_def)

text \<open>The samples of one metric, in registration order.\<close>

definition entry_sample :: "('fn \<Rightarrow> f64 option) \<Rightarrow> string \<Rightarrow> 'fn prometheus_entry \<Rightarrow> PrometheusSample list" where
  "entry_sample call pre e =
     (case call (pe_value_fn e) of
        None \<Rightarrow> []
      | Some v \<Rightarrow> [make_prometheus_sample (pre @ pe_name e) v (pe_labels e) 0])"

definition metric_samples :: "('fn \<Rightarrow> f64 option) \<Rightarrow> string \<Rightarrow> 'fn prometheus_entry list \<Rightarrow> string
   \<Rightarrow> PrometheusMetricType \<Rightarrow> PrometheusSample list" where
  "metric_samples call pre es name type =
     concat (map (entry_sample call pre) (filter (\<lambda>e. pre @ pe_name e = name \<and> pe_type e = type) es))"

definition family_key :: "PrometheusMetricFamily \<Rightarrow> string \<times> PrometheusMetricType" where
  "family_key f = (pf_name f, pf_type f)"

definition samples_of :: "PrometheusMetricFamily list \<Rightarrow> string \<Rightarrow> PrometheusMetricType \<Rightarrow> PrometheusSample list" where
  "samples_of fs name type =
     (case find (\<lambda>f. family_key f = (name, type)) fs of None \<Rightarrow> [] | Some f \<Rightarrow> pf_samples f)"

lemma add_to_family_keys:
  "set (map family_key (add_to_family name help type sample fs)) = insert (name, type) (set (map family_key fs))"
  by (induction fs) (auto simp: family_key_def)

lemma add_to_family_distinct:
  "distinct (map family_key fs) \<Longrightarrow> distinct (map family_key (add_to_family name help type sample fs))"
proof (induction fs)
  case (Cons f fs)
  then show ?case
    using add_to_family_keys [of name "help" type sample fs] by (auto simp: family_key_def)
qed (simp add: family_key_def)

lemma add_to_family_samples:
  "samples_of (add_to_family name help type sample fs) n t =
     samples_of fs n t @ (if n = name \<and> t = type then [sample] else [])"
  by (induction fs) (auto simp: samples_of_def family_key_def)

lemma add_to_family_total:
  "mset (concat (map pf_samples (add_to_family name help type sample fs))) =
   add_mset sample (mset (concat (map pf_samples fs)))"
  by (induction fs) auto

lemma collect_distinct:
  "distinct (map family_key fs) \<Longrightarrow> distinct (map family_key (fst (collect_entries call pre es fs)))"
  by (induction es arbitrary: fs) (auto simp: add_to_family_distinct split: option.split)

lemma collect_samples:
  "samples_of (fst (collect_entries call pre es fs)) n t = samples_of fs n t @ metric_samples call pre es n t"
  by (induction es arbitrary: fs)
     (auto simp: add_to_family_samples metric_samples_def entry_sample_def split: option.split)

lemma collect_total:
  "mset (concat (map pf_samples (fst (collect_entries call pre es fs)))) =
   mset (concat (map pf_samples fs)) + mset (concat (map (entry_sample call pre) es))"
  by (induction es arbitrary: fs)
     (auto simp: add_to_family_total entry_sample_def split: option.split)

lemma collect_threw: "snd (collect_entries call pre es fs) \<longleftrightarrow> (\<exists>e \<in> set es. call (pe_value_fn e) = None)"
  by (induction es arbitrary: fs) (auto split: option.split)

definition sample_key :: "PrometheusSample \<Rightarrow> string \<times> PrometheusLabel list" where
  "sample_key s = (ps_name s, ps_labels s)"

lemma entry_keys:
  "map sample_key (entry_sample call pre e) =
     (if call (pe_value_fn e) = None then [] else [(pre @ pe_name e, pe_labels e)])"
  by (auto simp: entry_sample_def make_prometheus_sample_def sample_key_def split: option.split)

lemma series_keys:
  "(pre @ n, l) \<in> set (concat (map (\<lambda>e. map sample_key (entry_sample call pre e)) es)) \<Longrightarrow>
   (n, l) \<in> set (map series_key es)"
  unfolding entry_keys by (induction es) (auto simp: series_key_def split: if_splits)

lemma series_distinct:
  "distinct (map series_key es) \<Longrightarrow>
   distinct (map sample_key (concat (map (entry_sample call pre) es)))"
proof (induction es)
  case (Cons e es)
  let ?keys = "map sample_key (concat (map (entry_sample call pre) es))"
  have "(pre @ pe_name e, pe_labels e) \<notin> set ?keys"
    using Cons.prems series_keys [of pre "pe_name e" "pe_labels e" call es]
    unfolding map_concat map_map comp_def by (auto simp: series_key_def)
  moreover have "distinct ?keys" using Cons by simp
  ultimately have "distinct ((if call (pe_value_fn e) = None then [] else [(pre @ pe_name e, pe_labels e)]) @ ?keys)"
    by (simp del: set_map set_concat)
  then show ?case unfolding list.map concat.simps map_append entry_keys .
qed simp

text \<open>C38: collecting a registry never repeats a series and groups by metric.  After
  any sequence of registrations, the families collected have pairwise different
  (name, type); the samples of each are those of the registered callbacks of that
  metric that returned, in registration order; no two samples of the whole
  collection share name and labels; and an exception is reported exactly when
  some callback threw, without losing the samples of the others.\<close>

theorem registry_collect_grouped:
  fixes calls :: "'fn registration list"
  assumes "r = registry_after pre calls" and "registry_collect call r [] = (families, threw)"
  shows "distinct (map family_key families) \<and>
    (\<forall>name type. samples_of families name type = metric_samples call pre (pr_entries r) name type) \<and>
    distinct (map sample_key (concat (map pf_samples families))) \<and>
    threw = (\<exists>e \<in> set (pr_entries r). call (pe_value_fn e) = None)"
proof -
  let ?es = "pr_entries r"
  have prefix: "pr_metric_prefix r = pre" and distinct: "distinct (map series_key ?es)"
    using assms(1) by (simp_all add: registry_after_distinct)
  have fam: "families = fst (collect_entries call pre ?es [])" "threw = snd (collect_entries call pre ?es [])"
    using assms(2) prefix by (auto simp: registry_collect_def split: prod.splits)
  have "mset (map sample_key (concat (map pf_samples families))) =
      mset (map sample_key (concat (map (entry_sample call pre) ?es)))"
    using collect_total [of call pre ?es "[]"] unfolding fam mset_map by simp
  then have "distinct (map sample_key (concat (map pf_samples families)))"
    using series_distinct [OF distinct, of call pre] mset_eq_imp_distinct_iff by blast
  then show ?thesis
    using collect_distinct [of "[]" call pre ?es] collect_samples [of call pre ?es "[]"]
      collect_threw [of call pre ?es "[]"]
    by (simp add: fam samples_of_def)
qed

definition demo_calls :: "nat registration list" where
  "demo_calls =
     [(Gauge, ''depth'', ''Queue depth'', 1, []), (Counter, ''hits'', ''Hits'', 2, []),
      (Gauge, ''depth'', ''Queue depth'', 3, [make_prometheus_label ''q'' ''a'']),
      (Gauge, ''depth'', ''Depth'', 4, [])]"

definition demo_call :: "nat \<Rightarrow> f64 option" where
  "demo_call i = (if i = 2 then None else Some (of_nat i))"

theorem registry_collect_grouped_witness:
  "map family_key (fst (registry_collect demo_call (registry_after ''app_'' demo_calls) []))
     = [(''app_depth'', Gauge)] \<and>
   snd (registry_collect demo_call (registry_after ''app_'' demo_calls) [])"
proof -
  let ?r = "registry_after ''app_'' demo_calls"
  have "map family_key (fst (registry_collect demo_call ?r [])) = [(''app_depth'', Gauge)]"
    by code_simp
  moreover have "\<exists>e \<in> set (pr_entries ?r). demo_call (pe_value_fn e) = None"
    by code_simp
  ultimately show ?thesis
    using registry_collect_grouped [of ?r "''app_''" demo_calls demo_call
        "fst (registry_collect demo_call ?r [])" "snd (registry_collect demo_call ?r [])"]
    by simp
qed


end
