(* ===== verification/FileLogger.thy ===== *)
theory FileLogger
  imports Compression ILogger "HOL-Library.Product_Lexorder"
begin

text \<open>
  The file backend (\<open>FileLogger.hpp\<close>, C++11 branch, POSIX): one file per day,
  rotation by size with sequence or timestamp names, compression and retention
  of rotated files, deletion of old days, and the listing, reading and clearing
  of the files the backend owns.  Writing runs under the file mutex, so one call
  is one atomic operation on the disk.  Output is modelled without the stream's
  buffer: what has been written to the stream is in the file (the source flushes
  before every read of the current file).  time_shield, the executable's
  directory and the permission to open a file are fields of \<open>file_env\<close>; the
  clocks are arguments.
\<close>

section \<open>State\<close>

record file_env =
  fe_exec_dir :: string
  fe_to_iso8601_date :: "int \<Rightarrow> string"
  fe_ts :: "string \<Rightarrow> int"
  fe_start_of_day :: "int \<Rightarrow> int"
  fe_ms_to_sec :: "int \<Rightarrow> int"
  fe_sec_to_ms :: "int \<Rightarrow> int"
  fe_sec_per_day :: int
  fe_can_open :: "string \<Rightarrow> bool"
  fe_mkdir :: "string \<Rightarrow> bool"
  fe_codec :: codec

record FileLogger_Config =
  fc_directory :: string
  fc_async :: bool
  fc_auto_delete_days :: int
  fc_max_file_size_bytes :: nat
  fc_max_rotated_files :: nat
  fc_compress :: CompressType
  fc_compress_level :: int
  fc_compress_async :: bool
  fc_external_cmd :: string
  fc_naming :: RotationNaming
  fc_seq_width :: nat
  fc_use_dedicated_executor :: bool
  fc_queue_capacity :: nat
  fc_queue_policy :: QueuePolicy

definition FileLogger_Config_default :: FileLogger_Config where
  "FileLogger_Config_default =
     \<lparr>fc_directory = ''logs'', fc_async = True, fc_auto_delete_days = 30, fc_max_file_size_bytes = 0,
      fc_max_rotated_files = 0, fc_compress = NONE, fc_compress_level = 1, fc_compress_async = True,
      fc_external_cmd = [], fc_naming = Sequence, fc_seq_width = 3, fc_use_dedicated_executor = False,
      fc_queue_capacity = 0, fc_queue_policy = Block\<rparr>"

definition FileLogger_make_config ::
  "string \<Rightarrow> bool \<Rightarrow> int \<Rightarrow> nat \<Rightarrow> nat \<Rightarrow> bool \<Rightarrow> nat \<Rightarrow> QueuePolicy \<Rightarrow> FileLogger_Config" where
  "FileLogger_make_config directory async auto_delete_days max_file_size_bytes max_rotated_files
     use_dedicated_executor queue_capacity queue_policy =
     FileLogger_Config_default
       \<lparr>fc_directory := directory, fc_async := async, fc_auto_delete_days := auto_delete_days,
        fc_max_file_size_bytes := max_file_size_bytes, fc_max_rotated_files := max_rotated_files,
        fc_use_dedicated_executor := use_dedicated_executor, fc_queue_capacity := queue_capacity,
        fc_queue_policy := queue_policy\<rparr>"

text \<open>
  \<open>fl_executor\<close> holds the limits of the dedicated executor when there is one;
  \<open>fl_disk\<close> is the disk the logger works on.
\<close>

record FileLogger =
  fl_config :: FileLogger_Config
  fl_disk :: disk
  fl_file_open :: bool
  fl_file_path :: string
  fl_file_name :: string
  fl_current_date_ts :: int
  fl_current_file_size :: nat
  fl_compressor :: "CompressionWorker option"
  fl_executor :: "(nat \<times> QueuePolicy) option"
  fl_last_log_ts :: int
  fl_last_log_mono_ts :: int
  fl_log_level :: LogLevel
  fl_shutdown :: bool

datatype file_error = OpenFailed string | RenameFailed | CreateDirFailed string

section \<open>File names\<close>

definition get_directory_path :: "file_env \<Rightarrow> FileLogger \<Rightarrow> string" where
  "get_directory_path env s = fe_exec_dir env @ ''/'' @ fc_directory (fl_config s)"

definition create_file_path :: "file_env \<Rightarrow> int \<Rightarrow> FileLogger \<Rightarrow> string" where
  "create_file_path env date_ts s =
     get_directory_path env s @ ''/'' @ fe_to_iso8601_date env date_ts @ ''.log''"

definition strip_compression_suffix :: "string \<Rightarrow> string" where
  "strip_compression_suffix filename =
     (if ends_with filename ''.gz'' then take (length filename - 3) filename
      else if ends_with filename ''.zst'' then take (length filename - 4) filename
      else filename)"

definition is_compressed_log_filename :: "string \<Rightarrow> bool" where
  "is_compressed_log_filename filename = (ends_with filename ''.gz'' \<or> ends_with filename ''.zst'')"

text \<open>
  The three regular expressions of \<open>is_valid_log_filename\<close> share the date
  \<open>\d{4}-\d{2}-\d{2}\<close>; what may follow it is \<open>.log\<close>, \<open>\.\d+\.log\<close> or
  \<open>_\d{6}(\d{3})?(\.\d+)?\.log\<close>.
\<close>

definition digits :: "string \<Rightarrow> bool" where
  "digits s = (s \<noteq> [] \<and> list_all isdigit s)"

definition date_shape :: "string \<Rightarrow> bool" where
  "date_shape d =
     (length d = 10 \<and> digits (take 4 d) \<and> d ! 4 = CHR ''-'' \<and> digits (take 2 (drop 5 d)) \<and>
      d ! 7 = CHR ''-'' \<and> digits (drop 8 d))"

definition sequence_shape :: "string \<Rightarrow> bool" where
  "sequence_shape r =
     (5 \<le> length r \<and> hd r = CHR ''.'' \<and> ends_with r ''.log'' \<and>
      digits (take (length r - 5) (tl r)))"

definition time_shape :: "string \<Rightarrow> bool" where
  "time_shape t = (digits t \<and> (length t = 6 \<or> length t = 9))"

definition timestamp_shape :: "string \<Rightarrow> bool" where
  "timestamp_shape r =
     (5 \<le> length r \<and> hd r = CHR ''_'' \<and> ends_with r ''.log'' \<and>
      (let m = take (length r - 5) (tl r)
       in case split_at (CHR ''.'') m of
            None \<Rightarrow> time_shape m
          | Some (t, i) \<Rightarrow> time_shape t \<and> digits i))"

definition is_valid_log_filename :: "string \<Rightarrow> bool" where
  "is_valid_log_filename filename =
     (let plain_name = strip_compression_suffix filename; rest = drop 10 plain_name
      in date_shape (take 10 plain_name) \<and>
         (rest = ''.log'' \<or> sequence_shape rest \<or> timestamp_shape rest))"

definition get_date_ts_from_filename :: "file_env \<Rightarrow> string \<Rightarrow> int" where
  "get_date_ts_from_filename env filename = fe_ts env (take 10 filename)"

text \<open>\<open>std::strtoll\<close> in base ten, saturating; \<open>std::atoi\<close> keeps the low 32 bits.\<close>

definition strtoll :: "string \<Rightarrow> int" where
  "strtoll s =
     (let t = dropWhile isspace s;
          neg = (t \<noteq> [] \<and> hd t = CHR ''-'');
          u = (if t \<noteq> [] \<and> (hd t = CHR ''-'' \<or> hd t = CHR ''+'') then tl t else t);
          n = int (digits_value (takeWhile isdigit u))
      in if neg then max (- n) (- (2 ^ 63)) else min n (2 ^ 63 - 1))"

definition atoi :: "string \<Rightarrow> int" where
  "atoi s = sint (word_of_int (strtoll s) :: 32 word)"

section \<open>Names of rotated files\<close>

text \<open>
  Both naming schemes end in the same search: count an index up until the
  candidate does not exist.  The index is a \<open>uint32_t\<close> in the source; the lemma
  \<open>first_free_bound\<close> shows that it stays below the number of files plus one.
\<close>

definition candidate :: "nat \<Rightarrow> string \<Rightarrow> nat \<Rightarrow> string" where
  "candidate width stem idx = stem @ ''.'' @ pad_left (CHR ''0'') width (dec_nat idx) @ ''.log''"

lemma digits_value_zeros: "digits_value (replicate n (CHR ''0'') @ s) = digits_value s"
  by (induction n) (simp_all add: digits_value_def)

lemma pad_left_inject:
  "pad_left (CHR ''0'') w (dec_nat i) = pad_left (CHR ''0'') w (dec_nat j) \<longleftrightarrow> i = j"
  by (metis digits_value_dec_nat digits_value_zeros pad_left_def)

lemma candidate_inject: "candidate w stem i = candidate w stem j \<longleftrightarrow> i = j"
  by (simp add: candidate_def pad_left_inject)

definition taken :: "disk \<Rightarrow> nat \<Rightarrow> string \<Rightarrow> nat \<Rightarrow> nat set" where
  "taken d width stem idx = {j. idx \<le> j \<and> fs_exists d (candidate width stem j)}"

lemma taken_finite: "finite (taken d width stem idx)"
proof -
  have "inj_on (candidate width stem) (taken d width stem idx)"
    by (simp add: inj_on_def candidate_inject)
  moreover have "candidate width stem ` taken d width stem idx \<subseteq> fst ` set d"
    by (auto simp: taken_def fs_exists_mem)
  ultimately show ?thesis by (metis List.finite_set finite_imageI finite_imageD finite_subset)
qed

function first_free :: "disk \<Rightarrow> nat \<Rightarrow> string \<Rightarrow> nat \<Rightarrow> string" where
  "first_free d width stem idx =
     (let rotated = candidate width stem idx
      in if \<not> fs_exists d rotated then rotated else first_free d width stem (idx + 1))"
  by pat_completeness auto
termination
proof (relation "measure (\<lambda>(d, width, stem, idx). card (taken d width stem idx))", simp)
  fix d width stem idx rotated
  assume "rotated = candidate width stem idx" "\<not> \<not> fs_exists d rotated"
  then have "taken d width stem idx = insert idx (taken d width stem (idx + 1))"
    by (auto simp: taken_def not_less_eq_eq le_Suc_eq)
  moreover have "idx \<notin> taken d width stem (idx + 1)" by (simp add: taken_def)
  ultimately show "((d, width, stem, idx + 1), (d, width, stem, idx))
      \<in> measure (\<lambda>(d, width, stem, idx). card (taken d width stem idx))"
    using taken_finite by simp
qed

declare first_free.simps [simp del]

definition make_sequence_name :: "FileLogger \<Rightarrow> string \<Rightarrow> string \<Rightarrow> string" where
  "make_sequence_name s base dir =
     first_free (fl_disk s) (fc_seq_width (fl_config s)) (dir @ ''/'' @ base) 1"

text \<open>\<open>gmtime\<close> and \<open>strftime\<close> with \<open>%H%M%S\<close>: the time of day of a second count.\<close>

definition two_digits :: "int \<Rightarrow> string" where
  "two_digits n = pad_left (CHR ''0'') 2 (dec_nat (nat n))"

definition time_part :: "int \<Rightarrow> string" where
  "time_part sec =
     (let t = sec mod 86400
      in two_digits (t div 3600) @ two_digits (t mod 3600 div 60) @ two_digits (t mod 60))"

text \<open>
  The milliseconds are \<open>ts_ms % 1000\<close> printed with \<open>%03d\<close>; the clock is after
  1970, where the C++ remainder is the mathematical one.
\<close>

definition make_timestamp_name :: "file_env \<Rightarrow> int \<Rightarrow> FileLogger \<Rightarrow> string \<Rightarrow> string \<Rightarrow> string" where
  "make_timestamp_name env now s base dir =
     (let timepart = time_part (fe_ms_to_sec env now) @
            (if fc_naming (fl_config s) = TimestampMs
             then pad_left (CHR ''0'') 3 (dec_nat (nat (now mod 1000))) else []);
          rotated = dir @ ''/'' @ base @ ''_'' @ timepart @ ''.log''
      in if \<not> fs_exists (fl_disk s) rotated then rotated
         else first_free (fl_disk s) 0 (dir @ ''/'' @ base @ ''_'' @ timepart) 1)"

definition make_rotated_name :: "file_env \<Rightarrow> int \<Rightarrow> FileLogger \<Rightarrow> string \<Rightarrow> string \<Rightarrow> string" where
  "make_rotated_name env now s base dir =
     (case fc_naming (fl_config s) of
        Sequence \<Rightarrow> make_sequence_name s base dir
      | Timestamp \<Rightarrow> make_timestamp_name env now s base dir
      | TimestampMs \<Rightarrow> make_timestamp_name env now s base dir)"

section \<open>Writing\<close>

text \<open>Sequencing of calls that may throw: an exception skips what follows.\<close>

type_synonym file_result = "file_error option \<times> FileLogger"

definition and_then :: "file_result \<Rightarrow> (FileLogger \<Rightarrow> file_result) \<Rightarrow> file_result" where
  "and_then r f = (case r of (Some e, s) \<Rightarrow> (Some e, s) | (None, s) \<Rightarrow> f s)"

definition open_log_file :: "file_env \<Rightarrow> int \<Rightarrow> FileLogger \<Rightarrow> file_result" where
  "open_log_file env date_ts s =
     (let path = create_file_path env date_ts s;
          s1 = s\<lparr>fl_file_open := False, fl_current_date_ts := date_ts, fl_file_path := path,
                 fl_file_name := get_file_name path\<rparr>
      in if \<not> fe_can_open env path then (Some (OpenFailed path), s1)
         else let d = fs_touch path (fl_disk s1)
              in (None, s1\<lparr>fl_file_open := True, fl_disk := d,
                           fl_current_file_size := length (case fs_read d path of None \<Rightarrow> [] | Some c \<Rightarrow> c)\<rparr>))"

definition is_old_log :: "file_env \<Rightarrow> FileLogger \<Rightarrow> string \<Rightarrow> bool" where
  "is_old_log env s file_path =
     (let threshold_ts = fl_current_date_ts s - fe_sec_per_day env * fc_auto_delete_days (fl_config s);
          filename = after_last is_sep file_path
      in is_valid_log_filename filename \<and> get_date_ts_from_filename env filename < threshold_ts)"

definition remove_paths :: "string list \<Rightarrow> disk \<Rightarrow> disk" where
  "remove_paths ps d = foldl (\<lambda>d p. fs_remove p d) d ps"

definition remove_old_logs :: "file_env \<Rightarrow> FileLogger \<Rightarrow> FileLogger" where
  "remove_old_logs env s =
     s\<lparr>fl_disk := remove_paths
         (filter (is_old_log env s) (get_list_files (fl_disk s) (get_directory_path env s))) (fl_disk s)\<rparr>"

text \<open>The lambda \<open>extract\<close> of the retention: time or index, and a second index.\<close>

definition extract_rotation :: "string \<Rightarrow> string \<Rightarrow> int \<times> int" where
  "extract_rotation base name =
     (let rest = drop (length base) name
      in if rest \<noteq> [] \<and> (hd rest = CHR ''_'' \<or> hd rest = CHR ''.'') then
           (case split_at (CHR ''.'') (tl rest) of
              None \<Rightarrow> (strtoll (tl rest), 0)
            | Some (t, after) \<Rightarrow>
                (strtoll t,
                 case split_at (CHR ''.'') after of None \<Rightarrow> 0 | Some (i, _) \<Rightarrow> atoi i))
         else (0, 0))"

definition rotated_files :: "disk \<Rightarrow> string \<Rightarrow> string \<Rightarrow> string list" where
  "rotated_files d base dir =
     filter (\<lambda>path. let name = after_last is_sep path in prefix base name \<and> name \<noteq> base @ ''.log'')
       (get_list_files d dir)"

definition enforce_rotation_retention :: "string \<Rightarrow> nat \<Rightarrow> string \<Rightarrow> FileLogger \<Rightarrow> FileLogger" where
  "enforce_rotation_retention base max_files dir s =
     (let files = rotated_files (fl_disk s) base dir
      in if length files \<le> max_files then s
         else let sorted = sort_key (\<lambda>p. extract_rotation base (after_last is_sep p)) files
              in s\<lparr>fl_disk := remove_paths (take (length files - max_files) sorted) (fl_disk s)\<rparr>)"

definition compress_rotated :: "file_env \<Rightarrow> string \<Rightarrow> FileLogger \<Rightarrow> FileLogger" where
  "compress_rotated env rotated s =
     (let c = fl_config s
      in if fc_compress c = NONE then s
         else if fc_compress_async c then
           (let w = (case fl_compressor s of
                       None \<Rightarrow> CompressionWorker_init (fc_compress c) (fc_compress_level c) (fc_external_cmd c)
                     | Some w \<Rightarrow> w)
            in s\<lparr>fl_compressor := Some (cw_enqueue rotated w)\<rparr>)
         else s\<lparr>fl_disk := snd (compress_file (fe_codec env) (fc_compress c) rotated (fc_compress_level c)
                  (fc_external_cmd c) (fl_disk s))\<rparr>)"

definition rotate_current_file :: "file_env \<Rightarrow> int \<Rightarrow> FileLogger \<Rightarrow> file_result" where
  "rotate_current_file env now s =
     (let s0 = s\<lparr>fl_file_open := False\<rparr>;
          base = fe_to_iso8601_date env (fl_current_date_ts s0);
          dir = get_directory_path env s0;
          cur = dir @ ''/'' @ base @ ''.log'';
          rotated = make_rotated_name env now s0 base dir
      in case fs_rename cur rotated (fl_disk s0) of
           None \<Rightarrow> (Some RenameFailed, s0)
         | Some d \<Rightarrow>
             and_then (open_log_file env (fl_current_date_ts s0) (s0\<lparr>fl_disk := d\<rparr>))
               (\<lambda>s1. let s2 = compress_rotated env rotated (s1\<lparr>fl_current_file_size := 0\<rparr>)
                     in (None, if 0 < fc_max_rotated_files (fl_config s2)
                               then enforce_rotation_retention base (fc_max_rotated_files (fl_config s2)) dir s2
                               else s2)))"

definition append_line :: "string \<Rightarrow> FileLogger \<Rightarrow> FileLogger" where
  "append_line message s =
     (if fl_file_open s
      then s\<lparr>fl_disk := fs_append (fl_file_path s) (message @ [CHR 0x0A]) (fl_disk s),
             fl_current_file_size := fl_current_file_size s + (length message + 1)\<rparr>
      else s)"

definition open_for_date :: "file_env \<Rightarrow> int \<Rightarrow> FileLogger \<Rightarrow> file_result" where
  "open_for_date env message_date_ts s =
     (if message_date_ts \<noteq> fl_current_date_ts s then open_log_file env message_date_ts s else (None, s))"

definition rotate_if_full :: "file_env \<Rightarrow> int \<Rightarrow> string \<Rightarrow> FileLogger \<Rightarrow> file_result" where
  "rotate_if_full env now message s =
     (let max_size = fc_max_file_size_bytes (fl_config s)
      in if 0 < max_size \<and> max_size < fl_current_file_size s + (length message + 1)
         then rotate_current_file env now s else (None, s))"

definition write_log :: "file_env \<Rightarrow> int \<Rightarrow> string \<Rightarrow> int \<Rightarrow> FileLogger \<Rightarrow> file_result" where
  "write_log env now message timestamp_ms s =
     (let message_date_ts = fe_start_of_day env (fe_ms_to_sec env timestamp_ms)
      in and_then (open_for_date env message_date_ts s) (\<lambda>s1.
           and_then (rotate_if_full env now message s1) (\<lambda>s2.
             (None, remove_old_logs env (append_line message s2)))))"

text \<open>
  A write task carries the message and its timestamp; the third component is the
  clock at the moment it runs.  Exceptions are caught around every call of
  \<open>write_log\<close> and reported on the error stream.
\<close>

type_synonym file_task = "string \<times> int \<times> int"

definition run_file_task :: "file_env \<Rightarrow> FileLogger \<Rightarrow> file_task \<Rightarrow> FileLogger" where
  "run_file_task env s task =
     (case task of (message, timestamp_ms, now) \<Rightarrow> snd (write_log env now message timestamp_ms s))"

text \<open>One pass of the compression worker's loop over the logger's disk.\<close>

definition compressor_pass :: "file_env \<Rightarrow> FileLogger \<Rightarrow> FileLogger" where
  "compressor_pass env s =
     (case fl_compressor s of
        None \<Rightarrow> s
      | Some w \<Rightarrow>
          (case cw_take w of
             None \<Rightarrow> s
           | Some w1 \<Rightarrow>
               (case cw_finish (fe_codec env) w1 (fl_disk s) of
                  (w2, d) \<Rightarrow> s\<lparr>fl_compressor := Some w2, fl_disk := d\<rparr>)))"

section \<open>Lifecycle\<close>

definition start_logging :: "file_env \<Rightarrow> int \<Rightarrow> FileLogger \<Rightarrow> file_result" where
  "start_logging env now s =
     (case create_directories (fe_mkdir env) (get_directory_path env s) of
        Inl p \<Rightarrow> (Some (CreateDirFailed p), s)
      | Inr _ \<Rightarrow>
          and_then (open_log_file env (fe_start_of_day env (fe_ms_to_sec env now)) s)
            (\<lambda>s1. (None, remove_old_logs env s1)))"

definition FileLogger_init :: "file_env \<Rightarrow> int \<Rightarrow> FileLogger_Config \<Rightarrow> disk \<Rightarrow> FileLogger" where
  "FileLogger_init env now config d =
     snd (start_logging env now
       \<lparr>fl_config = config, fl_disk = d, fl_file_open = False, fl_file_path = [], fl_file_name = [],
        fl_current_date_ts = 0, fl_current_file_size = 0, fl_compressor = None,
        fl_executor = (if fc_async config \<and> fc_use_dedicated_executor config
                       then Some (fc_queue_capacity config, fc_queue_policy config) else None),
        fl_last_log_ts = 0, fl_last_log_mono_ts = 0, fl_log_level = LOG_LVL_TRACE, fl_shutdown = False\<rparr>)"

text \<open>\<open>log\<close>: the task to hand to the executor, if any, and the new state.\<close>

definition FileLogger_log :: "file_env \<Rightarrow> int \<Rightarrow> int \<Rightarrow> LogRecord \<Rightarrow> string \<Rightarrow> FileLogger
   \<Rightarrow> (string \<times> int) option \<times> FileLogger" where
  "FileLogger_log env now mono_ms record message s =
     (if fl_shutdown s then (None, s)
      else let s1 = s\<lparr>fl_last_log_ts := lr_timestamp_ms record, fl_last_log_mono_ts := mono_ms\<rparr>
           in if \<not> fc_async (fl_config s1)
              then (None, snd (write_log env now message (lr_timestamp_ms record) s1))
              else (Some (message, lr_timestamp_ms record), s1))"

text \<open>\<open>pending\<close> are the tasks the executor still holds, which a drain runs in order.\<close>

definition FileLogger_wait :: "file_env \<Rightarrow> file_task list \<Rightarrow> FileLogger \<Rightarrow> FileLogger" where
  "FileLogger_wait env pending s =
     (if fc_async (fl_config s) then foldl (run_file_task env) s pending else s)"

definition FileLogger_shutdown :: "file_env \<Rightarrow> file_task list \<Rightarrow> FileLogger \<Rightarrow> FileLogger" where
  "FileLogger_shutdown env pending s =
     (if fl_shutdown s then s
      else let s1 = s\<lparr>fl_shutdown := True\<rparr>
           in if fl_executor s1 \<noteq> None then foldl (run_file_task env) s1 pending
              else if fc_async (fl_config s1) then FileLogger_wait env pending s1
              else s1)"

definition stop_logging :: "file_env \<Rightarrow> file_task list \<Rightarrow> FileLogger \<Rightarrow> FileLogger" where
  "stop_logging env pending s = (FileLogger_wait env pending s)\<lparr>fl_file_open := False\<rparr>"

definition FileLogger_set_config :: "file_env \<Rightarrow> file_task list \<Rightarrow> FileLogger_Config \<Rightarrow> FileLogger \<Rightarrow> FileLogger" where
  "FileLogger_set_config env pending config s =
     (if fl_shutdown s then s
      else let s1 = (if fc_async (fl_config s) then foldl (run_file_task env) s pending else s);
               c = (fl_config s1)\<lparr>fc_async := fc_async config,
                      fc_use_dedicated_executor := fc_use_dedicated_executor config,
                      fc_queue_capacity := fc_queue_capacity config,
                      fc_queue_policy := fc_queue_policy config\<rparr>
           in s1\<lparr>fl_config := c,
                 fl_executor := (if fc_async c \<and> fc_use_dedicated_executor c
                                 then Some (fc_queue_capacity c, fc_queue_policy c) else None)\<rparr>)"

definition FileLogger_set_queue_config :: "nat \<Rightarrow> QueuePolicy \<Rightarrow> FileLogger \<Rightarrow> bool \<times> FileLogger" where
  "FileLogger_set_queue_config queue_capacity queue_policy s =
     (if fl_shutdown s then (False, s)
      else let s1 = s\<lparr>fl_config := (fl_config s)\<lparr>fc_queue_capacity := queue_capacity,
                        fc_queue_policy := queue_policy\<rparr>\<rparr>
           in if fl_executor s1 = None then (False, s1)
              else (True, s1\<lparr>fl_executor := Some (queue_capacity, queue_policy)\<rparr>))"

definition FileLogger_get_string_param :: "int \<Rightarrow> LoggerParam \<Rightarrow> FileLogger \<Rightarrow> string" where
  "FileLogger_get_string_param mono_ms param s =
     (case param of
        LastFileName \<Rightarrow> fl_file_name s
      | LastFilePath \<Rightarrow> fl_file_path s
      | LastLogTimestamp \<Rightarrow> dec_int (fl_last_log_ts s)
      | TimeSinceLastLog \<Rightarrow> dec_int (mono_ms - fl_last_log_mono_ts s)
      | _ \<Rightarrow> [])"

definition FileLogger_get_int_param :: "int \<Rightarrow> LoggerParam \<Rightarrow> FileLogger \<Rightarrow> int" where
  "FileLogger_get_int_param mono_ms param s =
     (case param of
        LastLogTimestamp \<Rightarrow> fl_last_log_ts s
      | TimeSinceLastLog \<Rightarrow> mono_ms - fl_last_log_mono_ts s
      | _ \<Rightarrow> 0)"

section \<open>Listing, reading and clearing\<close>

definition is_direct_child_path :: "string \<Rightarrow> string \<Rightarrow> bool" where
  "is_direct_child_path file_path directory_path =
     (list_ex is_sep file_path \<and> before_last is_sep file_path = directory_path)"

definition normalize_path_separators :: "string \<Rightarrow> string" where
  "normalize_path_separators path = map (\<lambda>c. if c = CHR 0x5C then CHR ''/'' else c) path"

definition same_path :: "string \<Rightarrow> string \<Rightarrow> bool" where
  "same_path lhs rhs = (normalize_path_separators lhs = normalize_path_separators rhs)"

definition try_make_log_file_info :: "file_env \<Rightarrow> FileLogger \<Rightarrow> string \<Rightarrow> string \<Rightarrow> LogFileInfo option" where
  "try_make_log_file_info env s file_path current_file_path =
     (if \<not> is_direct_child_path file_path (get_directory_path env s) then None
      else let filename = get_file_name file_path
           in if \<not> is_valid_log_filename filename then None
              else let cur = same_path file_path current_file_path
                   in Some \<lparr>fi_path = (if cur then current_file_path else file_path),
                            fi_name = filename,
                            fi_day_start_ms = fe_sec_to_ms env (get_date_ts_from_filename env filename),
                            fi_is_current = cur,
                            fi_is_compressed = is_compressed_log_filename filename\<rparr>)"

record FileSortKey =
  sk_kind_rank :: int
  sk_primary :: int
  sk_secondary :: int
  sk_artifact_name :: string

definition make_file_sort_key :: "LogFileInfo \<Rightarrow> FileSortKey" where
  "make_file_sort_key info =
     (let plain_name = strip_compression_suffix (fi_name info);
          key = \<lparr>sk_kind_rank = 0, sk_primary = 0, sk_secondary = 0, sk_artifact_name = plain_name\<rparr>;
          rest = take (length plain_name - 15) (drop 11 plain_name)
      in if 15 < length plain_name \<and> plain_name ! 10 = CHR ''_'' then
           (case split_at (CHR ''.'') rest of
              None \<Rightarrow> key\<lparr>sk_kind_rank := 2, sk_primary := strtoll rest\<rparr>
            | Some (t, i) \<Rightarrow>
                key\<lparr>sk_kind_rank := 2, sk_primary := strtoll t, sk_secondary := strtoll i\<rparr>)
         else if 15 < length plain_name \<and> plain_name ! 10 = CHR ''.'' then
           key\<lparr>sk_kind_rank := 1, sk_primary := strtoll rest\<rparr>
         else key)"

text \<open>The comparison of \<open>sort_log_files_newest_first\<close>.\<close>

definition newer_file :: "LogFileInfo \<Rightarrow> LogFileInfo \<Rightarrow> bool" where
  "newer_file lhs rhs =
     (let lk = make_file_sort_key lhs; rk = make_file_sort_key rhs
      in if fi_day_start_ms lhs \<noteq> fi_day_start_ms rhs then fi_day_start_ms rhs < fi_day_start_ms lhs
         else if fi_is_current lhs \<noteq> fi_is_current rhs then fi_is_current lhs \<and> \<not> fi_is_current rhs
         else if sk_kind_rank lk \<noteq> sk_kind_rank rk then sk_kind_rank rk < sk_kind_rank lk
         else if sk_primary lk \<noteq> sk_primary rk then sk_primary rk < sk_primary lk
         else if sk_secondary lk \<noteq> sk_secondary rk then sk_secondary rk < sk_secondary lk
         else if sk_artifact_name lk = sk_artifact_name rk \<and> fi_is_compressed lhs \<noteq> fi_is_compressed rhs
         then \<not> fi_is_compressed lhs \<and> fi_is_compressed rhs
         else if sk_artifact_name lk \<noteq> sk_artifact_name rk then sk_artifact_name rk < sk_artifact_name lk
         else normalize_path_separators (fi_path rhs) < normalize_path_separators (fi_path lhs))"

text \<open>
  \<open>std::sort\<close> with a comparison: the order of equivalent elements is left open
  by the standard; here it is the order of the input.
\<close>

fun insert_by :: "('a \<Rightarrow> 'a \<Rightarrow> bool) \<Rightarrow> 'a \<Rightarrow> 'a list \<Rightarrow> 'a list" where
  "insert_by before x [] = [x]"
| "insert_by before x (y # ys) = (if before y x then y # insert_by before x ys else x # y # ys)"

definition sort_by :: "('a \<Rightarrow> 'a \<Rightarrow> bool) \<Rightarrow> 'a list \<Rightarrow> 'a list" where
  "sort_by before xs = foldr (insert_by before) xs []"

definition FileLogger_list_log_files :: "file_env \<Rightarrow> FileLogger \<Rightarrow> LogFileInfo list" where
  "FileLogger_list_log_files env s =
     sort_by newer_file
       (List.map_filter (\<lambda>p. try_make_log_file_info env s p (fl_file_path s))
          (get_list_files (fl_disk s) (get_directory_path env s)))"

definition read_log_file_from_info :: "file_env \<Rightarrow> FileLogger \<Rightarrow> LogFileInfo \<Rightarrow> LogFileReadResult" where
  "read_log_file_from_info env s info =
     (case fs_read (fl_disk s) (fi_path info) of
        None \<Rightarrow> \<lparr>rr_file = info, rr_content = [], rr_ok = False\<rparr>
      | Some file_bytes \<Rightarrow>
          if fi_is_compressed info then
            (case decompress_string_by_suffix (fe_codec env) (fi_path info) file_bytes of
               None \<Rightarrow> \<lparr>rr_file = info, rr_content = [], rr_ok = False\<rparr>
             | Some content \<Rightarrow> \<lparr>rr_file = info, rr_content = content, rr_ok = True\<rparr>)
          else \<lparr>rr_file = info, rr_content = file_bytes, rr_ok = True\<rparr>)"

definition unknown_file :: "string \<Rightarrow> LogFileReadResult" where
  "unknown_file path =
     \<lparr>rr_file = LogFileInfo_init\<lparr>fi_path := path, fi_name := get_file_name path\<rparr>, rr_content = [],
      rr_ok = False\<rparr>"

definition read_listed :: "file_env \<Rightarrow> FileLogger \<Rightarrow> LogFileInfo list \<Rightarrow> string \<Rightarrow> LogFileReadResult" where
  "read_listed env s files path =
     (case find (\<lambda>info. same_path (fi_path info) path) files of
        Some info \<Rightarrow> read_log_file_from_info env s info
      | None \<Rightarrow> unknown_file path)"

definition FileLogger_read_log_file :: "file_env \<Rightarrow> string \<Rightarrow> FileLogger \<Rightarrow> LogFileReadResult" where
  "FileLogger_read_log_file env path s = read_listed env s (FileLogger_list_log_files env s) path"

definition FileLogger_read_log_files :: "file_env \<Rightarrow> string list \<Rightarrow> FileLogger \<Rightarrow> LogFileReadResult list" where
  "FileLogger_read_log_files env paths s =
     (let files = FileLogger_list_log_files env s in map (read_listed env s files) paths)"

fun remove_counting :: "string list \<Rightarrow> disk \<Rightarrow> nat \<times> disk" where
  "remove_counting [] d = (0, d)"
| "remove_counting (p # ps) d =
     (case remove_counting ps (fs_remove p d) of
        (n, d') \<Rightarrow> ((if fs_exists d p then n + 1 else n), d'))"

definition FileLogger_clear_logs :: "file_env \<Rightarrow> int \<Rightarrow> file_task list \<Rightarrow> LogClearOptions \<Rightarrow> FileLogger
   \<Rightarrow> LogClearResult \<times> FileLogger" where
  "FileLogger_clear_logs env now pending options s0 =
     (let s = FileLogger_wait env pending s0
      in if fl_shutdown s then
           (\<lparr>cl_ok = False, cl_status = Failed, cl_cleared_records = 0,
             cl_message = ''FileLogger is shut down''\<rparr>, s)
         else let files = FileLogger_list_log_files env s;
                  (n, d) = remove_counting (map fi_path files) (fl_disk s);
                  s1 = s\<lparr>fl_file_open := False, fl_disk := d, fl_current_file_size := 0,
                         fl_last_log_ts := 0, fl_last_log_mono_ts := 0\<rparr>
              in case open_log_file env (fe_start_of_day env (fe_ms_to_sec env now)) s1 of
                   (Some (OpenFailed path), s2) \<Rightarrow>
                     (\<lparr>cl_ok = False, cl_status = Failed, cl_cleared_records = n,
                       cl_message = ''FileLogger clear error: Failed to open log file: '' @ path\<rparr>, s2)
                 | (Some e, s2) \<Rightarrow>
                     (\<lparr>cl_ok = False, cl_status = Failed, cl_cleared_records = n,
                       cl_message = ''FileLogger clear error''\<rparr>, s2)
                 | (None, s2) \<Rightarrow>
                     (\<lparr>cl_ok = True, cl_status = Cleared, cl_cleared_records = n, cl_message = ''cleared''\<rparr>, s2))"

section \<open>The backend as an \<open>ILogger\<close>\<close>

definition file_ilogger :: "file_env \<Rightarrow> int \<Rightarrow> int \<Rightarrow> file_task list \<Rightarrow> FileLogger ILogger" where
  "file_ilogger env now mono_ms pending =
     \<lparr>il_log = (\<lambda>record message s. snd (FileLogger_log env now mono_ms record message s)),
      il_supports_concurrent_log = (\<lambda>_. False),
      il_get_string_param = FileLogger_get_string_param mono_ms,
      il_get_int_param = FileLogger_get_int_param mono_ms,
      il_set_log_level = (\<lambda>level s. s\<lparr>fl_log_level := level\<rparr>),
      il_get_log_level = fl_log_level,
      il_get_buffered_strings = ILogger_get_buffered,
      il_get_buffered_entries = ILogger_get_buffered,
      il_list_log_files = FileLogger_list_log_files env,
      il_read_log_file = FileLogger_read_log_file env,
      il_clear_logs = FileLogger_clear_logs env now pending,
      il_wait = FileLogger_wait env pending,
      il_shutdown = FileLogger_shutdown env pending\<rparr>"

text \<open>Writing never touches the configuration, the level or the shutdown flag.\<close>

definition same_setup :: "FileLogger \<Rightarrow> FileLogger \<Rightarrow> bool" where
  "same_setup s s' =
     (fl_config s' = fl_config s \<and> fl_log_level s' = fl_log_level s \<and> fl_shutdown s' = fl_shutdown s)"

lemma same_setup_refl [simp]: "same_setup s s"
  and same_setup_trans: "same_setup s t \<Longrightarrow> same_setup t u \<Longrightarrow> same_setup s u"
  by (simp_all add: same_setup_def)

lemma and_then_setup:
  "same_setup s (snd r) \<Longrightarrow> (\<And>t. same_setup t (snd (f t))) \<Longrightarrow> same_setup s (snd (and_then r f))"
  by (cases r) (auto simp: and_then_def split: option.split intro: same_setup_trans)

lemma open_setup: "same_setup s (snd (open_log_file env date_ts s))"
  by (simp add: same_setup_def open_log_file_def Let_def)

lemma rotate_setup: "same_setup s (snd (rotate_current_file env now s))"
proof -
  have retention: "same_setup t (enforce_rotation_retention base n dir u)" if "same_setup t u" for base n dir t u
    using that by (simp add: same_setup_def enforce_rotation_retention_def Let_def)
  have compress: "same_setup t (compress_rotated env rotated (t\<lparr>fl_current_file_size := 0\<rparr>))" for rotated t
    by (simp add: same_setup_def compress_rotated_def Let_def)
  have reopen: "same_setup s (snd (open_log_file env date_ts (s\<lparr>fl_file_open := b, fl_disk := d\<rparr>)))"
    for date_ts b d
    by (simp add: same_setup_def open_log_file_def Let_def)
  show ?thesis
    unfolding rotate_current_file_def Let_def
    by (auto split: option.splits intro!: and_then_setup retention compress reopen)
       (simp add: same_setup_def)
qed

lemma write_setup: "same_setup s (snd (write_log env now message ts s))"
proof -
  have "same_setup t (remove_old_logs env (append_line message t))" for t
    by (simp add: same_setup_def remove_old_logs_def append_line_def)
  moreover have "same_setup t (snd (open_for_date env d t))" "same_setup t (snd (rotate_if_full env now message t))"
    for d t
    by (simp_all add: open_for_date_def rotate_if_full_def Let_def open_setup rotate_setup)
  ultimately show ?thesis
    unfolding write_log_def Let_def by (intro and_then_setup) simp_all
qed

lemma tasks_setup: "same_setup s (foldl (run_file_task env) s tasks)"
  by (induction tasks rule: rev_induct)
     (auto simp: run_file_task_def split: prod.split intro: same_setup_trans write_setup)

interpretation file_level: levelled_logger "file_ilogger env now mono_ms pending"
proof
  have writing: "fl_log_level (snd (write_log env now message ts s)) = fl_log_level s" for message ts s
    using write_setup [of s env now message ts] by (simp add: same_setup_def)
  have tasks: "fl_log_level (foldl (run_file_task env) s pending) = fl_log_level s" for s
    using tasks_setup [of s env pending] by (simp add: same_setup_def)
  show "il_get_log_level (file_ilogger env now mono_ms pending)
      (il_log (file_ilogger env now mono_ms pending) r msg l)
    = il_get_log_level (file_ilogger env now mono_ms pending) l" for r msg l
    by (simp add: file_ilogger_def FileLogger_log_def Let_def writing)
  show "il_get_log_level (file_ilogger env now mono_ms pending)
      (il_wait (file_ilogger env now mono_ms pending) l)
    = il_get_log_level (file_ilogger env now mono_ms pending) l" for l
    by (simp add: file_ilogger_def FileLogger_wait_def tasks)
  show "il_get_log_level (file_ilogger env now mono_ms pending)
      (il_shutdown (file_ilogger env now mono_ms pending) l)
    = il_get_log_level (file_ilogger env now mono_ms pending) l" for l
    by (simp add: file_ilogger_def FileLogger_shutdown_def FileLogger_wait_def Let_def tasks)
qed (simp add: file_ilogger_def)

end
