(* ===== verification/FileLoggerProps.thy ===== *)
theory FileLoggerProps
  imports FileLogger
begin

text \<open>
  What the file backend guarantees: rotated names are fresh and well formed,
  rotation loses no byte and respects the size limit, the listing is complete
  and ordered, reading and clearing stay inside the backend's own files.
\<close>

section \<open>Names of rotated files\<close>

lemma first_free_spec:
  "\<exists>idx' \<ge> idx. first_free d w stem idx = candidate w stem idx' \<and>
     \<not> fs_exists d (candidate w stem idx') \<and>
     (\<forall>j. idx \<le> j \<and> j < idx' \<longrightarrow> fs_exists d (candidate w stem j))"
proof (induction d w stem idx rule: first_free.induct)
  case (1 d w stem idx)
  show ?case
  proof (cases "fs_exists d (candidate w stem idx)")
    case False
    then show ?thesis by (intro exI [of _ idx]) (auto simp: first_free.simps)
  next
    case True
    with 1 obtain idx' where idx': "idx + 1 \<le> idx'"
      "first_free d w stem (idx + 1) = candidate w stem idx'"
      "\<not> fs_exists d (candidate w stem idx')"
      "\<forall>j. idx + 1 \<le> j \<and> j < idx' \<longrightarrow> fs_exists d (candidate w stem j)"
      by auto
    have "first_free d w stem idx = candidate w stem idx'"
      using True idx'(2) by (simp add: first_free.simps [of d w stem idx])
    moreover have "fs_exists d (candidate w stem j)" if "idx \<le> j" "j < idx'" for j
      using that True idx'(4) by (cases "j = idx") auto
    ultimately show ?thesis using idx'(1,3) by (intro exI [of _ idx']) auto
  qed
qed

lemma first_free_bound:
  assumes "\<forall>j. idx \<le> j \<and> j < idx' \<longrightarrow> fs_exists d (candidate w stem j)" "idx \<le> idx'"
  shows "idx' \<le> idx + length d"
proof -
  have "inj_on (candidate w stem) {idx..<idx'}" by (simp add: inj_on_def candidate_inject)
  moreover have "candidate w stem ` {idx..<idx'} \<subseteq> set (map fst d)"
    using assms by (auto simp: fs_exists_mem)
  ultimately have "card {idx..<idx'} \<le> card (set (map fst d))"
    by (metis List.finite_set card_image card_mono)
  also have "\<dots> \<le> length d" using card_length [of "map fst d"] by simp
  finally show ?thesis by simp
qed

lemma ends_with_last: "ends_with t sfx \<Longrightarrow> sfx \<noteq> [] \<Longrightarrow> last t = last sfx"
  by (auto simp: ends_with_def suffix_def)

lemma log_not_compressed [simp]:
  "ends_with (x @ ''.log'') ''.gz'' = False" "ends_with (x @ ''.log'') ''.zst'' = False"
  "ends_with (x @ ''.log'') ''.log''"
  using ends_with_last [of "x @ ''.log''" "''.gz''"]
  by (auto simp: ends_with_def suffix_def)

lemma digit_no_sep: "isdigit c \<Longrightarrow> \<not> is_sep c \<and> c \<noteq> CHR ''.'' \<and> c \<noteq> CHR ''_''"
  by (auto simp: isdigit_def is_sep_def)

lemma digits_no_sep: "digits s \<Longrightarrow> c \<in> set s \<Longrightarrow> \<not> is_sep c \<and> c \<noteq> CHR ''.'' \<and> c \<noteq> CHR ''_''"
  by (auto simp: digits_def list_all_iff digit_no_sep)

lemma digits_slash: "digits s \<Longrightarrow> CHR ''/'' \<notin> set s \<and> CHR 0x5C \<notin> set s"
  using digits_no_sep by (auto simp: is_sep_def)

lemma digits_append [simp]: "digits a \<Longrightarrow> digits b \<Longrightarrow> digits (a @ b)"
  by (simp add: digits_def)

lemma digits_pad: "digits (pad_left (CHR ''0'') w (dec_nat n))"
proof -
  have "isdigit (CHR ''0'')" by (simp add: isdigit_def)
  then show ?thesis using dec_nat_digits [of _ n] by (auto simp: digits_def pad_left_def list_all_iff)
qed

lemma length_dec_nat: "n < 10 ^ Suc k \<Longrightarrow> length (dec_nat n) \<le> Suc k"
proof (induction k arbitrary: n)
  case 0
  then show ?case by (subst dec_nat.simps) simp
next
  case (Suc k)
  then have "n div 10 < 10 ^ Suc k" by (simp add: less_mult_imp_div_less)
  with Suc.IH show ?case by (subst dec_nat.simps) simp
qed

lemma two_digits_shape: "n < 100 \<Longrightarrow> digits (two_digits n) \<and> length (two_digits n) = 2"
proof -
  assume "n < 100"
  then have "nat n < 10 ^ Suc 1" by simp
  from length_dec_nat [OF this] show ?thesis by (simp add: two_digits_def digits_pad)
qed

lemma time_part_shape: "digits (time_part sec) \<and> length (time_part sec) = 6"
proof -
  define t where "t = sec mod 86400"
  have "t < 86400" by (simp add: t_def)
  then have "t div 3600 < 24" by linarith
  moreover have "t mod 3600 < 3600" by simp
  then have "t mod 3600 div 60 < 60" by linarith
  moreover have "t mod 60 < 60" by simp
  ultimately show ?thesis
    using two_digits_shape unfolding time_part_def Let_def t_def [symmetric] by simp
qed

lemma date_shape_chars: "date_shape d \<Longrightarrow> c \<in> set d \<Longrightarrow> isdigit c \<or> c = CHR ''-''"
proof -
  assume d: "date_shape d" and c: "c \<in> set d"
  then obtain i where i: "i < length d" "c = d ! i" by (auto simp: in_set_conv_nth)
  have len: "length d = 10" using d by (simp add: date_shape_def)
  consider "i < 4" | "i = 4" | "i = 5 + (i - 5)" "i - 5 < 2" | "i = 7" | "i = 8 + (i - 8)" "i - 8 < 2"
    using i(1) len by linarith
  then show ?thesis
  proof cases
    case 1
    then have "c = take 4 d ! i" "i < length (take 4 d)" using i len by auto
    then show ?thesis using d by (metis date_shape_def digits_def list_all_length)
  next
    case 3
    then have "c = take 2 (drop 5 d) ! (i - 5)" "i - 5 < length (take 2 (drop 5 d))" using i len by auto
    then show ?thesis using d by (metis date_shape_def digits_def list_all_length)
  next
    case 5
    then have "c = drop 8 d ! (i - 8)" "i - 8 < length (drop 8 d)" using i len by auto
    then show ?thesis using d by (metis date_shape_def digits_def list_all_length)
  qed (use d i in \<open>auto simp: date_shape_def\<close>)
qed

lemma date_shape_plain: "date_shape d \<Longrightarrow> c \<in> set d \<Longrightarrow> \<not> is_sep c \<and> c \<noteq> CHR ''.''"
  using date_shape_chars [of d c] by (auto simp: isdigit_def is_sep_def)

text \<open>The two families of names a rotation produces.\<close>

lemma sequence_name_valid:
  assumes "date_shape base" "digits i"
  shows "is_valid_log_filename (base @ ''.'' @ i @ ''.log'')"
proof -
  have strip: "strip_compression_suffix (base @ ''.'' @ i @ ''.log'') = base @ ''.'' @ i @ ''.log''"
    using log_not_compressed [of "base @ ''.'' @ i"] by (simp add: strip_compression_suffix_def)
  have "length base = 10" using assms(1) by (simp add: date_shape_def)
  moreover have "sequence_shape (''.'' @ i @ ''.log'')"
    using assms(2) log_not_compressed(3) [of "''.'' @ i"] by (simp add: sequence_shape_def)
  ultimately show ?thesis
    using assms(1) by (simp add: is_valid_log_filename_def strip [simplified])
qed

lemma timestamp_name_valid:
  assumes "date_shape base" "time_shape t" "i = [] \<or> (\<exists>j. i = CHR ''.'' # j \<and> digits j)"
  shows "is_valid_log_filename (base @ ''_'' @ t @ i @ ''.log'')"
proof -
  have strip: "strip_compression_suffix (base @ ''_'' @ t @ i @ ''.log'') = base @ ''_'' @ t @ i @ ''.log''"
    using log_not_compressed [of "base @ ''_'' @ t @ i"] by (simp add: strip_compression_suffix_def)
  have "length base = 10" using assms(1) by (simp add: date_shape_def)
  moreover have "CHR ''.'' \<notin> set t"
    using assms(2) digits_no_sep by (auto simp: time_shape_def)
  then have "case split_at (CHR ''.'') (t @ i) of None \<Rightarrow> time_shape (t @ i)
      | Some (t, i) \<Rightarrow> time_shape t \<and> digits i"
    using assms(2,3) by (auto simp: split_at_None [THEN iffD2])
  then have "timestamp_shape (''_'' @ t @ i @ ''.log'')"
    using log_not_compressed(3) [of "''_'' @ t @ i"] by (simp add: timestamp_shape_def Let_def)
  ultimately show ?thesis
    using assms(1) by (simp add: is_valid_log_filename_def strip [simplified])
qed

text \<open>A file of the given day in the directory, other than the day's own file.\<close>

definition rotated_form :: "string \<Rightarrow> string \<Rightarrow> string \<Rightarrow> bool" where
  "rotated_form base dir path =
     (is_direct_child_path path dir \<and> is_valid_log_filename (get_file_name path) \<and>
      \<not> is_compressed_log_filename (get_file_name path) \<and>
      take 10 (get_file_name path) = base \<and> get_file_name path \<noteq> base @ ''.log'')"

lemma rotated_formI:
  assumes "date_shape base" "is_valid_log_filename (base @ x @ ''.log'')" "x \<noteq> []"
    and "\<forall>c \<in> set x. \<not> is_sep c"
  shows "rotated_form base dir (dir @ ''/'' @ base @ x @ ''.log'')"
proof -
  have free: "\<forall>c \<in> set (base @ x @ ''.log''). \<not> is_sep c"
    using assms(4) date_shape_plain [OF assms(1)] by (auto simp: is_sep_def)
  have sep: "is_sep (CHR ''/'')" by (simp add: is_sep_def)
  have "get_file_name (dir @ ''/'' @ base @ x @ ''.log'') = base @ x @ ''.log''"
    using after_last_append [OF sep free, of dir] by (simp add: get_file_name_def)
  moreover have "is_direct_child_path (dir @ ''/'' @ base @ x @ ''.log'') dir"
    using before_last_append [OF sep free, of dir] sep by (simp add: is_direct_child_path_def)
  moreover have "length base = 10" using assms(1) by (simp add: date_shape_def)
  ultimately show ?thesis
    using assms(2,3) log_not_compressed [of "base @ x"]
    by (simp add: rotated_form_def is_compressed_log_filename_def)
qed

lemma sequence_name_spec:
  assumes "date_shape base"
  shows "\<not> fs_exists (fl_disk s) (make_sequence_name s base dir) \<and>
    rotated_form base dir (make_sequence_name s base dir)"
proof -
  let ?w = "fc_seq_width (fl_config s)"
  obtain i where i: "make_sequence_name s base dir = candidate ?w (dir @ ''/'' @ base) i"
    "\<not> fs_exists (fl_disk s) (candidate ?w (dir @ ''/'' @ base) i)"
    using first_free_spec [of 1 "fl_disk s" ?w "dir @ ''/'' @ base"] by (auto simp: make_sequence_name_def)
  let ?x = "''.'' @ pad_left (CHR ''0'') ?w (dec_nat i)"
  have "rotated_form base dir (dir @ ''/'' @ base @ ?x @ ''.log'')"
    using digits_pad digits_no_sep [OF digits_pad] sequence_name_valid [OF assms digits_pad]
    by (intro rotated_formI [OF assms]) (auto simp: is_sep_def)
  then show ?thesis using i by (simp add: candidate_def)
qed

lemma timestamp_name_spec:
  assumes "date_shape base"
  shows "\<not> fs_exists (fl_disk s) (make_timestamp_name env now s base dir) \<and>
    rotated_form base dir (make_timestamp_name env now s base dir)"
proof -
  define t where "t = time_part (fe_ms_to_sec env now) @
    (if fc_naming (fl_config s) = TimestampMs
     then pad_left (CHR ''0'') 3 (dec_nat (nat (now mod 1000))) else [])"
  have ms: "nat (now mod 1000) < 10 ^ Suc 2" by simp
  have t: "time_shape t"
    using time_part_shape [of "fe_ms_to_sec env now"] length_dec_nat [OF ms] digits_pad
    by (simp add: t_def time_shape_def)
  have form: "rotated_form base dir (dir @ ''/'' @ base @ (''_'' @ t @ i) @ ''.log'')"
    if "i = [] \<or> (\<exists>j. i = CHR ''.'' # j \<and> digits j)" for i
    using that t timestamp_name_valid [OF assms t that]
    by (intro rotated_formI [OF assms]) (auto simp: is_sep_def time_shape_def dest: digits_slash)
  show ?thesis
  proof (cases "fs_exists (fl_disk s) (dir @ ''/'' @ base @ ''_'' @ t @ ''.log'')")
    case False
    then show ?thesis
      using form [of "[]"] by (simp add: make_timestamp_name_def Let_def flip: t_def)
  next
    case True
    let ?stem = "dir @ ''/'' @ base @ ''_'' @ t"
    obtain i where i: "first_free (fl_disk s) 0 ?stem 1 = candidate 0 ?stem i"
      "\<not> fs_exists (fl_disk s) (candidate 0 ?stem i)"
      using first_free_spec [of 1 "fl_disk s" 0 ?stem] by auto
    have "rotated_form base dir (candidate 0 ?stem i)"
      using form [of "CHR ''.'' # pad_left (CHR ''0'') 0 (dec_nat i)"] digits_pad
      by (simp add: candidate_def)
    then show ?thesis
      using True i by (simp add: make_timestamp_name_def Let_def flip: t_def)
  qed
qed

text \<open>C28: rotation never overwrites a file, and what it produces is again a log file
  of the backend.  For each naming policy the name chosen for the rotated file is
  not in use, lies directly in the log directory, matches the backend's file name
  patterns with the day's date, and is not the day's own file.  With sequence
  naming it carries the smallest free index, which is at most one more than the
  number of files on the disk, so the 32-bit counter of the search does not wrap
  and the search ends.
\<close>

theorem rotated_name_fresh:
  assumes "date_shape base"
  shows "\<not> fs_exists (fl_disk s) (make_rotated_name env now s base dir) \<and>
    rotated_form base dir (make_rotated_name env now s base dir) \<and>
    (fc_naming (fl_config s) = Sequence \<longrightarrow>
      (\<exists>idx. idx \<le> length (fl_disk s) + 1 \<and>
        make_rotated_name env now s base dir =
          candidate (fc_seq_width (fl_config s)) (dir @ ''/'' @ base) idx \<and>
        (\<forall>j. 1 \<le> j \<and> j < idx \<longrightarrow>
          fs_exists (fl_disk s) (candidate (fc_seq_width (fl_config s)) (dir @ ''/'' @ base) j))))"
proof -
  let ?w = "fc_seq_width (fl_config s)" and ?stem = "dir @ ''/'' @ base"
  obtain idx where idx: "1 \<le> idx" "first_free (fl_disk s) ?w ?stem 1 = candidate ?w ?stem idx"
    "\<forall>j. 1 \<le> j \<and> j < idx \<longrightarrow> fs_exists (fl_disk s) (candidate ?w ?stem j)"
    using first_free_spec [of 1 "fl_disk s" ?w ?stem] by blast
  have "idx \<le> length (fl_disk s) + 1" using first_free_bound [OF idx(3,1)] by simp
  then show ?thesis
    using sequence_name_spec [OF assms, of s dir] timestamp_name_spec [OF assms, of s env now dir] idx
    by (cases "fc_naming (fl_config s)") (auto simp: make_rotated_name_def make_sequence_name_def)
qed

definition demo_env :: file_env where
  "demo_env =
     \<lparr>fe_exec_dir = ''/app'',
      fe_to_iso8601_date = (\<lambda>d. if d = 1704067200 then ''2024-01-01'' else ''2024-01-02''),
      fe_ts = (\<lambda>t. if t = ''2024-01-01'' then 1704067200 else 1704153600),
      fe_start_of_day = (\<lambda>t. t - t mod 86400), fe_ms_to_sec = (\<lambda>ms. ms div 1000),
      fe_sec_to_ms = (\<lambda>t. t * 1000), fe_sec_per_day = 86400, fe_can_open = (\<lambda>p. True),
      fe_mkdir = (\<lambda>p. True), fe_codec = demo_codec\<rparr>"

definition demo_file_logger :: "nat \<Rightarrow> nat \<Rightarrow> disk \<Rightarrow> FileLogger" where
  "demo_file_logger max_size max_rotated d =
     FileLogger_init demo_env 1704067200000
       (FileLogger_make_config ''logs'' False 30 max_size max_rotated False 0 Block) d"

theorem rotated_name_fresh_witness:
  "make_rotated_name demo_env 0 (demo_file_logger 4 0 [(''/app/logs/2024-01-01.001.log'', ''old'')])
     ''2024-01-01'' ''/app/logs'' = ''/app/logs/2024-01-01.002.log'' \<and>
   rotated_form ''2024-01-01'' ''/app/logs'' ''/app/logs/2024-01-01.002.log''"
proof -
  let ?s = "demo_file_logger 4 0 [(''/app/logs/2024-01-01.001.log'', ''old'')]"
  have "date_shape ''2024-01-01''" by code_simp
  moreover have "make_rotated_name demo_env 0 ?s ''2024-01-01'' ''/app/logs'' = ''/app/logs/2024-01-01.002.log''"
    by code_simp
  ultimately show ?thesis
    using rotated_name_fresh [of "''2024-01-01''" ?s demo_env 0 "''/app/logs''"] by simp
qed

section \<open>Rotation loses nothing\<close>

text \<open>
  The reference: how a sequence of lines is cut into files under a size limit,
  starting from the content of the current file (closed files, current file).
\<close>

abbreviation line :: "string \<Rightarrow> string" where
  "line message \<equiv> message @ [CHR 0x0A]"

fun cut_into_files :: "nat \<Rightarrow> string \<Rightarrow> string list \<Rightarrow> string list \<times> string" where
  "cut_into_files max_size cur [] = ([], cur)"
| "cut_into_files max_size cur (m # ms) =
     (if 0 < max_size \<and> max_size < length cur + (length m + 1)
      then (case cut_into_files max_size (line m) ms of (files, rest) \<Rightarrow> (cur # files, rest))
      else cut_into_files max_size (cur @ line m) ms)"

lemma cut_concat:
  "cut_into_files max_size cur ms = (files, rest) \<Longrightarrow>
   concat files @ rest = cur @ concat (map line ms)"
  by (induction ms arbitrary: cur files rest) (auto split: if_splits prod.splits)

lemma cut_sizes:
  "cut_into_files max_size cur ms = (files, rest) \<Longrightarrow> f \<in> set (files @ [rest]) \<Longrightarrow> 0 < max_size \<Longrightarrow>
   length f \<le> max_size \<or> f = cur \<or> f \<in> line ` set ms"
proof (induction ms arbitrary: cur files rest)
  case (Cons m ms)
  show ?case
  proof (cases "max_size < length cur + (length m + 1)")
    case True
    then obtain fs where fs: "cut_into_files max_size (line m) ms = (fs, rest)" "files = cur # fs"
      using Cons.prems by (auto split: prod.splits)
    then show ?thesis using Cons.IH [OF fs(1)] Cons.prems by auto
  next
    case False
    then have "cut_into_files max_size (cur @ line m) ms = (files, rest)" using Cons.prems by simp
    from Cons.IH [OF this] Cons.prems False show ?thesis by auto
  qed
qed auto

text \<open>
  What the backend relies on for one day: time_shield prints the date in ISO form
  and reads it back.
\<close>

definition day_ok :: "file_env \<Rightarrow> int \<Rightarrow> bool" where
  "day_ok env d = (date_shape (fe_to_iso8601_date env d) \<and> fe_ts env (fe_to_iso8601_date env d) = d)"

text \<open>The logger has the day's file open and knows its size.\<close>

definition day_open :: "file_env \<Rightarrow> int \<Rightarrow> string \<Rightarrow> FileLogger \<Rightarrow> bool" where
  "day_open env d cur s =
     (fl_file_open s \<and> fl_current_date_ts s = d \<and> fl_file_path s = create_file_path env d s \<and>
      fs_read (fl_disk s) (fl_file_path s) = Some cur \<and> fl_current_file_size s = length cur)"

text \<open>Rotated files are kept as they are, and old days are not in the future.\<close>

definition keeps_rotated :: "FileLogger_Config \<Rightarrow> bool" where
  "keeps_rotated c =
     (fc_compress c = NONE \<and> fc_max_rotated_files c = 0 \<and> 0 \<le> fc_auto_delete_days c)"

definition older_than :: "file_env \<Rightarrow> int \<Rightarrow> string \<Rightarrow> bool" where
  "older_than env d p =
     (is_valid_log_filename (get_file_name p) \<and> get_date_ts_from_filename env (get_file_name p) < d)"

lemma fs_read_remove_paths: "fs_read (remove_paths ps d) p = (if p \<in> set ps then None else fs_read d p)"
  unfolding remove_paths_def by (induction ps arbitrary: d) auto

lemma remove_old_logs_read:
  assumes "0 \<le> fe_sec_per_day env" "0 \<le> fc_auto_delete_days (fl_config s)"
  shows "fs_read (fl_disk (remove_old_logs env s)) p = fs_read (fl_disk s) p \<or>
    fs_read (fl_disk (remove_old_logs env s)) p = None \<and> older_than env (fl_current_date_ts s) p"
proof -
  have "0 \<le> fe_sec_per_day env * fc_auto_delete_days (fl_config s)" using assms by simp
  then show ?thesis
    by (auto simp: remove_old_logs_def fs_read_remove_paths is_old_log_def older_than_def get_file_name_def
             Let_def)
qed

lemma remove_old_logs_fields [simp]:
  "fl_config (remove_old_logs env s) = fl_config s" "fl_file_open (remove_old_logs env s) = fl_file_open s"
  "fl_file_path (remove_old_logs env s) = fl_file_path s"
  "fl_current_date_ts (remove_old_logs env s) = fl_current_date_ts s"
  "fl_current_file_size (remove_old_logs env s) = fl_current_file_size s"
  by (simp_all add: remove_old_logs_def)

lemma create_file_path_config: "fl_config s = fl_config t \<Longrightarrow> create_file_path env d s = create_file_path env d t"
  by (simp add: create_file_path_def get_directory_path_def)

lemma create_file_path_name:
  assumes "day_ok env d"
  shows "get_file_name (create_file_path env d s) = fe_to_iso8601_date env d @ ''.log''"
proof -
  have "\<forall>c \<in> set (fe_to_iso8601_date env d @ ''.log''). \<not> is_sep c"
    using assms date_shape_plain by (auto simp: day_ok_def is_sep_def)
  then show ?thesis
    using after_last_append [of is_sep "CHR ''/''" _ "get_directory_path env s"]
    by (simp add: get_file_name_def create_file_path_def is_sep_def)
qed

lemma day_file_not_older:
  assumes "day_ok env d"
  shows "\<not> older_than env d (create_file_path env d s)"
    and "rotated_form (fe_to_iso8601_date env d) dir r \<Longrightarrow> \<not> older_than env d r"
  using assms
  by (auto simp: older_than_def get_date_ts_from_filename_def rotated_form_def day_ok_def date_shape_def
        create_file_path_name)

definition kept :: "file_env \<Rightarrow> int \<Rightarrow> disk \<Rightarrow> disk \<Rightarrow> string \<Rightarrow> bool" where
  "kept env d before after p =
     (fs_read after p = fs_read before p \<or> fs_read after p = None \<and> older_than env d p)"

lemma rotate_day:
  assumes "day_ok env d" "day_open env d cur s" "keeps_rotated (fl_config s)"
    and "fe_can_open env (create_file_path env d s)"
  obtains r s' where "rotate_current_file env now s = (None, s')"
    "rotated_form (fe_to_iso8601_date env d) (get_directory_path env s) r"
    "\<not> fs_exists (fl_disk s) r" "r \<noteq> fl_file_path s"
    "fs_read (fl_disk s') = (fs_read (fl_disk s))(r \<mapsto> cur, fl_file_path s \<mapsto> [])"
    "day_open env d [] s'" "fl_config s' = fl_config s"
proof -
  define path where "path = create_file_path env d s"
  let ?base = "fe_to_iso8601_date env d" and ?dir = "get_directory_path env s"
  define r where "r = make_rotated_name env now (s\<lparr>fl_file_open := False\<rparr>) ?base ?dir"
  have date: "fl_current_date_ts s = d" and fpath: "fl_file_path s = path"
    and content: "fs_read (fl_disk s) path = Some cur"
    using assms(2) by (auto simp: day_open_def path_def)
  have fresh: "\<not> fs_exists (fl_disk s) r" and form: "rotated_form ?base ?dir r"
    using sequence_name_spec [of ?base "s\<lparr>fl_file_open := False\<rparr>" ?dir]
      timestamp_name_spec [of ?base "s\<lparr>fl_file_open := False\<rparr>" env now ?dir] assms(1)
    by (auto simp: r_def make_rotated_name_def day_ok_def split: RotationNaming.split)
  have ne: "r \<noteq> path" using fresh content by (auto simp: fs_exists_read)
  obtain dd where rename: "fs_rename path r (fl_disk s) = Some dd"
    using content by (cases "fs_rename path r (fl_disk s)") auto
  have dd: "fs_read dd = (fs_read (fl_disk s))(path := None, r \<mapsto> cur)"
    using fs_read_rename [OF rename] content by simp
  define s' where "s' = s\<lparr>fl_disk := fs_touch path dd, fl_file_open := True, fl_current_file_size := 0,
    fl_file_name := get_file_name path, fl_file_path := path, fl_current_date_ts := d\<rparr>"
  let ?s0 = "s\<lparr>fl_file_open := False\<rparr>"
  have dir: "get_directory_path env ?s0 = ?dir" and cur: "?dir @ ''/'' @ ?base @ ''.log'' = path"
    by (simp_all add: get_directory_path_def path_def create_file_path_def)
  have paths: "create_file_path env d (?s0\<lparr>fl_disk := dd\<rparr>) = path"
    by (simp add: path_def create_file_path_def get_directory_path_def)
  have reopen: "open_log_file env d (?s0\<lparr>fl_disk := dd\<rparr>) = (None, s')"
    using assms(4) dd ne
    by (simp add: open_log_file_def paths [simplified] path_def [symmetric] s'_def)
  have "compress_rotated env r (s'\<lparr>fl_current_file_size := 0\<rparr>) = s'"
    using assms(3) by (simp add: compress_rotated_def keeps_rotated_def s'_def)
  moreover have "fc_max_rotated_files (fl_config s') = 0"
    using assms(3) by (simp add: keeps_rotated_def s'_def)
  ultimately have "rotate_current_file env now s = (None, s')"
    using rename reopen date
    by (simp add: rotate_current_file_def Let_def dir cur [simplified] r_def [symmetric] and_then_def)
  moreover have "fs_read (fl_disk s') = (fs_read (fl_disk s))(r \<mapsto> cur, path \<mapsto> [])"
    using dd ne by (auto simp: s'_def)
  moreover have "day_open env d [] s'"
    using dd ne by (simp add: day_open_def s'_def path_def create_file_path_def get_directory_path_def)
  ultimately show thesis
    using that form fresh ne fpath by (simp add: s'_def)
qed

lemma finish_day:
  assumes "day_ok env d" "day_open env d cur s" "0 \<le> fe_sec_per_day env"
    and "0 \<le> fc_auto_delete_days (fl_config s)"
  shows "day_open env d (cur @ line m) (remove_old_logs env (append_line m s))"
    and "p \<noteq> fl_file_path s \<Longrightarrow>
      kept env d (fl_disk s) (fl_disk (remove_old_logs env (append_line m s))) p"
proof -
  let ?t = "append_line m s"
  have t: "fl_disk ?t = fs_append (fl_file_path s) (line m) (fl_disk s)"
    "fl_config ?t = fl_config s" "fl_file_path ?t = fl_file_path s" "fl_file_open ?t"
    "fl_current_date_ts ?t = d" "fl_current_file_size ?t = length (cur @ line m)"
    using assms(2) by (simp_all add: append_line_def day_open_def)
  have read: "fs_read (fl_disk ?t) = (fs_read (fl_disk s))(fl_file_path s \<mapsto> cur @ line m)"
    using assms(2) by (auto simp: t day_open_def)
  have path: "fl_file_path s = create_file_path env d s" using assms(2) by (simp add: day_open_def)
  have old: "kept env d (fl_disk ?t) (fl_disk (remove_old_logs env ?t)) q" for q
    using remove_old_logs_read [of env ?t q] assms(3,4) t by (simp add: kept_def)
  have "fs_read (fl_disk (remove_old_logs env ?t)) (fl_file_path s) = Some (cur @ line m)"
    using old [of "fl_file_path s"] read day_file_not_older(1) [OF assms(1), of s] path
    by (simp add: kept_def)
  then show "day_open env d (cur @ line m) (remove_old_logs env ?t)"
    using path by (simp add: day_open_def t create_file_path_def get_directory_path_def)
  show "kept env d (fl_disk s) (fl_disk (remove_old_logs env ?t)) p" if "p \<noteq> fl_file_path s"
    using old [of p] that by (simp add: kept_def read)
qed

text \<open>
  The effect of writing on the disk, apart from the day's own file: the files
  rotated away, in order, with their contents; everything else stays, except old
  days that are deleted.
\<close>

definition full_for :: "FileLogger \<Rightarrow> string \<Rightarrow> string \<Rightarrow> bool" where
  "full_for s cur m =
     (0 < fc_max_file_size_bytes (fl_config s) \<and>
      fc_max_file_size_bytes (fl_config s) < length cur + (length m + 1))"

definition rotation_effect ::
  "file_env \<Rightarrow> int \<Rightarrow> string \<Rightarrow> string \<Rightarrow> disk \<Rightarrow> disk \<Rightarrow> string list \<Rightarrow> string list \<Rightarrow> bool" where
  "rotation_effect env d dir path before after rotated files =
     (distinct rotated \<and> path \<notin> set rotated \<and>
      (\<forall>r \<in> set rotated. rotated_form (fe_to_iso8601_date env d) dir r \<and> \<not> fs_exists before r) \<and>
      map (fs_read after) rotated = map Some files \<and>
      (\<forall>p. p \<noteq> path \<and> p \<notin> set rotated \<longrightarrow> kept env d before after p))"

lemma effect_refl: "rotation_effect env d dir path s s [] []"
  by (simp add: rotation_effect_def kept_def)

lemma effect_trans:
  assumes ok: "day_ok env d"
    and first: "rotation_effect env d dir path s0 s1 rs fs"
    and second: "rotation_effect env d dir path s1 s2 rs' fs'"
  shows "rotation_effect env d dir path s0 s2 (rs @ rs') (fs @ fs')"
proof -
  have present: "fs_read s1 r \<noteq> None" if "r \<in> set rs" for r
  proof -
    have "fs_read s1 r \<in> set (map (fs_read s1) rs)" using that by simp
    also have "map (fs_read s1) rs = map Some fs" using first by (simp add: rotation_effect_def)
    finally show ?thesis by auto
  qed
  have absent: "fs_read s1 r = None" "r \<noteq> path" "\<not> older_than env d r" "r \<notin> set rs" if "r \<in> set rs'" for r
  proof -
    show none: "fs_read s1 r = None" "r \<noteq> path" "\<not> older_than env d r"
      using that second day_file_not_older(2) [OF ok] by (auto simp: rotation_effect_def fs_exists_read)
    show "r \<notin> set rs" using present [of r] none(1) by auto
  qed
  have "fs_read s0 r = None" if "r \<in> set rs'" for r
    using absent [OF that] first by (auto simp: rotation_effect_def kept_def)
  moreover have "fs_read s2 r = fs_read s1 r" if "r \<in> set rs" for r
  proof -
    have "r \<notin> set rs'" using present [OF that] absent(1) by auto
    moreover have "\<not> older_than env d r" "r \<noteq> path"
      using that first day_file_not_older(2) [OF ok] by (auto simp: rotation_effect_def)
    ultimately show ?thesis using second by (auto simp: rotation_effect_def kept_def)
  qed
  then have "map (fs_read s2) rs = map Some fs"
    using first by (simp add: rotation_effect_def cong: map_cong)
  moreover have "kept env d s0 s2 p" if "p \<noteq> path" "p \<notin> set rs" "p \<notin> set rs'" for p
  proof -
    have "kept env d s0 s1 p" "kept env d s1 s2 p"
      using that first second by (simp_all add: rotation_effect_def)
    then show ?thesis by (auto simp: kept_def)
  qed
  ultimately show ?thesis
    using first second absent by (auto simp: rotation_effect_def fs_exists_read)
qed

lemma write_day:
  assumes ok: "day_ok env d" and day_length: "0 \<le> fe_sec_per_day env"
    and s: "day_open env d cur s" "keeps_rotated (fl_config s)"
    and open_ok: "fe_can_open env (create_file_path env d s)"
    and date: "fe_start_of_day env (fe_ms_to_sec env ts) = d"
  obtains rs where
    "rotation_effect env d (get_directory_path env s) (fl_file_path s) (fl_disk s)
       (fl_disk (snd (write_log env now m ts s))) rs (if full_for s cur m then [cur] else [])"
    "day_open env d (if full_for s cur m then line m else cur @ line m) (snd (write_log env now m ts s))"
proof (cases "full_for s cur m")
  case False
  have "write_log env now m ts s = (None, remove_old_logs env (append_line m s))"
    using s date False
    by (auto simp: write_log_def open_for_date_def rotate_if_full_def full_for_def day_open_def
             and_then_def Let_def)
  then show ?thesis
    using that [of "[]"] False finish_day [OF ok s(1) day_length, where m = m] s(2)
    by (simp add: keeps_rotated_def rotation_effect_def)
next
  case True
  obtain r s' where r: "rotate_current_file env now s = (None, s')"
    "rotated_form (fe_to_iso8601_date env d) (get_directory_path env s) r"
    "\<not> fs_exists (fl_disk s) r" "r \<noteq> fl_file_path s"
    "fs_read (fl_disk s') = (fs_read (fl_disk s))(r \<mapsto> cur, fl_file_path s \<mapsto> [])"
    "day_open env d [] s'" "fl_config s' = fl_config s"
    using rotate_day [OF ok s open_ok] .
  have result: "write_log env now m ts s = (None, remove_old_logs env (append_line m s'))"
    using s date r(1) True
    by (auto simp: write_log_def open_for_date_def rotate_if_full_def full_for_def day_open_def
             and_then_def Let_def)
  have path: "fl_file_path s' = fl_file_path s"
    using r(6,7) s(1) by (simp add: day_open_def create_file_path_def get_directory_path_def)
  have days: "0 \<le> fc_auto_delete_days (fl_config s')"
    using s(2) r(7) by (simp add: keeps_rotated_def)
  note fin = finish_day [OF ok r(6) day_length days, where m = m]
  have "fs_read (fl_disk (remove_old_logs env (append_line m s'))) r = Some cur"
    using fin(2) [where p = r] r(4,5) path day_file_not_older(2) [OF ok r(2)] by (auto simp: kept_def)
  moreover have "kept env d (fl_disk s) (fl_disk (remove_old_logs env (append_line m s'))) p"
    if "p \<noteq> fl_file_path s" "p \<noteq> r" for p
    using fin(2) [where p = p] that r(5) path by (simp add: kept_def)
  ultimately show ?thesis
    using that [of "[r]"] True r(2-4) fin(1) result by (simp add: rotation_effect_def)
qed

lemma write_all:
  assumes "day_ok env d" "0 \<le> fe_sec_per_day env"
    and "day_open env d cur s" "keeps_rotated (fl_config s)"
    and "fe_can_open env (create_file_path env d s)"
    and "list_all (\<lambda>(m, ts, now). fe_start_of_day env (fe_ms_to_sec env ts) = d) tasks"
    and "cut_into_files (fc_max_file_size_bytes (fl_config s)) cur (map fst tasks) = (files, rest)"
  shows "\<exists>rs. rotation_effect env d (get_directory_path env s) (fl_file_path s) (fl_disk s)
      (fl_disk (foldl (run_file_task env) s tasks)) rs files \<and>
    day_open env d rest (foldl (run_file_task env) s tasks)"
  using assms(3-)
proof (induction tasks arbitrary: s cur files rest)
  case Nil
  then show ?case by (intro exI [of _ "[]"]) (simp add: effect_refl)
next
  case (Cons task tasks)
  obtain m ts now where task: "task = (m, ts, now)" by (cases task)
  let ?s1 = "snd (write_log env now m ts s)" and ?max = "fc_max_file_size_bytes (fl_config s)"
  have date: "fe_start_of_day env (fe_ms_to_sec env ts) = d"
    and more: "list_all (\<lambda>(m, ts, now). fe_start_of_day env (fe_ms_to_sec env ts) = d) tasks"
    using Cons.prems(4) by (simp_all add: task)
  define cur1 where "cur1 = (if full_for s cur m then line m else cur @ line m)"
  define fs1 where "fs1 = (if full_for s cur m then [cur] else [])"
  obtain rs where rs: "rotation_effect env d (get_directory_path env s) (fl_file_path s) (fl_disk s)
      (fl_disk ?s1) rs fs1" "day_open env d cur1 ?s1"
    using write_day [OF assms(1,2) Cons.prems(1-3) date] unfolding cur1_def fs1_def .
  have config: "fl_config ?s1 = fl_config s"
    using write_setup [of s env now m ts] by (simp add: same_setup_def)
  have same: "get_directory_path env ?s1 = get_directory_path env s"
    "create_file_path env d ?s1 = create_file_path env d s" "fl_file_path ?s1 = fl_file_path s"
    using config rs(2) Cons.prems(1) by (simp_all add: get_directory_path_def create_file_path_def day_open_def)
  obtain fs2 where cut: "cut_into_files ?max cur1 (map fst tasks) = (fs2, rest)" "files = fs1 @ fs2"
    using Cons.prems(5)
    by (auto simp: task cur1_def fs1_def full_for_def split: if_splits prod.splits)
  obtain rs' where "rotation_effect env d (get_directory_path env s) (fl_file_path s) (fl_disk ?s1)
      (fl_disk (foldl (run_file_task env) ?s1 tasks)) rs' fs2"
    "day_open env d rest (foldl (run_file_task env) ?s1 tasks)"
    using Cons.IH [OF rs(2), of fs2 rest] Cons.prems(2,3) more cut(1) unfolding config same by blast
  moreover have "run_file_task env s task = ?s1" by (simp add: task run_file_task_def)
  ultimately show ?case
    using effect_trans [OF assms(1) rs(1)] cut(2) by (intro exI [of _ "rs @ rs'"]) simp
qed

text \<open>C27: writing with size rotation loses nothing and respects the limit.  Suppose
  the day's file is open with content \<open>cur\<close>, rotated files are kept, and all
  messages carry timestamps of that day.  After writing them there are distinct,
  previously unused paths holding, in order, the files that cutting the
  stream of lines at the size limit gives, and the day's file holds the rest:
  joined together they are the old content followed by every message with its
  newline, in order.  No file is longer than the limit unless it is the initial
  content or a single line.  Any other file on the disk is unchanged, or is a log
  file of an earlier day that the retention removed.
\<close>

theorem file_rotation_lossless:
  assumes "day_ok env d" "0 \<le> fe_sec_per_day env"
    and "day_open env d cur s" "keeps_rotated (fl_config s)"
    and "fe_can_open env (create_file_path env d s)"
    and "list_all (\<lambda>(m, ts, now). fe_start_of_day env (fe_ms_to_sec env ts) = d) tasks"
    and "cut_into_files (fc_max_file_size_bytes (fl_config s)) cur (map fst tasks) = (files, rest)"
    and "s' = foldl (run_file_task env) s tasks"
  shows "(\<exists>rotated. distinct rotated \<and>
      (\<forall>r \<in> set rotated. \<not> fs_exists (fl_disk s) r \<and>
        rotated_form (fe_to_iso8601_date env d) (get_directory_path env s) r) \<and>
      map (fs_read (fl_disk s')) rotated = map Some files \<and>
      fs_read (fl_disk s') (create_file_path env d s) = Some rest \<and>
      (\<forall>p. p \<notin> set rotated \<and> p \<noteq> create_file_path env d s \<longrightarrow>
        fs_read (fl_disk s') p = fs_read (fl_disk s) p \<or>
        fs_read (fl_disk s') p = None \<and> older_than env d p)) \<and>
    concat files @ rest = cur @ concat (map (\<lambda>(m, ts, now). line m) tasks) \<and>
    (\<forall>f \<in> set (files @ [rest]). 0 < fc_max_file_size_bytes (fl_config s) \<longrightarrow>
       length f \<le> fc_max_file_size_bytes (fl_config s) \<or> f = cur \<or> f \<in> (\<lambda>(m, ts, now). line m) ` set tasks)"
proof -
  have lines: "map line (map fst tasks) = map (\<lambda>(m, ts, now). line m) tasks"
    "line ` set (map fst tasks) = (\<lambda>(m, ts, now). line m) ` set tasks"
    by (simp_all add: case_prod_unfold image_image)
  obtain rs where rs: "rotation_effect env d (get_directory_path env s) (fl_file_path s) (fl_disk s)
      (fl_disk s') rs files" "day_open env d rest s'"
    using write_all [OF assms(1-7)] assms(8) by blast
  have path: "fl_file_path s = create_file_path env d s" "fl_file_path s' = create_file_path env d s"
    using assms(3,8) rs(2) tasks_setup [of s env tasks]
    by (simp_all add: day_open_def same_setup_def create_file_path_def get_directory_path_def)
  have content: "fs_read (fl_disk s') (create_file_path env d s) = Some rest"
    using rs(2) path(2) unfolding day_open_def by metis
  have "\<exists>rotated. distinct rotated \<and>
      (\<forall>r \<in> set rotated. \<not> fs_exists (fl_disk s) r \<and>
        rotated_form (fe_to_iso8601_date env d) (get_directory_path env s) r) \<and>
      map (fs_read (fl_disk s')) rotated = map Some files \<and>
      fs_read (fl_disk s') (create_file_path env d s) = Some rest \<and>
      (\<forall>p. p \<notin> set rotated \<and> p \<noteq> create_file_path env d s \<longrightarrow>
        fs_read (fl_disk s') p = fs_read (fl_disk s) p \<or>
        fs_read (fl_disk s') p = None \<and> older_than env d p)"
    using rs(1) content path(1) by (intro exI [of _ rs]) (simp add: rotation_effect_def kept_def)
  then show ?thesis
    using cut_concat [OF assms(7)] cut_sizes [OF assms(7)] unfolding lines by blast
qed

definition demo_tasks :: "file_task list" where
  "demo_tasks = [(''one'', 1704067201000, 0), (''two'', 1704067202000, 0), (''three'', 1704067203000, 0)]"

theorem file_rotation_lossless_witness:
  "\<exists>rotated. distinct rotated \<and>
     map (fs_read (fl_disk (foldl (run_file_task demo_env) (demo_file_logger 8 0 []) demo_tasks))) rotated
     = map Some [''one'' @ [CHR 0x0A] @ ''two'' @ [CHR 0x0A]]"
proof -
  let ?s = "demo_file_logger 8 0 []"
  have "day_ok demo_env 1704067200" by code_simp
  moreover have "0 \<le> fe_sec_per_day demo_env" by code_simp
  moreover have "day_open demo_env 1704067200 [] ?s" by code_simp
  moreover have "keeps_rotated (fl_config ?s)" by code_simp
  moreover have "fe_can_open demo_env (create_file_path demo_env 1704067200 ?s)" by code_simp
  moreover have "list_all (\<lambda>(m, ts, now). fe_start_of_day demo_env (fe_ms_to_sec demo_env ts) = 1704067200) demo_tasks"
    by code_simp
  moreover have "cut_into_files (fc_max_file_size_bytes (fl_config ?s)) [] (map fst demo_tasks)
      = ([line ''one'' @ line ''two''], line ''three'')"
    by code_simp
  ultimately show ?thesis
    using file_rotation_lossless [of demo_env 1704067200 "[]" ?s demo_tasks
        "[line ''one'' @ line ''two'']" "line ''three''"]
    by auto
qed

end
