(* ===== verification/OwnedFiles.thy ===== *)
theory OwnedFiles
  imports FileLogger "HOL-Library.Multiset"
begin

text \<open>
  What the two file backends share when they list, read and delete the files of
  their directory: sorting with a comparison, and the files a backend owns,
  which are the direct children of its directory with a valid name.
\<close>

section \<open>Sorting with a comparison\<close>

lemma insert_by_mset: "mset (insert_by before x ys) = add_mset x (mset ys)"
  by (induction ys) auto

lemma sort_by_mset: "mset (sort_by before xs) = mset xs"
  unfolding sort_by_def by (induction xs) (simp_all add: insert_by_mset)

lemma sort_by_set [simp]: "set (sort_by before xs) = set xs"
  by (metis set_mset_mset sort_by_mset)

lemma insert_by_set [simp]: "set (insert_by before x ys) = insert x (set ys)"
  by (induction ys) auto

lemma insert_by_sorted:
  "sorted_wrt (\<lambda>a b. key b \<le> (key a :: 'k :: linorder)) ys \<Longrightarrow>
   sorted_wrt (\<lambda>a b. key b \<le> key a) (insert_by (\<lambda>a b. key b < key a) x ys)"
  by (induction ys) auto

lemma sort_by_sorted:
  "sorted_wrt (\<lambda>a b. key b \<le> (key a :: 'k :: linorder)) (sort_by (\<lambda>a b. key b < key a) xs)"
  unfolding sort_by_def by (induction xs) (simp_all add: insert_by_sorted)

lemma lex_step: "(if a \<noteq> b then b < a else P) \<longleftrightarrow> b < a \<or> b = (a :: 'a :: linorder) \<and> P"
  and lex_bool: "(if u \<noteq> v then u \<and> \<not> v else P) \<longleftrightarrow> v < u \<or> v = u \<and> P"
  and lex_name: "(if x = y \<and> c \<noteq> c' then \<not> c \<and> c' else y < x \<or> y = x \<and> P) \<longleftrightarrow>
    y < x \<or> y = (x :: 'a :: linorder) \<and> ((\<not> c') < (\<not> c) \<or> (\<not> c') = (\<not> c) \<and> P)"
  and lex_pair: "(a, x1) < (b, x2) \<longleftrightarrow> a < b \<or> a = b \<and> x1 < (x2 :: 'b :: linorder)"
  by auto

section \<open>Owned files\<close>

definition owned_in :: "string \<Rightarrow> (string \<Rightarrow> bool) \<Rightarrow> string \<Rightarrow> bool" where
  "owned_in dir valid p =
     (prefix (dir @ ''/'') p \<and>
      (let name = drop (length dir + 1) p in list_all (\<lambda>c. \<not> is_sep c) name \<and> valid name))"

lemma owned_in_split:
  "owned_in dir valid p \<longleftrightarrow>
     (\<exists>name. p = dir @ ''/'' @ name \<and> list_all (\<lambda>c. \<not> is_sep c) name \<and> valid name)"
  by (auto simp: owned_in_def prefix_def Let_def)

lemma owned_in_name:
  assumes "owned_in dir valid p"
  shows "p = dir @ ''/'' @ get_file_name p" "is_direct_child_path p dir" "valid (get_file_name p)"
proof -
  obtain name where name: "p = dir @ ''/'' @ name" "\<forall>c \<in> set name. \<not> is_sep c" "valid name"
    using assms by (auto simp: owned_in_split list_all_iff)
  have sep: "is_sep (CHR ''/'')" by (simp add: is_sep_def)
  have "get_file_name p = name"
    using after_last_append [OF sep name(2), of dir] name(1) by (simp add: get_file_name_def)
  moreover have "before_last is_sep p = dir"
    using before_last_append [OF sep name(2), of dir] name(1) by simp
  moreover have "list_ex is_sep p" using name(1) sep by simp
  ultimately show "p = dir @ ''/'' @ get_file_name p" "is_direct_child_path p dir" "valid (get_file_name p)"
    using name by (simp_all add: is_direct_child_path_def)
qed

lemma last_split: "list_ex P p \<Longrightarrow> \<exists>c. P c \<and> p = before_last P p @ c # after_last P p"
proof -
  assume "list_ex P p"
  then have "dropWhile (\<lambda>c. \<not> P c) (rev p) \<noteq> []" by (auto simp: dropWhile_eq_Nil_conv list_ex_iff)
  then obtain c t where ct: "dropWhile (\<lambda>c. \<not> P c) (rev p) = c # t" "P c"
    by (metis hd_dropWhile list.collapse)
  have "rev p = takeWhile (\<lambda>c. \<not> P c) (rev p) @ c # t"
    using takeWhile_dropWhile_id [of "\<lambda>c. \<not> P c" "rev p"] ct by simp
  then have "p = rev t @ c # rev (takeWhile (\<lambda>c. \<not> P c) (rev p))"
    by (metis append.assoc append_Cons append_Nil rev.simps(2) rev_append rev_rev_ident)
  then show ?thesis using ct by (auto simp: before_last_def after_last_def)
qed

text \<open>The files of a listing that pass the tests of the backends are the owned ones.\<close>

lemma listed_owned_in:
  assumes "\<not> is_sep (last dir)"
  shows "prefix (with_separator dir) p \<and> is_direct_child_path p dir \<and> valid (get_file_name p) \<longleftrightarrow> owned_in dir valid p"
proof -
  have ws: "with_separator dir = dir @ ''/''" using assms by (simp add: with_separator_def)
  show ?thesis
  proof
    assume l: "prefix (with_separator dir) p \<and> is_direct_child_path p dir \<and> valid (get_file_name p)"
    then obtain c where c: "p = dir @ c # get_file_name p"
      using last_split [of is_sep p] by (auto simp: is_direct_child_path_def get_file_name_def)
    obtain t where "p = dir @ CHR ''/'' # t" using l by (auto simp: ws prefix_def)
    with c have "c # get_file_name p = CHR ''/'' # t" by (metis same_append_eq)
    with c have "p = dir @ ''/'' @ get_file_name p" by simp
    moreover have "list_all (\<lambda>c. \<not> is_sep c) (get_file_name p)"
      using after_last_free by (fastforce simp: list_all_iff get_file_name_def)
    ultimately show "owned_in dir valid p" using l by (auto simp: owned_in_split)
  next
    assume o: "owned_in dir valid p"
    then have "prefix (dir @ ''/'') p" by (simp add: owned_in_def)
    then show "prefix (with_separator dir) p \<and> is_direct_child_path p dir \<and> valid (get_file_name p)"
      using owned_in_name [OF o] by (simp add: ws)
  qed
qed

lemma same_path_owned_in:
  assumes "owned_in dir valid p" "owned_in dir valid q" "same_path p q"
  shows "p = q"
proof -
  obtain n where p: "p = dir @ ''/'' @ n" "\<forall>c \<in> set n. \<not> is_sep c"
    using assms(1) unfolding owned_in_split list_all_iff by blast
  obtain m where q: "q = dir @ ''/'' @ m" "\<forall>c \<in> set m. \<not> is_sep c"
    using assms(2) unfolding owned_in_split list_all_iff by blast
  have id_free: "normalize_path_separators x = x" if "\<forall>c \<in> set x. \<not> is_sep c" for x
    using that unfolding normalize_path_separators_def is_sep_def by (intro map_idI) auto
  have "normalize_path_separators (x @ y) = normalize_path_separators x @ normalize_path_separators y"
    for x y by (simp add: normalize_path_separators_def)
  then have "normalize_path_separators (dir @ ''/'') @ n = normalize_path_separators (dir @ ''/'') @ m"
    using assms(3) id_free [OF p(2)] id_free [OF q(2)] unfolding p(1) q(1) same_path_def
    by (metis append.assoc)
  then show ?thesis by (simp add: p(1) q(1))
qed

end
