(* ===== verification/FileAccess.thy ===== *)
theory FileAccess
  imports FileLoggerProps OwnedFiles
begin

text \<open>
  The file backend seen from its users: listing, reading back and clearing the
  files it owns, and the behaviour after a failed open and under retention.
\<close>

text \<open>The comparison of the listing is the lexicographic order of a key.\<close>

definition file_key :: "LogFileInfo \<Rightarrow> int \<times> bool \<times> int \<times> int \<times> int \<times> string \<times> bool \<times> string" where
  "file_key i =
     (let k = make_file_sort_key i
      in (fi_day_start_ms i, fi_is_current i, sk_kind_rank k, sk_primary k, sk_secondary k,
          sk_artifact_name k, \<not> fi_is_compressed i, normalize_path_separators (fi_path i)))"

lemma newer_file_key: "newer_file a b \<longleftrightarrow> file_key b < file_key a"
  unfolding newer_file_def file_key_def Let_def lex_pair lex_step lex_bool lex_name ..

section \<open>Owned files\<close>

definition owned :: "file_env \<Rightarrow> FileLogger \<Rightarrow> string \<Rightarrow> bool" where
  "owned env s p =
     (prefix (get_directory_path env s @ ''/'') p \<and>
      (let name = drop (length (get_directory_path env s) + 1) p
       in list_all (\<lambda>c. \<not> is_sep c) name \<and> is_valid_log_filename name))"

text \<open>The directory is given without a trailing separator and the current file lies in it.\<close>

definition tidy :: "file_env \<Rightarrow> FileLogger \<Rightarrow> bool" where
  "tidy env s =
     (map_inv (fl_disk s) \<and> \<not> is_sep (last (get_directory_path env s)) \<and> owned env s (fl_file_path s))"

lemma owned_in_directory: "owned env s = owned_in (get_directory_path env s) is_valid_log_filename"
  by (simp add: fun_eq_iff owned_def owned_in_def)

lemmas listed_owned =
  listed_owned_in [of "get_directory_path env s" _ is_valid_log_filename, folded owned_in_directory] for env s

lemmas same_path_owned =
  same_path_owned_in [of "get_directory_path env s" is_valid_log_filename, folded owned_in_directory] for env s

section \<open>Listing\<close>

definition info_of :: "file_env \<Rightarrow> FileLogger \<Rightarrow> string \<Rightarrow> LogFileInfo" where
  "info_of env s p =
     \<lparr>fi_path = p, fi_name = get_file_name p,
      fi_day_start_ms = fe_sec_to_ms env (get_date_ts_from_filename env (get_file_name p)),
      fi_is_current = (p = fl_file_path s),
      fi_is_compressed = is_compressed_log_filename (get_file_name p)\<rparr>"

lemma info_listed:
  assumes "tidy env s" "p \<in> set (get_list_files (fl_disk s) (get_directory_path env s))"
  shows "try_make_log_file_info env s p (fl_file_path s) =
    (if owned env s p then Some (info_of env s p) else None)"
proof -
  have "owned env s p \<longleftrightarrow> is_direct_child_path p (get_directory_path env s) \<and>
      is_valid_log_filename (get_file_name p)"
    using listed_owned [of env s p] assms by (auto simp: tidy_def get_list_files_mem)
  moreover have "same_path p (fl_file_path s) \<longleftrightarrow> p = fl_file_path s" if "owned env s p"
    using that same_path_owned [of env s p "fl_file_path s"] assms(1) by (auto simp: tidy_def same_path_def)
  ultimately show ?thesis by (auto simp: try_make_log_file_info_def info_of_def Let_def)
qed

definition owned_files :: "file_env \<Rightarrow> FileLogger \<Rightarrow> string list" where
  "owned_files env s = filter (owned env s) (map fst (fl_disk s))"

lemma list_log_files_eq:
  assumes "tidy env s"
  shows "FileLogger_list_log_files env s = sort_by newer_file (map (info_of env s) (owned_files env s))"
proof -
  let ?l = "get_list_files (fl_disk s) (get_directory_path env s)"
  have "List.map_filter (\<lambda>p. try_make_log_file_info env s p (fl_file_path s)) ps =
      map (info_of env s) (filter (owned env s) ps)" if "set ps \<subseteq> set ?l" for ps
    using that by (induction ps) (auto simp: info_listed [OF assms] map_filter_simps)
  moreover have "filter (owned env s) ?l = owned_files env s"
    unfolding get_list_files_def owned_files_def filter_filter
    using listed_owned [of env s] assms by (intro filter_cong) (auto simp: tidy_def)
  ultimately show ?thesis by (simp add: FileLogger_list_log_files_def)
qed

lemma owned_files_mem: "p \<in> set (owned_files env s) \<longleftrightarrow> fs_exists (fl_disk s) p \<and> owned env s p"
  by (auto simp: owned_files_def fs_exists_mem)

lemma listed_paths:
  assumes "tidy env s"
  shows "mset (map fi_path (FileLogger_list_log_files env s)) = mset (owned_files env s)"
proof -
  have "mset (map fi_path (FileLogger_list_log_files env s))
      = image_mset fi_path (mset (map (info_of env s) (owned_files env s)))"
    by (simp add: list_log_files_eq [OF assms] sort_by_mset)
  then show ?thesis by (simp add: info_of_def image_mset.compositionality comp_def)
qed

text \<open>C29: the listing of log files is exact and ordered.  It names every file on the
  disk that lies directly in the log directory with a valid log file name, each
  once and nothing else, tells for each whether it is the current one and whether
  it is compressed, and runs from the newest to the oldest: no file is followed
  by one that the comparison calls newer, in particular days never increase.
\<close>

theorem list_log_files_exact:
  assumes "tidy env s" and "files = FileLogger_list_log_files env s"
  shows "distinct (map fi_path files) \<and>
    set (map fi_path files) = {p. fs_exists (fl_disk s) p \<and> owned env s p} \<and>
    (\<forall>info \<in> set files. fi_name info = get_file_name (fi_path info) \<and>
       fi_is_current info = (fi_path info = fl_file_path s) \<and>
       fi_is_compressed info = is_compressed_log_filename (fi_name info)) \<and>
    sorted_wrt (\<lambda>a b. \<not> newer_file b a \<and> fi_day_start_ms b \<le> fi_day_start_ms a) files"
proof -
  have paths: "mset (map fi_path files) = mset (owned_files env s)"
    using listed_paths [OF assms(1)] assms(2) by simp
  have "distinct (owned_files env s)"
    using assms(1) by (simp add: owned_files_def tidy_def map_inv_distinct)
  then have "distinct (map fi_path files)"
    using paths by (metis mset_eq_imp_distinct_iff)
  moreover have "set (map fi_path files) = {p. fs_exists (fl_disk s) p \<and> owned env s p}"
    using mset_eq_setD [OF paths] owned_files_mem by auto
  moreover have "\<forall>info \<in> set files. fi_name info = get_file_name (fi_path info) \<and>
       fi_is_current info = (fi_path info = fl_file_path s) \<and>
       fi_is_compressed info = is_compressed_log_filename (fi_name info)"
    by (auto simp: assms(2) list_log_files_eq [OF assms(1)] info_of_def)
  moreover have "newer_file = (\<lambda>a b. file_key b < file_key a)"
    by (intro ext) (rule newer_file_key)
  then have "sorted_wrt (\<lambda>a b. file_key b \<le> file_key a) files"
    using sort_by_sorted [of file_key] by (simp add: assms(2) list_log_files_eq [OF assms(1)])
  then have "sorted_wrt (\<lambda>a b. \<not> newer_file b a \<and> fi_day_start_ms b \<le> fi_day_start_ms a) files"
  proof (rule sorted_wrt_mono_rel [rotated])
    fix a b
    assume "file_key b \<le> file_key a"
    then show "\<not> newer_file b a \<and> fi_day_start_ms b \<le> fi_day_start_ms a"
      by (auto simp: newer_file_key file_key_def Let_def)
  qed
  ultimately show ?thesis by simp
qed

definition demo_disk :: disk where
  "demo_disk =
     [(''/app/logs/2024-01-01.001.log'', ''old''), (''/app/logs/2024-01-01.log'', ''new''),
      (''/app/logs/notes.txt'', ''keep''), (''/app/secret'', ''x'')]"

lemma demo_tidy: "tidy demo_env (demo_file_logger 0 0 demo_disk)"
  by code_simp

theorem list_log_files_exact_witness:
  "map fi_path (FileLogger_list_log_files demo_env (demo_file_logger 0 0 demo_disk))
     = [''/app/logs/2024-01-01.log'', ''/app/logs/2024-01-01.001.log''] \<and>
   distinct (map fi_path (FileLogger_list_log_files demo_env (demo_file_logger 0 0 demo_disk)))"
proof -
  have "map fi_path (FileLogger_list_log_files demo_env (demo_file_logger 0 0 demo_disk))
      = [''/app/logs/2024-01-01.log'', ''/app/logs/2024-01-01.001.log'']"
    by code_simp
  then show ?thesis using list_log_files_exact [OF demo_tidy refl] by blast
qed

section \<open>Reading\<close>

lemma find_owned:
  assumes "tidy env s"
  shows "find (\<lambda>info. same_path (fi_path info) p) (FileLogger_list_log_files env s) = Some info \<Longrightarrow>
      \<exists>q. fs_exists (fl_disk s) q \<and> owned env s q \<and> same_path q p \<and> info = info_of env s q"
    and "fs_exists (fl_disk s) p \<Longrightarrow> owned env s p \<Longrightarrow>
      find (\<lambda>info. same_path (fi_path info) p) (FileLogger_list_log_files env s) = Some (info_of env s p)"
proof -
  have members: "\<exists>q. fs_exists (fl_disk s) q \<and> owned env s q \<and> same_path q p \<and> i = info_of env s q"
    if "i \<in> set (FileLogger_list_log_files env s)" "same_path (fi_path i) p" for i
    using that owned_files_mem [of _ env s]
    by (auto simp: list_log_files_eq [OF assms] info_of_def)
  show "\<exists>q. fs_exists (fl_disk s) q \<and> owned env s q \<and> same_path q p \<and> info = info_of env s q"
    if "find (\<lambda>info. same_path (fi_path info) p) (FileLogger_list_log_files env s) = Some info"
    using that members [of info] by (auto simp: find_Some_iff)
  show "find (\<lambda>info. same_path (fi_path info) p) (FileLogger_list_log_files env s) = Some (info_of env s p)"
    if "fs_exists (fl_disk s) p" "owned env s p"
  proof -
    have "info_of env s p \<in> set (FileLogger_list_log_files env s)"
      using that owned_files_mem [of p env s] by (simp add: list_log_files_eq [OF assms])
    moreover have "same_path (fi_path (info_of env s p)) p" by (simp add: info_of_def same_path_def)
    ultimately obtain i where i: "find (\<lambda>info. same_path (fi_path info) p)
        (FileLogger_list_log_files env s) = Some i"
      by (metis find_None_iff not_None_eq)
    then obtain q where "owned env s q" "same_path q p" "i = info_of env s q"
      using members [of i] by (auto simp: find_Some_iff)
    with same_path_owned [of env s q p] that(2) i show ?thesis by simp
  qed
qed

text \<open>C30: reading back is confined to the backend's own files and faithful.  A read
  that succeeds, whatever path was asked for, delivers the content of a file of
  the listing that the path denotes: a direct child of the log directory with a
  valid log file name, decompressed by its suffix when it is an archive.
  Conversely an owned plain file is always read back byte for byte, and a
  request for any other path fails with no content.
\<close>

theorem read_log_file_confined:
  assumes "tidy env s" and "r = FileLogger_read_log_file env path s"
  shows "(rr_ok r \<longrightarrow> (\<exists>p bytes. owned env s p \<and> same_path p path \<and> fs_read (fl_disk s) p = Some bytes \<and>
        (if is_compressed_log_filename (get_file_name p)
         then decompress_string_by_suffix (fe_codec env) p bytes = Some (rr_content r)
         else rr_content r = bytes))) \<and>
    (\<not> rr_ok r \<longrightarrow> rr_content r = []) \<and>
    (owned env s path \<and> \<not> is_compressed_log_filename (get_file_name path) \<longrightarrow>
       (case fs_read (fl_disk s) path of
          Some bytes \<Rightarrow> rr_ok r \<and> rr_content r = bytes
        | None \<Rightarrow> \<not> rr_ok r))"
proof (cases "find (\<lambda>info. same_path (fi_path info) path) (FileLogger_list_log_files env s)")
  case None
  then have r: "r = unknown_file path" by (simp add: assms(2) FileLogger_read_log_file_def read_listed_def)
  have "fs_read (fl_disk s) path = None" if "owned env s path"
    using find_owned(2) [OF assms(1) _ that] None
    by (cases "fs_read (fl_disk s) path") (auto simp: fs_exists_read)
  then show ?thesis by (simp add: r unknown_file_def)
next
  case (Some info)
  then obtain q where q: "fs_exists (fl_disk s) q" "owned env s q" "same_path q path" "info = info_of env s q"
    using find_owned(1) [OF assms(1)] by blast
  obtain bytes where bytes: "fs_read (fl_disk s) q = Some bytes" using q(1) by (auto simp: fs_exists_read)
  have r: "r = read_log_file_from_info env s (info_of env s q)"
    using Some q(4) by (simp add: assms(2) FileLogger_read_log_file_def read_listed_def)
  have "path = q" if "owned env s path" using same_path_owned [OF q(2) that q(3)] by simp
  then show ?thesis
    using q(2,3) bytes
    by (auto simp: r read_log_file_from_info_def info_of_def split: option.splits)
qed

theorem read_log_file_confined_witness:
  "rr_ok (FileLogger_read_log_file demo_env ''/app/logs/2024-01-01.001.log'' (demo_file_logger 0 0 demo_disk)) \<and>
   rr_content (FileLogger_read_log_file demo_env ''/app/logs/2024-01-01.001.log'' (demo_file_logger 0 0 demo_disk))
     = ''old''"
proof -
  let ?p = "''/app/logs/2024-01-01.001.log''" and ?s = "demo_file_logger 0 0 demo_disk"
  have "owned demo_env ?s ?p \<and> \<not> is_compressed_log_filename (get_file_name ?p)" by code_simp
  moreover have "fs_read (fl_disk ?s) ?p = Some ''old''" by code_simp
  ultimately show ?thesis
    using read_log_file_confined [OF demo_tidy refl, of ?p] by auto
qed

section \<open>Clearing\<close>

lemma remove_counting_spec:
  "remove_counting ps d = (n, d') \<Longrightarrow> distinct ps \<Longrightarrow>
   (\<forall>p. fs_read d' p = (if p \<in> set ps then None else fs_read d p)) \<and>
   n = length (filter (fs_exists d) ps)"
proof (induction ps arbitrary: d n)
  case (Cons p ps)
  obtain m where m: "remove_counting ps (fs_remove p d) = (m, d')"
    using Cons.prems(1) by (auto split: prod.splits)
  have "filter (fs_exists (fs_remove p d)) ps = filter (fs_exists d) ps"
    using Cons.prems(2) by (intro filter_cong) (auto simp: fs_exists_read)
  then show ?case
    using Cons.IH [OF m] Cons.prems m by (auto split: if_splits)
qed auto

lemma wait_nothing: "FileLogger_wait env [] s = s"
  by (simp add: FileLogger_wait_def)



section \<open>After a failed open\<close>

text \<open>
  \<open>open_log_file\<close> records the new date before it knows whether the file opens.
  Later writes of the same day see a matching date and do not try again.
\<close>

lemma write_closed:
  assumes "\<not> fl_file_open s" "fl_current_date_ts s = fe_start_of_day env (fe_ms_to_sec env ts)"
    and "fc_max_file_size_bytes (fl_config s) = 0"
  shows "write_log env now m ts s = (None, remove_old_logs env s)"
  using assms
  by (simp add: write_log_def open_for_date_def rotate_if_full_def append_line_def and_then_def Let_def)

lemma remove_old_logs_subset:
  "fs_read (fl_disk (remove_old_logs env s)) p = fs_read (fl_disk s) p \<or>
   fs_read (fl_disk (remove_old_logs env s)) p = None"
  by (simp add: remove_old_logs_def fs_read_remove_paths)

lemma closed_drops:
  assumes "\<not> fl_file_open s" "fl_current_date_ts s = d" "fc_max_file_size_bytes (fl_config s) = 0"
    and "list_all (\<lambda>(m, ts, now). fe_start_of_day env (fe_ms_to_sec env ts) = d) tasks"
  shows "fs_read (fl_disk (foldl (run_file_task env) s tasks)) p = fs_read (fl_disk s) p \<or>
    fs_read (fl_disk (foldl (run_file_task env) s tasks)) p = None"
  using assms
proof (induction tasks arbitrary: s)
  case (Cons task tasks)
  obtain m ts now where task: "task = (m, ts, now)" by (cases task)
  have "run_file_task env s task = remove_old_logs env s"
    using Cons.prems write_closed [of s env ts now m] by (simp add: task run_file_task_def)
  then show ?case
    using Cons.IH [of "remove_old_logs env s"] Cons.prems remove_old_logs_subset [of env s p] by auto
qed simp

text \<open>C32: a failed open at a change of day silently drops the rest of that day.  When
  the first message of a day finds that the day's file cannot be opened, the write
  reports the failure; but every later message of that day is dropped without an
  error and reaches no file, even if the file could be opened again by then.
  Stated without a size limit, which would make the writer rename a file that is
  not open.
\<close>

theorem open_failure_drops_day:
  assumes "fe_start_of_day env (fe_ms_to_sec env ts) = d" "fl_current_date_ts s \<noteq> d"
    and "\<not> fe_can_open env (create_file_path env d s)"
    and "fc_max_file_size_bytes (fl_config s) = 0"
    and "write_log env now m ts s = (e, s1)"
    and "recovered = env\<lparr>fe_can_open := (\<lambda>p. True)\<rparr>"
    and "list_all (\<lambda>(m, ts, now). fe_start_of_day env (fe_ms_to_sec env ts) = d) tasks"
  shows "e = Some (OpenFailed (create_file_path env d s)) \<and>
    (\<forall>(m', ts', now') \<in> set tasks. fst (write_log recovered now' m' ts' s1) = None) \<and>
    (\<forall>p. fs_read (fl_disk (foldl (run_file_task recovered) s1 tasks)) p \<in> {fs_read (fl_disk s) p, None})"
proof -
  have s1: "e = Some (OpenFailed (create_file_path env d s))" "\<not> fl_file_open s1"
    "fl_current_date_ts s1 = d" "fl_config s1 = fl_config s" "fl_disk s1 = fl_disk s"
    using assms(1-5)
    by (auto simp: write_log_def open_for_date_def open_log_file_def and_then_def Let_def)
  have tasks: "list_all (\<lambda>(m, ts, now). fe_start_of_day recovered (fe_ms_to_sec recovered ts) = d) tasks"
    using assms(6,7) by simp
  have "fst (write_log recovered now' m' ts' s1) = None" if "(m', ts', now') \<in> set tasks" for m' ts' now'
    using write_closed [of s1 recovered ts' now' m'] s1 assms(4) tasks that by (auto simp: list_all_iff)
  moreover have "fs_read (fl_disk (foldl (run_file_task recovered) s1 tasks)) p \<in> {fs_read (fl_disk s) p, None}"
    for p
    using closed_drops [of s1 d recovered tasks p] s1 assms(4) tasks by simp
  ultimately show ?thesis using s1(1) by blast
qed

text \<open>A day that cannot be opened, followed by one message after the disk recovered.\<close>

definition demo_blocked :: file_env where
  "demo_blocked = demo_env\<lparr>fe_can_open := (\<lambda>p. p \<noteq> ''/app/logs/2024-01-02.log'')\<rparr>"

theorem open_failure_drops_day_witness:
  "fs_read (fl_disk (foldl (run_file_task (demo_blocked\<lparr>fe_can_open := (\<lambda>p. True)\<rparr>))
      (snd (write_log demo_blocked 0 ''first'' 1704153601000 (demo_file_logger 0 0 demo_disk)))
      [(''second'', 1704153602000, 0)])) ''/app/logs/2024-01-02.log'' = None"
proof -
  let ?s = "demo_file_logger 0 0 demo_disk" and ?d = "1704153600 :: int"
  let ?w = "write_log demo_blocked 0 ''first'' 1704153601000 ?s"
  let ?tasks = "[(''second'', 1704153602000, 0)] :: file_task list"
  have a1: "fe_start_of_day demo_blocked (fe_ms_to_sec demo_blocked 1704153601000) = ?d" by code_simp
  have a2: "fl_current_date_ts ?s \<noteq> ?d" by code_simp
  have a3: "\<not> fe_can_open demo_blocked (create_file_path demo_blocked ?d ?s)" by code_simp
  have a4: "fc_max_file_size_bytes (fl_config ?s) = 0" by code_simp
  have a5: "list_all (\<lambda>(m, ts, now). fe_start_of_day demo_blocked (fe_ms_to_sec demo_blocked ts) = ?d) ?tasks"
    by code_simp
  have a6: "fs_read (fl_disk ?s) ''/app/logs/2024-01-02.log'' = None" by code_simp
  have "?w = (fst ?w, snd ?w)" by simp
  note dropped = open_failure_drops_day [OF a1 a2 a3 a4 this refl a5]
  show ?thesis
    using dropped [THEN conjunct2, THEN conjunct2, THEN spec, of "''/app/logs/2024-01-02.log''"]
    unfolding a6 by simp
qed

section \<open>Retention and sequence numbers\<close>

text \<open>
  With sequence names and at most two rotated files, the index freed by deleting
  the oldest file is given to the newest, which then looks oldest and is deleted
  at once: of five one-line files the fourth is lost while the second and third
  are kept.
\<close>

definition retention_run :: FileLogger where
  "retention_run = foldl (run_file_task demo_env) (demo_file_logger 2 2 [])
     [(''a'', 1704067201000, 0), (''b'', 1704067202000, 0), (''c'', 1704067203000, 0),
      (''d'', 1704067204000, 0), (''e'', 1704067205000, 0)]"

lemma retention_deletes_newest:
  "fl_disk retention_run =
     [(''/app/logs/2024-01-01.002.log'', line ''b''), (''/app/logs/2024-01-01.003.log'', line ''c''),
      (''/app/logs/2024-01-01.log'', line ''e'')]"
  by code_simp

text \<open>
  With compression the plain name is free again once the archive exists: the
  second rotation takes the same index and its archive replaces the first, so
  the line \<open>a\<close> is in no file any more.
\<close>

definition compression_run :: FileLogger where
  "compression_run = foldl (run_file_task demo_env)
     (FileLogger_init demo_env 1704067200000
       ((FileLogger_make_config ''logs'' False 30 2 0 False 0 Block)
          \<lparr>fc_compress := GZIP, fc_compress_async := False\<rparr>) [])
     [(''a'', 1704067201000, 0), (''b'', 1704067202000, 0), (''c'', 1704067203000, 0)]"

lemma compressed_name_reused:
  "fl_disk compression_run =
     [(''/app/logs/2024-01-01.001.log.gz'', CHR ''z'' # line ''b''),
      (''/app/logs/2024-01-01.log'', line ''c'')]"
  by code_simp

end
