(* ===== verification/UniqueFile.thy ===== *)
theory UniqueFile
  imports FileLogger Executor
begin

text \<open>
  The backend that writes every record to a file of its own
  (\<open>UniqueFileLogger.hpp\<close>, C++11 branch, POSIX).  The disk, time_shield and the
  permission to open are those of the file backend; broken-down time is one more
  parameter, and the draws of the random generator are an argument of the calls
  that make a name.  Per thread the logger counts the records on their way and
  remembers the last file, which \<open>get_string_param\<close> waits for.
\<close>

section \<open>State\<close>

record date_time =
  dt_year :: int
  dt_mon :: int
  dt_day :: int
  dt_hour :: int
  dt_min :: int
  dt_sec :: int
  dt_ms :: int

record unique_env =
  ue_files :: file_env
  ue_to_date_time_ms :: "int \<Rightarrow> date_time"

record UniqueFile_Config =
  uc_directory :: string
  uc_async :: bool
  uc_auto_delete_days :: int
  uc_hash_length :: nat
  uc_use_dedicated_executor :: bool
  uc_queue_capacity :: nat
  uc_queue_policy :: QueuePolicy

definition UniqueFile_Config_default :: UniqueFile_Config where
  "UniqueFile_Config_default =
     \<lparr>uc_directory = ''unique_logs'', uc_async = True, uc_auto_delete_days = 30, uc_hash_length = 8,
      uc_use_dedicated_executor = False, uc_queue_capacity = 0, uc_queue_policy = Block\<rparr>"

definition unique_make_config :: "string \<Rightarrow> bool \<Rightarrow> int \<Rightarrow> nat \<Rightarrow> bool \<Rightarrow> nat \<Rightarrow> QueuePolicy \<Rightarrow> UniqueFile_Config" where
  "unique_make_config directory async auto_delete_days hash_length use_dedicated_executor queue_capacity queue_policy =
     UniqueFile_Config_default
       \<lparr>uc_directory := directory, uc_async := async, uc_auto_delete_days := auto_delete_days,
        uc_hash_length := hash_length, uc_use_dedicated_executor := use_dedicated_executor,
        uc_queue_capacity := queue_capacity, uc_queue_policy := queue_policy\<rparr>"

record ThreadLogInfo =
  ti_pending_logs :: int
  ti_last_file_path :: string
  ti_last_file_name :: string

record UniqueFileLogger =
  uf_config :: UniqueFile_Config
  uf_disk :: disk
  uf_executor :: "(nat \<times> QueuePolicy) option"
  uf_thread_log_info :: "nat \<rightharpoonup> ThreadLogInfo"
  uf_last_log_ts :: int
  uf_last_log_mono_ts :: int
  uf_log_level :: LogLevel
  uf_shutdown :: bool

section \<open>File names\<close>

definition unique_directory_path :: "unique_env \<Rightarrow> UniqueFileLogger \<Rightarrow> string" where
  "unique_directory_path env s = fe_exec_dir (ue_files env) @ ''/'' @ uc_directory (uf_config s)"

text \<open>\<open>%.nd\<close>: at least \<open>n\<close> digits.\<close>

definition print_prec :: "nat \<Rightarrow> int \<Rightarrow> string" where
  "print_prec n i = (if i < 0 then [CHR ''-''] else []) @ pad_left (CHR ''0'') n (dec_nat (nat \<bar>i\<bar>))"

text \<open>\<open>snprintf\<close> into 32 bytes, the last of which is the terminator.\<close>

definition format_timestamp :: "unique_env \<Rightarrow> int \<Rightarrow> string" where
  "format_timestamp env timestamp_ms =
     (let dt = ue_to_date_time_ms env timestamp_ms
      in take 31 (dec_int (dt_year dt) @ ''-'' @ print_prec 2 (dt_mon dt) @ ''-'' @ print_prec 2 (dt_day dt) @ ''_'' @
           print_prec 2 (dt_hour dt) @ ''-'' @ print_prec 2 (dt_min dt) @ ''-'' @ print_prec 2 (dt_sec dt) @ ''-'' @
           print_prec 3 (dt_ms dt)))"

definition hash_charset :: string where
  "hash_charset = ''0123456789ABCDEFGHIJKLMNOPQRSTUVWXYZabcdefghijklmnopqrstuvwxyz''"

text \<open>The draws are between 0 and 61, as the distribution promises.\<close>

definition generate_fixed_length_hash :: "(nat \<Rightarrow> nat) \<Rightarrow> nat \<Rightarrow> string" where
  "generate_fixed_length_hash draw len = map (\<lambda>i. hash_charset ! draw i) [0..<len]"

definition create_unique_file_path :: "unique_env \<Rightarrow> (nat \<Rightarrow> nat) \<Rightarrow> int \<Rightarrow> UniqueFileLogger \<Rightarrow> string" where
  "create_unique_file_path env draw timestamp_ms s =
     unique_directory_path env s @ ''/'' @ format_timestamp env timestamp_ms @ ''-'' @
     generate_fixed_length_hash draw (uc_hash_length (uf_config s)) @ ''.log''"

text \<open>
  The regular expression of \<open>is_valid_log_filename\<close>: date, time with
  milliseconds, a dash, at least one of \<open>[-_A-Za-z0-9]\<close>, and \<open>.log\<close>, possibly
  compressed.
\<close>

definition stamp_shape :: "string \<Rightarrow> bool" where
  "stamp_shape t =
     (length t = 23 \<and> date_shape (take 10 t) \<and> t ! 10 = CHR ''_'' \<and> digits (take 2 (drop 11 t)) \<and>
      t ! 13 = CHR ''-'' \<and> digits (take 2 (drop 14 t)) \<and> t ! 16 = CHR ''-'' \<and> digits (take 2 (drop 17 t)) \<and>
      t ! 19 = CHR ''-'' \<and> digits (drop 20 t))"

definition hash_char :: "char \<Rightarrow> bool" where
  "hash_char c = (isalnum c \<or> c = CHR ''-'' \<or> c = CHR ''_'')"

definition unique_valid_filename :: "string \<Rightarrow> bool" where
  "unique_valid_filename filename =
     (let plain_name = strip_compression_suffix filename;
          hash = take (length plain_name - 28) (drop 24 plain_name)
      in 29 \<le> length plain_name \<and> stamp_shape (take 23 plain_name) \<and> plain_name ! 23 = CHR ''-'' \<and>
         ends_with plain_name ''.log'' \<and> hash \<noteq> [] \<and> list_all hash_char hash)"

section \<open>Writing\<close>

definition unique_write_log :: "unique_env \<Rightarrow> (nat \<Rightarrow> nat) \<Rightarrow> string \<Rightarrow> int \<Rightarrow> UniqueFileLogger
    \<Rightarrow> string option \<times> UniqueFileLogger" where
  "unique_write_log env draw message timestamp_ms s =
     (let file_path = create_unique_file_path env draw timestamp_ms s
      in if \<not> fe_can_open (ue_files env) file_path then (None, s)
         else (Some file_path, s\<lparr>uf_disk := map_put file_path message (uf_disk s)\<rparr>))"

definition unique_is_old :: "unique_env \<Rightarrow> int \<Rightarrow> UniqueFileLogger \<Rightarrow> string \<Rightarrow> bool" where
  "unique_is_old env now s file_path =
     (let threshold_ts = fe_ms_to_sec (ue_files env) now - uc_auto_delete_days (uf_config s) * fe_sec_per_day (ue_files env);
          filename = get_file_name file_path
      in unique_valid_filename filename \<and> get_date_ts_from_filename (ue_files env) filename < threshold_ts)"

definition unique_remove_old_logs :: "unique_env \<Rightarrow> int \<Rightarrow> UniqueFileLogger \<Rightarrow> UniqueFileLogger" where
  "unique_remove_old_logs env now s =
     s\<lparr>uf_disk := remove_paths
         (filter (unique_is_old env now s) (get_list_files (uf_disk s) (unique_directory_path env s))) (uf_disk s)\<rparr>"

text \<open>What a thread's entry becomes after a write: the file, or that there is none.\<close>

definition note_file :: "string option \<Rightarrow> ThreadLogInfo \<Rightarrow> ThreadLogInfo" where
  "note_file written info =
     (case written of
        Some file_path \<Rightarrow> info\<lparr>ti_last_file_path := file_path, ti_last_file_name := get_file_name file_path\<rparr>
      | None \<Rightarrow> info\<lparr>ti_last_file_path := ''Not available'', ti_last_file_name := ''Not available''\<rparr>)"

definition no_info :: ThreadLogInfo where
  "no_info = \<lparr>ti_pending_logs = 0, ti_last_file_path = [], ti_last_file_name = []\<rparr>"

definition unique_log_sync :: "unique_env \<Rightarrow> (nat \<Rightarrow> nat) \<Rightarrow> int \<Rightarrow> string \<Rightarrow> int \<Rightarrow> nat \<Rightarrow> UniqueFileLogger \<Rightarrow> UniqueFileLogger" where
  "unique_log_sync env draw now message timestamp_ms thread_id s =
     (case unique_write_log env draw message timestamp_ms s of
        (written, s1) \<Rightarrow>
          (case uf_thread_log_info s1 thread_id of
             None \<Rightarrow> s1\<lparr>uf_thread_log_info := (uf_thread_log_info s1)(thread_id \<mapsto> note_file written no_info)\<rparr>
           | Some info \<Rightarrow>
               unique_remove_old_logs env now
                 (s1\<lparr>uf_thread_log_info := (uf_thread_log_info s1)(thread_id \<mapsto> note_file written info)\<rparr>)))"

text \<open>A task carries the message, its timestamp and the thread that logged it.\<close>

type_synonym unique_task = "string \<times> int \<times> nat"

definition unique_count_pending :: "nat \<Rightarrow> UniqueFileLogger \<Rightarrow> UniqueFileLogger" where
  "unique_count_pending thread_id s =
     (let info = (case uf_thread_log_info s thread_id of None \<Rightarrow> no_info | Some i \<Rightarrow> i)
      in s\<lparr>uf_thread_log_info := (uf_thread_log_info s)
             (thread_id \<mapsto> info\<lparr>ti_pending_logs := ti_pending_logs info + 1\<rparr>)\<rparr>)"

definition run_unique_task :: "unique_env \<Rightarrow> (nat \<Rightarrow> nat) \<Rightarrow> int \<Rightarrow> unique_task \<Rightarrow> UniqueFileLogger \<Rightarrow> UniqueFileLogger" where
  "run_unique_task env draw now task s =
     (case task of (message, timestamp_ms, thread_id) \<Rightarrow>
       (case unique_write_log env draw message timestamp_ms s of
          (written, s1) \<Rightarrow>
            (case uf_thread_log_info s1 thread_id of
               None \<Rightarrow> s1
             | Some info \<Rightarrow>
                 let info1 = note_file written info
                 in unique_remove_old_logs env now
                      (s1\<lparr>uf_thread_log_info := (uf_thread_log_info s1)
                         (thread_id \<mapsto> info1\<lparr>ti_pending_logs := ti_pending_logs info1 - 1\<rparr>)\<rparr>))))"

text \<open>\<open>log\<close>: the task to hand to the executor, if any, and the new state.\<close>

definition UniqueFileLogger_log :: "unique_env \<Rightarrow> (nat \<Rightarrow> nat) \<Rightarrow> int \<Rightarrow> int \<Rightarrow> LogRecord \<Rightarrow> string \<Rightarrow> UniqueFileLogger
    \<Rightarrow> unique_task option \<times> UniqueFileLogger" where
  "UniqueFileLogger_log env draw now mono_ms record message s =
     (if uf_shutdown s then (None, s)
      else let s1 = s\<lparr>uf_last_log_ts := lr_timestamp_ms record, uf_last_log_mono_ts := mono_ms\<rparr>
           in if \<not> uc_async (uf_config s1)
              then (None, unique_log_sync env draw now message (lr_timestamp_ms record) (lr_thread_id record) s1)
              else (Some (message, lr_timestamp_ms record, lr_thread_id record),
                    unique_count_pending (lr_thread_id record) s1))"

section \<open>Lifecycle\<close>

definition unique_start_logging :: "unique_env \<Rightarrow> int \<Rightarrow> UniqueFileLogger \<Rightarrow> UniqueFileLogger" where
  "unique_start_logging env now s =
     (case create_directories (fe_mkdir (ue_files env)) (unique_directory_path env s) of
        Inl p \<Rightarrow> s
      | Inr _ \<Rightarrow> unique_remove_old_logs env now s)"

definition UniqueFileLogger_init :: "unique_env \<Rightarrow> int \<Rightarrow> UniqueFile_Config \<Rightarrow> disk \<Rightarrow> UniqueFileLogger" where
  "UniqueFileLogger_init env now config d =
     unique_start_logging env now
       \<lparr>uf_config = config, uf_disk = d,
        uf_executor = (if uc_async config \<and> uc_use_dedicated_executor config
                       then Some (uc_queue_capacity config, uc_queue_policy config) else None),
        uf_thread_log_info = Map.empty, uf_last_log_ts = 0, uf_last_log_mono_ts = 0,
        uf_log_level = LOG_LVL_TRACE, uf_shutdown = False\<rparr>"

text \<open>
  The calls that drain the executor run the tasks it still holds, in order; a
  held task comes with the clock and the draws of the moment it runs.
\<close>

type_synonym held_task = "unique_task \<times> (nat \<Rightarrow> nat) \<times> int"

definition run_held :: "unique_env \<Rightarrow> UniqueFileLogger \<Rightarrow> held_task \<Rightarrow> UniqueFileLogger" where
  "run_held env s held = (case held of (task, draw, now) \<Rightarrow> run_unique_task env draw now task s)"

definition UniqueFileLogger_wait :: "unique_env \<Rightarrow> held_task list \<Rightarrow> UniqueFileLogger \<Rightarrow> UniqueFileLogger" where
  "UniqueFileLogger_wait env pending s =
     (if uc_async (uf_config s) then foldl (run_held env) s pending else s)"

definition UniqueFileLogger_shutdown :: "unique_env \<Rightarrow> held_task list \<Rightarrow> UniqueFileLogger \<Rightarrow> UniqueFileLogger" where
  "UniqueFileLogger_shutdown env pending s =
     (if uf_shutdown s then s
      else let s1 = s\<lparr>uf_shutdown := True\<rparr>
           in if uf_executor s1 \<noteq> None \<or> uc_async (uf_config s1) then foldl (run_held env) s1 pending else s1)"

definition UniqueFileLogger_set_config :: "unique_env \<Rightarrow> held_task list \<Rightarrow> UniqueFile_Config \<Rightarrow> UniqueFileLogger \<Rightarrow> UniqueFileLogger" where
  "UniqueFileLogger_set_config env pending config s =
     (if uf_shutdown s then s
      else let s1 = (if uc_async (uf_config s) then foldl (run_held env) s pending else s);
               c = (uf_config s1)\<lparr>uc_async := uc_async config,
                      uc_use_dedicated_executor := uc_use_dedicated_executor config,
                      uc_queue_capacity := uc_queue_capacity config, uc_queue_policy := uc_queue_policy config\<rparr>
           in s1\<lparr>uf_config := c,
                 uf_executor := (if uc_async c \<and> uc_use_dedicated_executor c
                                 then Some (uc_queue_capacity c, uc_queue_policy c) else None)\<rparr>)"

definition UniqueFileLogger_set_queue_config :: "nat \<Rightarrow> QueuePolicy \<Rightarrow> UniqueFileLogger \<Rightarrow> bool \<times> UniqueFileLogger" where
  "UniqueFileLogger_set_queue_config queue_capacity queue_policy s =
     (if uf_shutdown s then (False, s)
      else let s1 = s\<lparr>uf_config := (uf_config s)\<lparr>uc_queue_capacity := queue_capacity,
                        uc_queue_policy := queue_policy\<rparr>\<rparr>
           in if uf_executor s1 = None then (False, s1)
              else (True, s1\<lparr>uf_executor := Some (queue_capacity, queue_policy)\<rparr>))"

section \<open>Parameters\<close>

text \<open>The condition the two name queries wait for, for the calling thread.\<close>

definition last_file_ready :: "nat \<Rightarrow> UniqueFileLogger \<Rightarrow> bool" where
  "last_file_ready thread_id s =
     (case uf_thread_log_info s thread_id of None \<Rightarrow> True | Some info \<Rightarrow> ti_pending_logs info = 0)"

text \<open>\<open>None\<close>: the call does not return yet.\<close>

definition get_last_log_file_name :: "nat \<Rightarrow> UniqueFileLogger \<Rightarrow> string option" where
  "get_last_log_file_name thread_id s =
     (if \<not> last_file_ready thread_id s then None
      else case uf_thread_log_info s thread_id of None \<Rightarrow> Some [] | Some info \<Rightarrow> Some (ti_last_file_name info))"

definition get_last_log_file_path :: "nat \<Rightarrow> UniqueFileLogger \<Rightarrow> string option" where
  "get_last_log_file_path thread_id s =
     (if \<not> last_file_ready thread_id s then None
      else case uf_thread_log_info s thread_id of None \<Rightarrow> Some [] | Some info \<Rightarrow> Some (ti_last_file_path info))"

definition UniqueFileLogger_get_string_param :: "nat \<Rightarrow> int \<Rightarrow> LoggerParam \<Rightarrow> UniqueFileLogger \<Rightarrow> string option" where
  "UniqueFileLogger_get_string_param thread_id mono_ms param s =
     (case param of
        LastFileName \<Rightarrow> get_last_log_file_name thread_id s
      | LastFilePath \<Rightarrow> get_last_log_file_path thread_id s
      | LastLogTimestamp \<Rightarrow> Some (dec_int (uf_last_log_ts s))
      | TimeSinceLastLog \<Rightarrow> Some (dec_int (mono_ms - uf_last_log_mono_ts s))
      | _ \<Rightarrow> Some [])"

definition UniqueFileLogger_get_int_param :: "int \<Rightarrow> LoggerParam \<Rightarrow> UniqueFileLogger \<Rightarrow> int" where
  "UniqueFileLogger_get_int_param mono_ms param s =
     (case param of
        LastLogTimestamp \<Rightarrow> uf_last_log_ts s
      | TimeSinceLastLog \<Rightarrow> mono_ms - uf_last_log_mono_ts s
      | _ \<Rightarrow> 0)"

section \<open>Listing, reading and clearing\<close>

definition unique_file_info :: "unique_env \<Rightarrow> UniqueFileLogger \<Rightarrow> string \<Rightarrow> LogFileInfo option" where
  "unique_file_info env s file_path =
     (if \<not> is_direct_child_path file_path (unique_directory_path env s) then None
      else let filename = get_file_name file_path
           in if \<not> unique_valid_filename filename then None
              else Some \<lparr>fi_path = file_path, fi_name = filename,
                         fi_day_start_ms = fe_sec_to_ms (ue_files env) (get_date_ts_from_filename (ue_files env) filename),
                         fi_is_current = False, fi_is_compressed = is_compressed_log_filename filename\<rparr>)"

record UniqueFileSortKey =
  uk_timestamp_prefix :: string
  uk_artifact_name :: string

definition unique_sort_key :: "LogFileInfo \<Rightarrow> UniqueFileSortKey" where
  "unique_sort_key info =
     (let artifact_name = strip_compression_suffix (fi_name info)
      in \<lparr>uk_timestamp_prefix = (if 23 \<le> length artifact_name then take 23 artifact_name else artifact_name),
          uk_artifact_name = artifact_name\<rparr>)"

definition unique_newer :: "LogFileInfo \<Rightarrow> LogFileInfo \<Rightarrow> bool" where
  "unique_newer lhs rhs =
     (let lk = unique_sort_key lhs; rk = unique_sort_key rhs
      in if uk_timestamp_prefix lk \<noteq> uk_timestamp_prefix rk then uk_timestamp_prefix rk < uk_timestamp_prefix lk
         else if uk_artifact_name lk = uk_artifact_name rk \<and> fi_is_compressed lhs \<noteq> fi_is_compressed rhs
         then \<not> fi_is_compressed lhs \<and> fi_is_compressed rhs
         else if uk_artifact_name lk \<noteq> uk_artifact_name rk then uk_artifact_name rk < uk_artifact_name lk
         else normalize_path_separators (fi_path rhs) < normalize_path_separators (fi_path lhs))"

definition unique_list_log_files :: "unique_env \<Rightarrow> UniqueFileLogger \<Rightarrow> LogFileInfo list" where
  "unique_list_log_files env s =
     sort_by unique_newer
       (List.map_filter (unique_file_info env s) (get_list_files (uf_disk s) (unique_directory_path env s)))"

definition unique_read_from_info :: "unique_env \<Rightarrow> UniqueFileLogger \<Rightarrow> LogFileInfo \<Rightarrow> LogFileReadResult" where
  "unique_read_from_info env s info =
     (case fs_read (uf_disk s) (fi_path info) of
        None \<Rightarrow> \<lparr>rr_file = info, rr_content = [], rr_ok = False\<rparr>
      | Some file_bytes \<Rightarrow>
          if fi_is_compressed info then
            (case decompress_string_by_suffix (fe_codec (ue_files env)) (fi_path info) file_bytes of
               None \<Rightarrow> \<lparr>rr_file = info, rr_content = [], rr_ok = False\<rparr>
             | Some content \<Rightarrow> \<lparr>rr_file = info, rr_content = content, rr_ok = True\<rparr>)
          else \<lparr>rr_file = info, rr_content = file_bytes, rr_ok = True\<rparr>)"

definition unique_read_listed :: "unique_env \<Rightarrow> UniqueFileLogger \<Rightarrow> LogFileInfo list \<Rightarrow> string \<Rightarrow> LogFileReadResult" where
  "unique_read_listed env s files path =
     (case find (\<lambda>info. same_path (fi_path info) path) files of
        Some info \<Rightarrow> unique_read_from_info env s info
      | None \<Rightarrow> unknown_file path)"

definition unique_read_log_file :: "unique_env \<Rightarrow> string \<Rightarrow> UniqueFileLogger \<Rightarrow> LogFileReadResult" where
  "unique_read_log_file env path s = unique_read_listed env s (unique_list_log_files env s) path"

definition unique_read_log_files :: "unique_env \<Rightarrow> string list \<Rightarrow> UniqueFileLogger \<Rightarrow> LogFileReadResult list" where
  "unique_read_log_files env paths s =
     (let files = unique_list_log_files env s in map (unique_read_listed env s files) paths)"

definition unique_clear_logs :: "unique_env \<Rightarrow> held_task list \<Rightarrow> LogClearOptions \<Rightarrow> UniqueFileLogger
    \<Rightarrow> LogClearResult \<times> UniqueFileLogger" where
  "unique_clear_logs env pending options s0 =
     (let s = UniqueFileLogger_wait env pending s0
      in if uf_shutdown s then
           (\<lparr>cl_ok = False, cl_status = Failed, cl_cleared_records = 0,
             cl_message = ''UniqueFileLogger is shut down''\<rparr>, s)
         else let (n, d) = remove_counting (map fi_path (unique_list_log_files env s)) (uf_disk s)
              in (\<lparr>cl_ok = True, cl_status = Cleared, cl_cleared_records = n, cl_message = ''cleared''\<rparr>,
                  s\<lparr>uf_disk := d, uf_thread_log_info := Map.empty, uf_last_log_ts := 0, uf_last_log_mono_ts := 0\<rparr>))"

section \<open>The backend as an \<open>ILogger\<close>\<close>

text \<open>Every call is atomic; the name queries answer with nothing while they would wait.\<close>

definition unique_ilogger :: "unique_env \<Rightarrow> (nat \<Rightarrow> nat) \<Rightarrow> int \<Rightarrow> int \<Rightarrow> nat \<Rightarrow> held_task list \<Rightarrow> UniqueFileLogger ILogger" where
  "unique_ilogger env draw now mono_ms thread_id pending =
     \<lparr>il_log = (\<lambda>record message s. snd (UniqueFileLogger_log env draw now mono_ms record message s)),
      il_supports_concurrent_log = (\<lambda>_. False),
      il_get_string_param = (\<lambda>param s.
         case UniqueFileLogger_get_string_param thread_id mono_ms param s of None \<Rightarrow> [] | Some t \<Rightarrow> t),
      il_get_int_param = UniqueFileLogger_get_int_param mono_ms,
      il_set_log_level = (\<lambda>level s. s\<lparr>uf_log_level := level\<rparr>),
      il_get_log_level = uf_log_level,
      il_get_buffered_strings = ILogger_get_buffered,
      il_get_buffered_entries = ILogger_get_buffered,
      il_list_log_files = unique_list_log_files env,
      il_read_log_file = unique_read_log_file env,
      il_clear_logs = unique_clear_logs env pending,
      il_wait = UniqueFileLogger_wait env pending,
      il_shutdown = UniqueFileLogger_shutdown env pending\<rparr>"

text \<open>Writing and running tasks leave the configuration, the level and the shutdown flag alone.\<close>

definition unique_setup :: "UniqueFileLogger \<Rightarrow> UniqueFile_Config \<times> LogLevel \<times> bool" where
  "unique_setup s = (uf_config s, uf_log_level s, uf_shutdown s)"

lemma unique_remove_setup [simp]: "unique_setup (unique_remove_old_logs env now s) = unique_setup s"
  by (simp add: unique_setup_def unique_remove_old_logs_def)

lemma unique_write_setup: "unique_write_log env draw msg ts s = (w, s') \<Longrightarrow> unique_setup s' = unique_setup s"
  by (auto simp: unique_write_log_def unique_setup_def Let_def split: if_splits)

lemma run_unique_setup [simp]: "unique_setup (run_unique_task env draw now task s) = unique_setup s"
  by (auto simp: run_unique_task_def Let_def split: prod.splits option.splits dest!: unique_write_setup)
    (simp_all add: unique_setup_def)

lemma run_held_setup [simp]: "unique_setup (foldl (run_held env) s pending) = unique_setup s"
  by (induction pending arbitrary: s) (auto simp: run_held_def)

interpretation unique_level: levelled_logger "unique_ilogger env draw now mono_ms thread_id pending"
proof unfold_locales
  fix level r msg l
  let ?il = "unique_ilogger env draw now mono_ms thread_id pending"
  have level: "unique_setup a = unique_setup b \<Longrightarrow> uf_log_level a = uf_log_level b" for a b
    by (simp add: unique_setup_def)
  show "il_get_log_level ?il (il_set_log_level ?il level l) = level" by (simp add: unique_ilogger_def)
  show "il_get_log_level ?il (il_wait ?il l) = il_get_log_level ?il l"
    by (simp add: unique_ilogger_def UniqueFileLogger_wait_def level [OF run_held_setup])
  show "il_get_log_level ?il (il_shutdown ?il l) = il_get_log_level ?il l"
    by (simp add: unique_ilogger_def UniqueFileLogger_shutdown_def Let_def level [OF run_held_setup])
  have "unique_setup (unique_log_sync env draw now m t i s) = unique_setup s" for m t i s
    by (auto simp: unique_log_sync_def split: prod.splits option.splits dest!: unique_write_setup)
      (simp_all add: unique_setup_def)
  then have "uf_log_level (unique_log_sync env draw now m t i s) = uf_log_level s" for m t i s
    by (rule level)
  then show "il_get_log_level ?il (il_log ?il r msg l) = il_get_log_level ?il l"
    by (simp add: unique_ilogger_def UniqueFileLogger_log_def unique_count_pending_def Let_def)
qed

end
