(* ===== verification/ExecutorProps.thy ===== *)
theory ExecutorProps
  imports Executor
begin

text \<open>
  What the deque-backed \<open>TaskExecutor\<close> guarantees under every interleaving: it
  satisfies the executor contract, \<open>wait\<close> and \<open>shutdown\<close> drain, the queue
  respects its limit; and the lost wake-up its single condition variable allows.
\<close>

section \<open>The executor contract\<close>

definition te_idle :: "'a te_system \<Rightarrow> bool" where
  "te_idle s = (te_tasks_queue (ts_executor s) = [] \<and> te_active_tasks (ts_executor s) = 0)"

lemma te_inv_finished: "te_inv_sys evs s \<Longrightarrow> subseq (finished evs) (accepted evs)"
proof -
  assume "te_inv_sys evs s"
  then have "subseq (finished evs @ running (ts_worker s) @ te_tasks_queue (ts_executor s))
      (accepted evs)"
    by (auto simp: te_inv_sys_def te_inv_def)
  moreover have "subseq (finished evs) (finished evs @ r)" for r by (simp add: list_emb_prefix)
  ultimately show ?thesis using subseq_order.trans by blast
qed

interpretation te: fifo_executor te_run accepted evicted finished te_idle
proof
  fix evs :: "'a te_event list" and s
  assume run: "te_run evs s"
  then show "subseq (finished evs) (accepted evs)" by (rule te_inv_finished [OF te_run_inv])
  assume "te_idle s"
  with te_run_inv [OF run] show "mset (accepted evs) = mset (finished evs) + mset (evicted evs)"
    by (auto simp: te_inv_sys_def te_inv_def te_idle_def)
qed

lemma te_wait_returned:
  assumes "te_step s ev s'" "WaitReturned \<in> set ev" "\<not> te_stop_flag (ts_executor s)"
  shows "te_idle s"
  using assms
  by (cases rule: te_step.cases)
     (auto simp: add_events_def te_idle_def wait_ready_def
       split: if_splits add_result.splits take_result.splits)

lemma te_stopped_accepts_nothing:
  assumes "te_step s ev s'" "te_stop_flag (ts_executor s)"
  shows "accepted ev = []"
  using assms
  by (cases rule: te_step.cases)
     (auto simp: add_events_def add_task_enter_def add_task_resume_def
       split: if_splits add_result.splits take_result.splits)

lemma te_wake_executor [simp]: "ts_executor (te_wake th s) = ts_executor s"
  by (cases th) simp_all

lemma te_notify_all_executor [simp]: "ts_executor (te_notify_all s) = ts_executor s"
  by (simp add: te_notify_all_def)

lemma te_notify_one_executor: "te_notify_one s s' \<Longrightarrow> ts_executor s' = ts_executor s"
  by (erule te_notify_oneE) simp_all

lemma te_enter_length:
  "add_task_enter t e = (e', res) \<Longrightarrow> 0 < te_max_queue_size e \<Longrightarrow>
   length (te_tasks_queue e) \<le> te_max_queue_size e \<Longrightarrow>
   te_max_queue_size e' = te_max_queue_size e \<and> length (te_tasks_queue e') \<le> te_max_queue_size e"
  by (auto simp: te_defs split: if_splits QueuePolicy.splits)

lemma te_resume_length:
  "add_task_resume t e = (e', res) \<Longrightarrow>
   length (te_tasks_queue e) \<le> te_max_queue_size e \<Longrightarrow>
   te_max_queue_size e' = te_max_queue_size e \<and> length (te_tasks_queue e') \<le> te_max_queue_size e"
  by (auto simp: te_defs split: if_splits)

lemma worker_take_length:
  "worker_take e = (e', res) \<Longrightarrow> te_max_queue_size e' = te_max_queue_size e \<and>
   length (te_tasks_queue e') \<le> length (te_tasks_queue e)"
  by (cases "te_tasks_queue e") (auto simp: worker_take_def split: if_splits)

lemma worker_finish_length:
  "worker_finish e = (e', idle) \<Longrightarrow> te_max_queue_size e' = te_max_queue_size e \<and>
   te_tasks_queue e' = te_tasks_queue e"
  by (auto simp: worker_finish_def Let_def)

section \<open>Concrete runs\<close>

text \<open>States with one producer, one waiter and default settings, for example runs.\<close>

definition ts_demo ::
  "'a list \<Rightarrow> nat \<Rightarrow> bool \<Rightarrow> 'a worker_pc \<Rightarrow> 'a producer_pc option \<Rightarrow> waiter_pc option \<Rightarrow> shutdown_pc
   \<Rightarrow> 'a te_system" where
  "ts_demo q active stop w p v sd =
     \<lparr>ts_executor = TaskExecutor_init\<lparr>te_tasks_queue := q, te_active_tasks := active,
        te_stop_flag := stop\<rparr>,
      ts_worker = w, ts_producers = (\<lambda>i. if i = 0 then p else None),
      ts_waiters = (\<lambda>i. if i = 0 then v else None), ts_shutdown = sd\<rparr>"

lemma ts_demo_eqs:
  "te_system_init = ts_demo [] 0 False WTake None None SNone"
  "ts_producers (ts_demo q a st w p v sd) 0 = p" "ts_waiters (ts_demo q a st w p v sd) 0 = v"
  "ts_worker (ts_demo q a st w p v sd) = w" "ts_shutdown (ts_demo q a st w p v sd) = sd"
  "(ts_demo q a st w p v sd)\<lparr>ts_producers := (ts_producers (ts_demo q a st w p v sd))(0 := p')\<rparr>
     = ts_demo q a st w p' v sd"
  "(ts_demo q a st w p v sd)\<lparr>ts_waiters := (ts_waiters (ts_demo q a st w p v sd))(0 := v')\<rparr>
     = ts_demo q a st w p v' sd"
  "(ts_demo q a st w p v sd)\<lparr>ts_worker := w'\<rparr> = ts_demo q a st w' p v sd"
  by (auto simp: te_system_init_def ts_demo_def TaskExecutor_init_def fun_eq_iff)

lemma ts_demo_nobody:
  assumes "w \<noteq> WSleep" "\<And>t. p \<noteq> Some (PSleep t)" "v \<noteq> Some QSleep"
  shows "te_notify_one (ts_demo q a st w p v sd) (ts_demo q a st w p v sd)"
proof (rule te_notify_one.nobody)
  fix th
  show "\<not> te_sleeping (ts_demo q a st w p v sd) th"
    using assms by (cases th) (auto simp: ts_demo_def)
qed

lemma ts_demo_steps:
  "te_step (ts_demo q a st w None v sd) [] (ts_demo q a st w (Some (PEnter t)) v sd)"
  "te_step (ts_demo q a False w (Some (PEnter t)) v sd) [Accepted t]
     (ts_demo (q @ [t]) a False w (Some PNotify) v sd)"
  "te_step (ts_demo (t # q) a st WTake p v sd) [Started t] (ts_demo q (a + 1) st (WNotify t) p v sd)"
  "te_step (ts_demo [] a False WTake p v sd) [] (ts_demo [] a False WSleep p v sd)"
  "te_step (ts_demo [] a True WTake p v sd) [] (ts_demo [] a True WExit p v sd)"
  "te_step (ts_demo q a st w p None sd) [] (ts_demo q a st w p (Some QCheck) sd)"
  "te_step (ts_demo (t # q) a False w p (Some QCheck) sd) []
     (ts_demo (t # q) a False w p (Some QSleep) sd)"
  "te_step (ts_demo [] 0 st w p (Some QCheck) sd) [WaitReturned] (ts_demo [] 0 st w p (Some QDone) sd)"
  "te_step (ts_demo q a st w p v SNone) [] (ts_demo q a True w p v SNotify)"
  "te_step (ts_demo q a st WExit p v SJoin) [ShutdownReturned] (ts_demo q a st WExit p v SDone)"
  using te_step.call_add [of "ts_demo q a st w None v sd" 0 t]
    te_step.enter [of "ts_demo q a False w (Some (PEnter t)) v sd" 0 t]
    te_step.take [of "ts_demo (t # q) a st WTake p v sd"]
    te_step.take [of "ts_demo [] a False WTake p v sd"]
    te_step.take [of "ts_demo [] a True WTake p v sd"]
    te_step.call_wait [of "ts_demo q a st w p None sd" 0]
    te_step.wait_check [of "ts_demo (t # q) a False w p (Some QCheck) sd" 0]
    te_step.wait_check [of "ts_demo [] 0 st w p (Some QCheck) sd" 0]
    te_step.shutdown_call [of "ts_demo q a st w p v SNone"]
    te_step.shutdown_join [of "ts_demo q a st WExit p v SJoin"]
  by (simp_all add: ts_demo_def TaskExecutor_init_def te_defs add_events_def fun_upd_def cong: if_cong)

lemma ts_demo_notify_steps:
  "v \<noteq> Some QSleep \<Longrightarrow> w \<noteq> WSleep \<Longrightarrow>
   te_step (ts_demo q a st w (Some PNotify) v sd) [] (ts_demo q a st w (Some PDone) v sd)"
  "te_step (ts_demo q a st w (Some PNotify) (Some QSleep) sd) []
     (ts_demo q a st w (Some PDone) (Some QCheck) sd)"
  "te_step (ts_demo q a st (WNotify t) (Some PDone) None sd) [] (ts_demo q a st (WRun t) (Some PDone) None sd)"
  "te_step (ts_demo [] 1 st (WRun t) (Some PDone) None sd) [Finished t]
     (ts_demo [] 0 st WTake (Some PDone) None sd)"
  "te_step (ts_demo q a st WTake (Some PDone) None SNotify) []
     (ts_demo q a st WTake (Some PDone) None SJoin)"
proof -
  show "v \<noteq> Some QSleep \<Longrightarrow> w \<noteq> WSleep \<Longrightarrow>
     te_step (ts_demo q a st w (Some PNotify) v sd) [] (ts_demo q a st w (Some PDone) v sd)"
    by (rule te_step.producer_notify [of _ 0]) (auto simp: ts_demo_eqs intro!: ts_demo_nobody)
  have "te_sleeping (ts_demo q a st w (Some PDone) (Some QSleep) sd) (TWaiter 0)"
    by (simp add: ts_demo_def)
  from te_notify_one.one [OF this]
  show "te_step (ts_demo q a st w (Some PNotify) (Some QSleep) sd) []
     (ts_demo q a st w (Some PDone) (Some QCheck) sd)"
    by (intro te_step.producer_notify [of _ 0])
       (simp_all add: ts_demo_eqs wake_waiter_def)
  show "te_step (ts_demo q a st (WNotify t) (Some PDone) None sd) []
     (ts_demo q a st (WRun t) (Some PDone) None sd)"
    by (rule te_step.worker_notify [of _ t]) (auto simp: ts_demo_eqs intro!: ts_demo_nobody)
  show "te_step (ts_demo [] 1 st (WRun t) (Some PDone) None sd) [Finished t]
     (ts_demo [] 0 st WTake (Some PDone) None sd)"
    using te_step.finish [of "ts_demo [] 1 st (WRun t) (Some PDone) None sd" t]
    by (simp add: ts_demo_def TaskExecutor_init_def te_defs te_notify_all_def wake_worker_def
        wake_producer_def wake_waiter_def if_distrib cong: if_cong)
  show "te_step (ts_demo q a st WTake (Some PDone) None SNotify) []
     (ts_demo q a st WTake (Some PDone) None SJoin)"
    using te_step.shutdown_notify [of "ts_demo q a st WTake (Some PDone) None SNotify"]
    by (simp add: ts_demo_def TaskExecutor_init_def te_notify_all_def wake_worker_def
        wake_producer_def wake_waiter_def if_distrib cong: if_cong)
qed
lemma ts_demo_run:
  "te_run [Accepted t] (ts_demo [t] 0 False WTake (Some PDone) None SNone)"
  "te_run [Accepted t, Started t, Finished t] (ts_demo [] 0 False WTake (Some PDone) None SNone)"
  "te_run [Accepted t, Started t, Finished t, ShutdownReturned]
     (ts_demo [] 0 True WExit (Some PDone) None SDone)"
proof -
  note step = te_run.step
  have 0: "te_run [] (ts_demo [] 0 False WTake None None SNone)"
    using te_run.init by (simp add: ts_demo_eqs)
  note 1 = step [OF 0 ts_demo_steps(1), of t]
  note 2 = step [OF 1 ts_demo_steps(2)]
  have 3: "te_run [Accepted t] (ts_demo [t] 0 False WTake (Some PDone) None SNone)"
    using step [OF 2 ts_demo_notify_steps(1)] by simp
  then show "te_run [Accepted t] (ts_demo [t] 0 False WTake (Some PDone) None SNone)" .
  note 4 = step [OF 3 ts_demo_steps(3)]
  note 5 = step [OF 4 ts_demo_notify_steps(3)]
  have 6: "te_run [Accepted t, Started t, Finished t]
      (ts_demo [] 0 False WTake (Some PDone) None SNone)"
    using step [OF _ ts_demo_notify_steps(4)] 5 by fastforce
  then show "te_run [Accepted t, Started t, Finished t]
      (ts_demo [] 0 False WTake (Some PDone) None SNone)" .
  note 7 = step [OF 6 ts_demo_steps(9)]
  note 8 = step [OF 7 ts_demo_notify_steps(5)]
  note 9 = step [OF 8 ts_demo_steps(5)]
  from step [OF 9 ts_demo_steps(10)]
  show "te_run [Accepted t, Started t, Finished t, ShutdownReturned]
     (ts_demo [] 0 True WExit (Some PDone) None SDone)" by simp
qed

section \<open>Properties\<close>

text \<open>C1: The executor is a FIFO queue without duplication or invention: at every reachable
  point, under every interleaving of producers, worker, waiters and shutdown, the tasks run
  so far are, in order, among those accepted; the accepted tasks are exactly the started, the
  queued and the evicted ones; and the drop counter is the number of refusals and evictions
  since its last reset.\<close>

theorem te_fifo:
  assumes "te_run evs s"
  shows "subseq (finished evs) (accepted evs) \<and>
    subseq (started evs @ te_tasks_queue (ts_executor s)) (accepted evs) \<and>
    mset (accepted evs) =
      mset (started evs) + mset (te_tasks_queue (ts_executor s)) + mset (evicted evs) \<and>
    te_dropped_tasks (ts_executor s) = drops evs"
  using te_run_inv [OF assms] te_inv_finished [OF te_run_inv [OF assms]]
  by (auto simp: te_inv_sys_def te_inv_def)

theorem te_fifo_witness:
  "subseq (finished [Accepted (7::nat)]) [7] \<and> mset (started [Accepted (7::nat)]) + {#7#} = {#7#}"
  using te_fifo [OF ts_demo_run(1), of "7::nat"] by (simp add: ts_demo_def)

text \<open>C2: When \<open>wait\<close> returns and no shutdown has been requested, every task accepted so far
  has run to completion, in the order of acceptance, unless the overflow policy evicted it.\<close>

theorem te_wait_drains:
  assumes "te_run evs s" "te_step s ev s'" "WaitReturned \<in> set ev"
    and "\<not> te_stop_flag (ts_executor s)"
  shows "mset (accepted evs) = mset (finished evs) + mset (evicted evs) \<and>
    (evicted evs = [] \<longrightarrow> finished evs = accepted evs)"
  using te.conserved [OF assms(1)] te.lossless [OF assms(1)] te_wait_returned [OF assms(2-4)]
  by blast

theorem te_wait_drains_witness:
  "finished [Accepted (7::nat), Started 7, Finished 7] = accepted [Accepted 7, Started 7, Finished 7]"
proof -
  note run = te_run.step [OF ts_demo_run(2) ts_demo_steps(6), of "7::nat"]
  from te_wait_drains [OF run ts_demo_steps(8)] show ?thesis by (simp add: ts_demo_def TaskExecutor_init_def)
qed

text \<open>C3: When \<open>shutdown\<close> has returned, the queue is empty, every accepted task has run to
  completion or was evicted, and no later call is accepted.\<close>

theorem te_shutdown_drains:
  assumes "te_run evs s" "ts_shutdown s = SDone"
  shows "te_tasks_queue (ts_executor s) = [] \<and>
    mset (accepted evs) = mset (finished evs) + mset (evicted evs) \<and>
    (\<forall>ev s'. te_step s ev s' \<longrightarrow> accepted ev = [])"
proof -
  have "te_stop_flag (ts_executor s)" "te_idle s"
    using te_run_inv [OF assms(1)] assms(2) by (auto simp: te_inv_sys_def te_inv_def te_idle_def)
  then show ?thesis
    using te.conserved [OF assms(1)] te_stopped_accepts_nothing by (auto simp: te_idle_def)
qed

theorem te_shutdown_drains_witness:
  "mset (accepted [Accepted (7::nat), Started 7, Finished 7, ShutdownReturned]) =
   mset (finished [Accepted (7::nat), Started 7, Finished 7, ShutdownReturned])"
  using te_shutdown_drains [OF ts_demo_run(3), of "7::nat"] by (simp add: ts_demo_eqs)

text \<open>C5: The queue bound: while the limit is not changed, no step of any thread takes a queue
  that respects a positive limit beyond it, whatever the overflow policy.\<close>

theorem te_bounded:
  assumes "te_step s ev s'" "0 < te_max_queue_size (ts_executor s)"
    and "te_max_queue_size (ts_executor s') = te_max_queue_size (ts_executor s)"
    and "length (te_tasks_queue (ts_executor s)) \<le> te_max_queue_size (ts_executor s)"
  shows "length (te_tasks_queue (ts_executor s')) \<le> te_max_queue_size (ts_executor s')"
  using assms
proof (induction rule: te_step.induct)
  case (enter s p t e' res)
  then show ?case using te_enter_length [OF enter(2)] by simp
next
  case (resume s p t e' res)
  then show ?case using te_resume_length [OF resume(2)] by simp
next
  case (producer_notify s p s')
  then show ?case using te_notify_one_executor [OF producer_notify(2)] by simp
next
  case (worker_notify s t s')
  then show ?case using te_notify_one_executor [OF worker_notify(2)] by simp
next
  case (take s e' res)
  then show ?case using worker_take_length [OF take(2)] by simp
next
  case (finish s t e' idle)
  then show ?case using worker_finish_length [OF finish(2)] by simp
qed (simp_all add: shutdown_flag_def te_set_max_queue_size_def te_set_queue_policy_def
    te_reset_dropped_tasks_def)

theorem te_bounded_witness:
  "length (te_tasks_queue (ts_executor
     (te_system_init\<lparr>ts_executor := shutdown_flag
        (te_set_max_queue_size 2 (TaskExecutor_init :: nat TaskExecutor)), ts_shutdown := SNotify\<rparr>)))
   \<le> 2"
proof -
  let ?s = "te_system_init\<lparr>ts_executor := te_set_max_queue_size 2
      (TaskExecutor_init :: nat TaskExecutor)\<rparr>"
  have "te_step ?s [] (?s\<lparr>ts_executor := shutdown_flag (ts_executor ?s), ts_shutdown := SNotify\<rparr>)"
    by (rule te_step.shutdown_call) (simp add: te_system_init_def)
  from te_bounded [OF this] show ?thesis
    by (simp add: te_set_max_queue_size_def TaskExecutor_init_def shutdown_flag_def)
qed

text \<open>Nobody is awake and nobody owes a notification.\<close>

definition te_quiet :: "'a te_system \<Rightarrow> bool" where
  "te_quiet s =
     (ts_worker s \<in> {WSleep, WExit} \<and> ts_shutdown s \<in> {SNone, SDone} \<and>
      (\<forall>p. case ts_producers s p of None \<Rightarrow> True | Some pc \<Rightarrow> (case pc of PSleep t \<Rightarrow> True | PDone \<Rightarrow> True | _ \<Rightarrow> False)) \<and>
      (\<forall>w. ts_waiters s w \<noteq> Some QCheck))"

text \<open>C6: The shared condition variable can lose a wake-up: there is a run in which a task has been
  accepted and announced with \<open>notify_one\<close>, yet the worker sleeps and a caller of \<open>wait\<close>
  sleeps on the unfinished task, with no notification outstanding and nobody awake, because
  the notification went to the waiter.\<close>

theorem te_lost_wakeup:
  "\<exists>evs (s :: nat te_system). te_run evs s \<and> te_quiet s \<and> \<not> te_stop_flag (ts_executor s) \<and>
     te_tasks_queue (ts_executor s) \<noteq> [] \<and> ts_worker s = WSleep \<and> ts_waiters s 0 = Some QSleep"
proof -
  note step = te_run.step
  have 0: "te_run [] (ts_demo [] 0 False WTake None None SNone)"
    using te_run.init by (simp add: ts_demo_eqs)
  note 1 = step [OF 0 ts_demo_steps(4)]
  note 2 = step [OF 1 ts_demo_steps(1), of "7::nat"]
  note 3 = step [OF 2 ts_demo_steps(2)]
  note 4 = step [OF 3 ts_demo_steps(6)]
  have 5: "te_run [Accepted 7] (ts_demo [7::nat] 0 False WSleep (Some PNotify) (Some QSleep) SNone)"
    using step [OF _ ts_demo_steps(7)] 4 by fastforce
  note 6 = step [OF 5 ts_demo_notify_steps(2)]
  have "te_run [Accepted 7] (ts_demo [7::nat] 0 False WSleep (Some PDone) (Some QSleep) SNone)"
    using step [OF 6 ts_demo_steps(7)] by simp
  moreover have "te_quiet (ts_demo [7::nat] 0 False WSleep (Some PDone) (Some QSleep) SNone)"
    by (simp add: te_quiet_def ts_demo_def)
  ultimately show ?thesis
    by (intro exI [of _ "[Accepted 7]"]
        exI [of _ "ts_demo [7::nat] 0 False WSleep (Some PDone) (Some QSleep) SNone"])
       (simp add: ts_demo_def TaskExecutor_init_def)
qed

end
