(* ===== verification/UniqueFileProps.thy ===== *)
theory UniqueFileProps
  imports UniqueFile OwnedFiles FileLoggerProps ExecutorProps
begin

text \<open>
  What the one-file-per-record backend guarantees: a record that is written can
  be listed and read back, and, together with the task executor that runs its
  writes, when the queries for the last file return.
\<close>

section \<open>Names\<close>

text \<open>Broken-down time with a four-digit year, as time_shield gives it for the years 1000 to 9999.\<close>

definition date_time_ok :: "date_time \<Rightarrow> bool" where
  "date_time_ok dt =
     (1000 \<le> dt_year dt \<and> dt_year dt \<le> 9999 \<and> 0 \<le> dt_mon dt \<and> dt_mon dt < 100 \<and> 0 \<le> dt_day dt \<and> dt_day dt < 100 \<and>
      0 \<le> dt_hour dt \<and> dt_hour dt < 100 \<and> 0 \<le> dt_min dt \<and> dt_min dt < 100 \<and> 0 \<le> dt_sec dt \<and> dt_sec dt < 100 \<and>
      0 \<le> dt_ms dt \<and> dt_ms dt < 1000)"

lemma print_prec_digits:
  assumes "0 \<le> i" "i < 10 ^ Suc n"
  shows "digits (print_prec (Suc n) i)" "length (print_prec (Suc n) i) = Suc n"
proof -
  have "nat i < 10 ^ Suc n" using assms by (simp add: nat_less_iff)
  then have "length (dec_nat (nat i)) \<le> Suc n" by (rule length_dec_nat)
  then show "digits (print_prec (Suc n) i)" "length (print_prec (Suc n) i) = Suc n"
    using assms digits_pad [of "Suc n" "nat i"] by (simp_all add: print_prec_def)
qed

lemma year_digits:
  assumes "1000 \<le> y" "y \<le> 9999"
  shows "digits (dec_int y)" "length (dec_int y) = 4"
proof -
  have y: "dec_int y = dec_nat (nat y)" using assms by (simp add: dec_int_def)
  show "digits (dec_int y)" using dec_nat_digits by (auto simp: y digits_def list_all_iff)
  have "length (dec_nat (nat y)) = Suc (Suc (Suc (length (dec_nat (nat y div 10 div 10 div 10)))))"
    using assms by (subst dec_nat.simps, subst dec_nat.simps, subst dec_nat.simps) auto
  moreover have "length (dec_nat (nat y div 10 div 10 div 10)) = 1"
    using assms by (subst dec_nat.simps) (auto simp: nat_less_iff)
  ultimately show "length (dec_int y) = 4" by (simp add: y)
qed

lemma stamp_shapeI:
  assumes "digits y" "digits mo" "digits d" "digits h" "digits mi" "digits se" "digits ms"
    and "length y = 4" "length mo = 2" "length d = 2" "length h = 2" "length mi = 2" "length se = 2" "length ms = 3"
  shows "stamp_shape (y @ ''-'' @ mo @ ''-'' @ d @ ''_'' @ h @ ''-'' @ mi @ ''-'' @ se @ ''-'' @ ms)"
  using assms by (simp add: stamp_shape_def date_shape_def nth_append)

lemma format_timestamp_shape:
  assumes "date_time_ok (ue_to_date_time_ms env ts)"
  shows "stamp_shape (format_timestamp env ts)" "list_all (\<lambda>c. \<not> is_sep c) (format_timestamp env ts)"
proof -
  let ?dt = "ue_to_date_time_ms env ts"
  have two: "digits (print_prec 2 i)" "length (print_prec 2 i) = 2" if "0 \<le> i" "i < 100" for i
    using print_prec_digits [of i 1] that by (simp_all add: numeral_2_eq_2)
  have three: "digits (print_prec 3 i)" "length (print_prec 3 i) = 3" if "0 \<le> i" "i < 1000" for i
    using print_prec_digits [of i 2] that by (simp_all add: numeral_3_eq_3)
  note parts = year_digits [of "dt_year ?dt"] two [of "dt_mon ?dt"] two [of "dt_day ?dt"] two [of "dt_hour ?dt"]
    two [of "dt_min ?dt"] two [of "dt_sec ?dt"] three [of "dt_ms ?dt"]
  from assms parts
  have format: "format_timestamp env ts = dec_int (dt_year ?dt) @ ''-'' @ print_prec 2 (dt_mon ?dt) @ ''-'' @
      print_prec 2 (dt_day ?dt) @ ''_'' @ print_prec 2 (dt_hour ?dt) @ ''-'' @ print_prec 2 (dt_min ?dt) @ ''-'' @
      print_prec 2 (dt_sec ?dt) @ ''-'' @ print_prec 3 (dt_ms ?dt)"
    by (simp add: format_timestamp_def Let_def date_time_ok_def)
  with assms parts stamp_shapeI show "stamp_shape (format_timestamp env ts)" by (simp add: date_time_ok_def)
  have plain: "list_all (\<lambda>c. \<not> is_sep c) x" if "digits x" for x
    using that digits_no_sep by (auto simp: list_all_iff)
  have dash: "list_all (\<lambda>c. \<not> is_sep c) ''-''" "list_all (\<lambda>c. \<not> is_sep c) ''_''" by (simp_all add: is_sep_def)
  show "list_all (\<lambda>c. \<not> is_sep c) (format_timestamp env ts)"
    unfolding format list_all_append
    by (intro conjI dash plain parts) (use assms in \<open>simp_all add: date_time_ok_def\<close>)
qed

lemma hash_chars: "\<forall>i. draw i < 62 \<Longrightarrow> list_all hash_char (generate_fixed_length_hash draw n)"
proof -
  have "list_all hash_char hash_charset" "length hash_charset = 62"
    by (simp_all add: hash_charset_def hash_char_def ctype_defs)
  then show "\<forall>i. draw i < 62 \<Longrightarrow> list_all hash_char (generate_fixed_length_hash draw n)"
    by (auto simp: generate_fixed_length_hash_def list_all_iff)
qed

lemma stamp_shape_length: "stamp_shape t \<Longrightarrow> length t = 23"
  by (simp add: stamp_shape_def)

lemma unique_valid_name:
  assumes "stamp_shape t" "list_all hash_char h"
  shows "unique_valid_filename (t @ ''-'' @ h @ ''.log'') \<longleftrightarrow> h \<noteq> []"
proof -
  let ?n = "t @ ''-'' @ h @ ''.log''"
  have plain: "strip_compression_suffix ?n = ?n"
    using log_not_compressed [of "t @ ''-'' @ h"] by (simp add: strip_compression_suffix_def)
  have len: "length t = 23" by (rule stamp_shape_length [OF assms(1)])
  have "take 23 ?n = t" "?n ! 23 = CHR ''-''" "take (length ?n - 28) (drop 24 ?n) = h" "length ?n = 28 + length h"
    using len by (simp_all add: nth_append)
  moreover have "ends_with ?n ''.log''" by (simp add: ends_with_def suffix_def)
  ultimately show ?thesis
    using assms by (auto simp only: unique_valid_filename_def plain Let_def list.size length_0_conv) (auto simp: Suc_le_eq)
qed

section \<open>Written files\<close>

abbreviation unique_owned :: "unique_env \<Rightarrow> UniqueFileLogger \<Rightarrow> string \<Rightarrow> bool" where
  "unique_owned env s \<equiv> owned_in (unique_directory_path env s) unique_valid_filename"

lemma hash_char_no_sep: "hash_char c \<Longrightarrow> \<not> is_sep c"
  by (auto simp: hash_char_def is_sep_def ctype_defs)

lemma unique_path_owned:
  assumes "date_time_ok (ue_to_date_time_ms env ts)" "\<forall>i. draw i < 62"
  shows "unique_owned env s (create_unique_file_path env draw ts s) \<longleftrightarrow> 0 < uc_hash_length (uf_config s)"
proof -
  let ?t = "format_timestamp env ts" and ?h = "generate_fixed_length_hash draw (uc_hash_length (uf_config s))"
  have t: "stamp_shape ?t" by (rule format_timestamp_shape(1) [OF assms(1)])
  have h: "list_all hash_char ?h" by (rule hash_chars [OF assms(2)])
  have "list_all (\<lambda>c. \<not> is_sep c) (?t @ ''-'' @ ?h @ ''.log'')"
    using format_timestamp_shape(2) [OF assms(1)] h hash_char_no_sep by (auto simp: list_all_iff is_sep_def)
  moreover have "?h \<noteq> [] \<longleftrightarrow> 0 < uc_hash_length (uf_config s)" by (simp add: generate_fixed_length_hash_def)
  ultimately show ?thesis
    using unique_valid_name [OF t h] by (auto simp: owned_in_split create_unique_file_path_def)
qed

lemma map_filter_mem: "x \<in> set (List.map_filter f xs) \<longleftrightarrow> (\<exists>q \<in> set xs. f q = Some x)"
  by (force simp: List.map_filter_def)

lemma unique_file_info_some:
  "unique_file_info env s q = Some i \<Longrightarrow>
     fi_path i = q \<and> fi_is_compressed i = is_compressed_log_filename (get_file_name q) \<and>
     is_direct_child_path q (unique_directory_path env s) \<and> unique_valid_filename (get_file_name q)"
  by (auto simp: unique_file_info_def Let_def split: if_splits)

lemma unique_listed_info:
  assumes "\<not> is_sep (last (unique_directory_path env s))"
  shows "i \<in> set (unique_list_log_files env s) \<longleftrightarrow>
    fs_exists (uf_disk s) (fi_path i) \<and> unique_owned env s (fi_path i) \<and> unique_file_info env s (fi_path i) = Some i"
proof -
  note own = listed_owned_in [OF assms, of "fi_path i" unique_valid_filename]
  have "i \<in> set (unique_list_log_files env s) \<longleftrightarrow>
      fs_exists (uf_disk s) (fi_path i) \<and> prefix (with_separator (unique_directory_path env s)) (fi_path i) \<and>
      unique_file_info env s (fi_path i) = Some i"
    unfolding unique_list_log_files_def sort_by_set map_filter_mem Bex_def get_list_files_mem
    using unique_file_info_some by metis
  with own unique_file_info_some [of env s "fi_path i" i] show ?thesis by blast
qed

lemma unique_listed:
  assumes "\<not> is_sep (last (unique_directory_path env s))"
  shows "p \<in> fi_path ` set (unique_list_log_files env s) \<longleftrightarrow> fs_exists (uf_disk s) p \<and> unique_owned env s p"
proof -
  have "\<exists>i. unique_file_info env s p = Some i \<and> fi_path i = p" if "unique_owned env s p"
    using owned_in_name [OF that] by (simp add: unique_file_info_def Let_def)
  then show ?thesis unfolding image_iff Bex_def unique_listed_info [OF assms] by blast
qed

text \<open>An owned file that is not compressed is read as it stands.\<close>

lemma unique_read_owned:
  assumes dir: "\<not> is_sep (last (unique_directory_path env s))"
    and held: "fs_read (uf_disk s) p = Some bytes" "unique_owned env s p" "\<not> is_compressed_log_filename (get_file_name p)"
  shows "rr_ok (unique_read_log_file env p s)" "rr_content (unique_read_log_file env p s) = bytes"
proof -
  have "fs_exists (uf_disk s) p" using held(1) by (simp add: fs_defs)
  then have "p \<in> fi_path ` set (unique_list_log_files env s)" using unique_listed [OF dir] held(2) by blast
  then have "find (\<lambda>info. same_path (fi_path info) p) (unique_list_log_files env s) \<noteq> None"
    by (auto simp: find_None_iff same_path_def)
  then obtain i where i: "find (\<lambda>info. same_path (fi_path info) p) (unique_list_log_files env s) = Some i" by blast
  then have mem: "i \<in> set (unique_list_log_files env s)" "same_path (fi_path i) p" by (auto simp: find_Some_iff)
  then have "fi_path i = p" using same_path_owned_in [OF _ held(2)] unique_listed_info [OF dir] by blast
  moreover from this have "\<not> fi_is_compressed i"
    using mem unique_listed_info [OF dir, of i] unique_file_info_some [of env s p i] held(3) by simp
  ultimately show "rr_ok (unique_read_log_file env p s)" "rr_content (unique_read_log_file env p s) = bytes"
    using i held(1) by (simp_all add: unique_read_log_file_def unique_read_listed_def unique_read_from_info_def)
qed

lemma fs_put: "fs_read (map_put p bytes d) q = (if q = p then Some bytes else fs_read d q)"
    "fs_exists d q \<longleftrightarrow> fs_read d q \<noteq> None"
  by (simp_all add: fs_defs)

text \<open>Whether a write of a thread is followed by the removal of old files: not its first one.\<close>

lemma unique_log_sync_result:
  fixes env draw now msg ts th s
  defines "s' \<equiv> unique_log_sync env draw now msg ts th s" and "p \<equiv> create_unique_file_path env draw ts s"
  assumes "fe_can_open (ue_files env) p" "\<not> unique_is_old env now s p"
  shows "fs_read (uf_disk s') q =
      (if q = p then Some msg
       else if uf_thread_log_info s th \<noteq> None \<and> unique_is_old env now s q \<and>
               prefix (with_separator (unique_directory_path env s)) q then None
       else fs_read (uf_disk s) q)"
    and "uf_config s' = uf_config s"
    and "uf_thread_log_info s' = (uf_thread_log_info s)(th \<mapsto>
      note_file (Some p) (case uf_thread_log_info s th of None \<Rightarrow> no_info | Some i \<Rightarrow> i))"
proof -
  have old: "unique_is_old env now (s\<lparr>uf_disk := d, uf_thread_log_info := i\<rparr>) = unique_is_old env now s"
    "unique_directory_path env (s\<lparr>uf_disk := d, uf_thread_log_info := i\<rparr>) = unique_directory_path env s" for d i
    by (simp_all add: fun_eq_iff unique_is_old_def unique_directory_path_def)
  note result = s'_def unique_log_sync_def unique_write_log_def unique_remove_old_logs_def
  show "fs_read (uf_disk s') q =
      (if q = p then Some msg
       else if uf_thread_log_info s th \<noteq> None \<and> unique_is_old env now s q \<and>
               prefix (with_separator (unique_directory_path env s)) q then None
       else fs_read (uf_disk s) q)"
    using assms(3,4)
    by (cases "uf_thread_log_info s th")
      (auto simp: result Let_def p_def [symmetric] old fs_read_remove_paths get_list_files_mem fs_put)
  show "uf_config s' = uf_config s"
    using assms(3) by (simp add: result Let_def p_def [symmetric] split: option.split)
  show "uf_thread_log_info s' = (uf_thread_log_info s)(th \<mapsto>
      note_file (Some p) (case uf_thread_log_info s th of None \<Rightarrow> no_info | Some i \<Rightarrow> i))"
    using assms(3) by (simp add: result Let_def p_def [symmetric] split: option.split)
qed

section \<open>Writes behind a task executor\<close>

text \<open>
  With a queue, a call of \<open>log\<close> counts the record and hands the task to the
  executor, and the worker runs the task later.  A run of the logger is a sequence
  of such calls and task runs; a queued call draws nothing and reads no wall clock.
\<close>

datatype unique_op = Called int LogRecord string | Ran unique_task "nat \<Rightarrow> nat" int

fun unique_op_step :: "unique_env \<Rightarrow> UniqueFileLogger \<Rightarrow> unique_op \<Rightarrow> UniqueFileLogger" where
  "unique_op_step env s (Called mono_ms r msg) = snd (UniqueFileLogger_log env (\<lambda>_. 0) 0 mono_ms r msg s)"
| "unique_op_step env s (Ran task draw now) = run_unique_task env draw now task s"

fun called_by :: "unique_op \<Rightarrow> unique_task list" where
  "called_by (Called mono_ms r msg) = [(msg, lr_timestamp_ms r, lr_thread_id r)]"
| "called_by (Ran task draw now) = []"

fun ran_by :: "unique_op \<Rightarrow> unique_task list" where
  "ran_by (Called mono_ms r msg) = []"
| "ran_by (Ran task draw now) = [task]"

definition called :: "unique_op list \<Rightarrow> unique_task list" where
  "called ops = concat (map called_by ops)"

definition ran :: "unique_op list \<Rightarrow> unique_task list" where
  "ran ops = concat (map ran_by ops)"

text \<open>A task runs only after its thread has called \<open>log\<close>.\<close>

fun calls_first :: "nat set \<Rightarrow> unique_op list \<Rightarrow> bool" where
  "calls_first seen [] = True"
| "calls_first seen (Called mono_ms r msg # ops) = calls_first (insert (lr_thread_id r) seen) ops"
| "calls_first seen (Ran (msg, ts, th) draw now # ops) = (th \<in> seen \<and> calls_first seen ops)"

text \<open>The tasks the executor turned away at \<open>add_task\<close>.\<close>

fun turned_by :: "'a te_event \<Rightarrow> 'a list" where
  "turned_by (Refused t) = [t]"
| "turned_by (Ignored t) = [t]"
| "turned_by _ = []"

definition turned_away :: "'a te_event list \<Rightarrow> 'a list" where
  "turned_away evs = concat (map turned_by evs)"

definition of_thread :: "nat \<Rightarrow> unique_task \<Rightarrow> bool" where
  "of_thread th task = (snd (snd task) = th)"

lemma of_thread_simps [simp]: "of_thread th (msg, ts, h) \<longleftrightarrow> h = th"
  by (simp add: of_thread_def)

definition pending_of :: "nat \<Rightarrow> UniqueFileLogger \<Rightarrow> int" where
  "pending_of th s = (case uf_thread_log_info s th of None \<Rightarrow> 0 | Some i \<Rightarrow> ti_pending_logs i)"

lemma ready_pending: "last_file_ready th s \<longleftrightarrow> pending_of th s = 0"
  by (simp add: last_file_ready_def pending_of_def split: option.split)

definition unique_queued :: "UniqueFileLogger \<Rightarrow> bool" where
  "unique_queued s = (uc_async (uf_config s) \<and> \<not> uf_shutdown s)"

lemma unique_log_queued:
  assumes "unique_queued s"
  shows "uf_thread_log_info (snd (UniqueFileLogger_log env draw now mono_ms r msg s)) =
      uf_thread_log_info (unique_count_pending (lr_thread_id r) s)"
    and "unique_setup (snd (UniqueFileLogger_log env draw now mono_ms r msg s)) = unique_setup s"
  using assms by (simp_all add: unique_queued_def UniqueFileLogger_log_def unique_count_pending_def unique_setup_def Let_def)

lemma unique_write_info: "unique_write_log env draw msg ts s = (w, s') \<Longrightarrow>
    uf_thread_log_info s' = uf_thread_log_info s \<and>
    w = (let p = create_unique_file_path env draw ts s in if fe_can_open (ue_files env) p then Some p else None)"
  by (auto simp: unique_write_log_def Let_def split: if_splits)

lemma unique_remove_info [simp]: "uf_thread_log_info (unique_remove_old_logs env now s) = uf_thread_log_info s"
  by (simp add: unique_remove_old_logs_def)

lemma run_unique_info:
  assumes "uf_thread_log_info s th = Some info"
  shows "uf_thread_log_info (run_unique_task env draw now (msg, ts, th) s) = (uf_thread_log_info s)(th \<mapsto>
    (note_file (let p = create_unique_file_path env draw ts s in if fe_can_open (ue_files env) p then Some p else None) info)
      \<lparr>ti_pending_logs := ti_pending_logs info - 1\<rparr>)"
  using assms
  by (auto simp: run_unique_task_def note_file_def Let_def split: prod.split dest!: unique_write_info)

lemma unique_op_setup:
  "unique_queued s \<Longrightarrow> unique_setup (unique_op_step env s op) = unique_setup s"
  by (cases op) (simp_all add: unique_log_queued(2))

lemma queued_setup: "unique_setup s' = unique_setup s \<Longrightarrow> unique_queued s' = unique_queued s"
  by (simp add: unique_setup_def unique_queued_def)

lemma pending_run:
  assumes "unique_queued s" "calls_first seen ops" "\<forall>h \<in> seen. uf_thread_log_info s h \<noteq> None"
  shows "pending_of th (foldl (unique_op_step env) s ops) =
    pending_of th s + int (length (filter (of_thread th) (called ops))) - int (length (filter (of_thread th) (ran ops)))"
  using assms
proof (induction seen ops arbitrary: s rule: calls_first.induct)
  case (2 seen mono_ms r msg ops)
  let ?s = "unique_op_step env s (Called mono_ms r msg)"
  have info: "uf_thread_log_info ?s = uf_thread_log_info (unique_count_pending (lr_thread_id r) s)"
    using unique_log_queued(1) [OF 2(2)] by simp
  have "unique_queued ?s" using 2(2) unique_op_setup queued_setup by blast
  moreover have "\<forall>h \<in> insert (lr_thread_id r) seen. uf_thread_log_info ?s h \<noteq> None"
    using 2(4) unfolding info by (auto simp: unique_count_pending_def Let_def)
  ultimately have "pending_of th (foldl (unique_op_step env) ?s ops) = pending_of th ?s +
      int (length (filter (of_thread th) (called ops))) - int (length (filter (of_thread th) (ran ops)))"
    using 2(1,3) by simp
  moreover have "pending_of th ?s = pending_of th s + (if lr_thread_id r = th then 1 else 0)"
    unfolding pending_of_def info by (simp add: unique_count_pending_def Let_def no_info_def split: option.split)
  ultimately show ?case by (simp add: called_def ran_def)
next
  case (3 seen msg ts h draw now ops)
  let ?s = "unique_op_step env s (Ran (msg, ts, h) draw now)"
  obtain i where i: "uf_thread_log_info s h = Some i" using 3(3,4) by auto
  have info: "uf_thread_log_info ?s = (uf_thread_log_info s)(h \<mapsto>
      (note_file (let p = create_unique_file_path env draw ts s in if fe_can_open (ue_files env) p then Some p else None) i)
        \<lparr>ti_pending_logs := ti_pending_logs i - 1\<rparr>)"
    using run_unique_info [OF i] by simp
  have "unique_queued ?s" using 3(2) unique_op_setup queued_setup by blast
  moreover have "\<forall>h \<in> seen. uf_thread_log_info ?s h \<noteq> None" using 3(4) unfolding info by auto
  ultimately have "pending_of th (foldl (unique_op_step env) ?s ops) = pending_of th ?s +
      int (length (filter (of_thread th) (called ops))) - int (length (filter (of_thread th) (ran ops)))"
    using 3(1,3) by simp
  moreover have "pending_of th ?s = pending_of th s - (if h = th then 1 else 0)"
    unfolding pending_of_def info using i by auto
  ultimately show ?case by (simp add: called_def ran_def)
qed (simp add: called_def ran_def)

text \<open>The queries name the file of the thread's latest write, whatever runs for other threads after it.\<close>

lemma last_path_kept:
  assumes "unique_queued s" "uf_thread_log_info s th = Some i" "filter (of_thread th) (ran ops) = []"
  shows "\<exists>i'. uf_thread_log_info (foldl (unique_op_step env) s ops) th = Some i' \<and> ti_last_file_path i' = ti_last_file_path i"
  using assms
proof (induction ops arbitrary: s i)
  case (Cons op ops)
  let ?s = "unique_op_step env s op"
  have rest: "filter (of_thread th) (ran ops) = []" "filter (of_thread th) (ran_by op) = []"
    using Cons(4) by (simp_all add: ran_def)
  have "\<exists>i'. uf_thread_log_info ?s th = Some i' \<and> ti_last_file_path i' = ti_last_file_path i"
  proof (cases op)
    case (Called mono_ms r msg)
    show ?thesis
      using unique_log_queued(1) [OF Cons(2)] Cons(3) by (auto simp: Called unique_count_pending_def Let_def)
  next
    case (Ran task draw now)
    obtain msg ts h where task: "task = (msg, ts, h)" by (cases task)
    have "h \<noteq> th" using rest(2) by (simp add: Ran task split: if_splits)
    then show ?thesis
      using Cons(3) by (auto simp: Ran task run_unique_task_def Let_def split: prod.split option.split dest!: unique_write_info)
  qed
  then obtain i' where i': "uf_thread_log_info ?s th = Some i'" "ti_last_file_path i' = ti_last_file_path i" by blast
  moreover have "unique_queued ?s" using Cons(2) unique_op_setup queued_setup by blast
  ultimately show ?case using Cons(1) [OF _ i'(1) rest(1)] by simp
qed simp

lemma queued_run: "unique_queued s \<Longrightarrow> unique_setup (foldl (unique_op_step env) s ops) = unique_setup s"
proof (induction ops arbitrary: s)
  case (Cons op ops)
  have "unique_queued (unique_op_step env s op)" using Cons(2) unique_op_setup queued_setup by blast
  then show ?case using Cons(1) unique_op_setup [OF Cons(2)] by simp
qed simp

lemma known_run:
  assumes "unique_queued s" "calls_first seen (xs @ Ran (msg, ts, th) draw now # ys)"
    and "\<forall>h \<in> seen. uf_thread_log_info s h \<noteq> None"
  shows "uf_thread_log_info (foldl (unique_op_step env) s xs) th \<noteq> None"
  using assms
proof (induction seen xs arbitrary: s rule: calls_first.induct)
  case (2 seen mono_ms r m ops)
  let ?s = "unique_op_step env s (Called mono_ms r m)"
  have "unique_queued ?s" using 2(2) unique_op_setup queued_setup by blast
  moreover have "\<forall>h \<in> insert (lr_thread_id r) seen. uf_thread_log_info ?s h \<noteq> None"
    using 2(4) unique_log_queued(1) [OF 2(2)] by (auto simp: unique_count_pending_def Let_def)
  ultimately show ?case using 2(1,3) by simp
next
  case (3 seen m t h d n ops)
  let ?s = "unique_op_step env s (Ran (m, t, h) d n)"
  obtain i where i: "uf_thread_log_info s h = Some i" using 3(3,4) by auto
  have "unique_queued ?s" using 3(2) unique_op_setup queued_setup by blast
  moreover have "\<forall>h \<in> seen. uf_thread_log_info ?s h \<noteq> None" using 3(4) run_unique_info [OF i] by auto
  ultimately show ?case using 3(1,3) by simp
qed simp

lemma last_path_run:
  assumes "unique_queued s" "calls_first {} (xs @ Ran (msg, ts, th) draw now # ys)"
    and "filter (of_thread th) (ran ys) = []" and "p = create_unique_file_path env draw ts s"
  shows "\<exists>i. uf_thread_log_info (foldl (unique_op_step env) s (xs @ Ran (msg, ts, th) draw now # ys)) th = Some i \<and>
    ti_last_file_path i = (if fe_can_open (ue_files env) p then p else ''Not available'')"
proof -
  let ?x = "foldl (unique_op_step env) s xs"
  obtain i where i: "uf_thread_log_info ?x th = Some i" using known_run [OF assms(1,2)] by auto
  have kept: "unique_setup ?x = unique_setup s" by (rule queued_run [OF assms(1)])
  then have "create_unique_file_path env draw ts ?x = p"
    using assms(4) by (simp add: unique_setup_def create_unique_file_path_def unique_directory_path_def)
  with run_unique_info [OF i, of env draw now msg ts]
  have "\<exists>j. uf_thread_log_info (unique_op_step env ?x (Ran (msg, ts, th) draw now)) th = Some j \<and>
      ti_last_file_path j = (if fe_can_open (ue_files env) p then p else ''Not available'')"
    by (simp add: note_file_def Let_def)
  moreover have "unique_queued (unique_op_step env ?x (Ran (msg, ts, th) draw now))"
    using assms(1) kept unique_op_setup queued_setup by metis
  ultimately show ?thesis using last_path_kept [OF _ _ assms(3)] by fastforce
qed

definition demo_unique_env :: unique_env where
  "demo_unique_env =
     \<lparr>ue_files = demo_env,
      ue_to_date_time_ms = (\<lambda>ts. \<lparr>dt_year = 2024, dt_mon = 1, dt_day = 2, dt_hour = 3, dt_min = 4, dt_sec = 5, dt_ms = 67\<rparr>)\<rparr>"

definition demo_unique :: "bool \<Rightarrow> UniqueFileLogger" where
  "demo_unique async =
     UniqueFileLogger_init demo_unique_env 0 (UniqueFile_Config_default\<lparr>uc_async := async, uc_hash_length := 2\<rparr>) []"

section \<open>Properties\<close>

text \<open>C33: A record logged without a queue is in a file of its own when the call returns, provided the file can be
  opened and is not already past the retention: the file is listed, reading it gives the message byte for byte, the
  name queries of the thread name it, and every other file keeps its content unless it is an old log file of the
  directory and the thread had logged before.\<close>

theorem unique_log_readable:
  fixes env draw now mono_ms s msg r
  defines "p \<equiv> create_unique_file_path env draw (lr_timestamp_ms r) s"
    and "s' \<equiv> snd (UniqueFileLogger_log env draw now mono_ms r msg s)"
  assumes sync: "\<not> uf_shutdown s" "\<not> uc_async (uf_config s)" "last_file_ready (lr_thread_id r) s"
    and names: "\<not> is_sep (last (unique_directory_path env s))" "0 < uc_hash_length (uf_config s)"
      "date_time_ok (ue_to_date_time_ms env (lr_timestamp_ms r))" "\<forall>i. draw i < 62"
    and writable: "fe_can_open (ue_files env) p" "\<not> unique_is_old env now s p"
  shows "p \<in> fi_path ` set (unique_list_log_files env s') \<and>
    rr_ok (unique_read_log_file env p s') \<and> rr_content (unique_read_log_file env p s') = msg \<and>
    UniqueFileLogger_get_string_param (lr_thread_id r) mono_ms LastFilePath s' = Some p \<and>
    UniqueFileLogger_get_string_param (lr_thread_id r) mono_ms LastFileName s' = Some (get_file_name p) \<and>
    (\<forall>q. q \<noteq> p \<longrightarrow> fs_read (uf_disk s') q = fs_read (uf_disk s) q \<or>
       uf_thread_log_info s (lr_thread_id r) \<noteq> None \<and> unique_is_old env now s q \<and>
       prefix (with_separator (unique_directory_path env s)) q \<and> fs_read (uf_disk s') q = None)"
proof -
  let ?t = "s\<lparr>uf_last_log_ts := lr_timestamp_ms r, uf_last_log_mono_ts := mono_ms\<rparr>"
  have s': "s' = unique_log_sync env draw now msg (lr_timestamp_ms r) (lr_thread_id r) ?t"
    using sync by (simp add: s'_def UniqueFileLogger_log_def)
  have same: "create_unique_file_path env draw (lr_timestamp_ms r) ?t = p" "unique_is_old env now ?t = unique_is_old env now s"
    "unique_directory_path env ?t = unique_directory_path env s"
    by (simp_all add: p_def create_unique_file_path_def unique_directory_path_def fun_eq_iff unique_is_old_def)
  note result = unique_log_sync_result [of env draw "lr_timestamp_ms r" ?t now msg, unfolded same, OF writable,
      of "lr_thread_id r", folded s']
  have dir: "unique_directory_path env s' = unique_directory_path env s"
    using result(2) by (simp add: unique_directory_path_def)
  have owned: "unique_owned env s' p"
    using unique_path_owned [OF names(3,4), of s] names(2) by (simp add: dir p_def)
  have content: "fs_read (uf_disk s') p = Some msg" using result(1) [of p] by simp
  have "get_file_name p = (format_timestamp env (lr_timestamp_ms r) @ ''-'' @
      generate_fixed_length_hash draw (uc_hash_length (uf_config s))) @ ''.log''"
    using owned_in_name(1) [OF owned] by (simp add: p_def create_unique_file_path_def dir)
  then have "\<not> is_compressed_log_filename (get_file_name p)"
    by (simp only: is_compressed_log_filename_def log_not_compressed simp_thms)
  then have "rr_ok (unique_read_log_file env p s')" "rr_content (unique_read_log_file env p s') = msg"
    using unique_read_owned [OF _ content owned] names(1) by (simp_all add: dir)
  moreover have "p \<in> fi_path ` set (unique_list_log_files env s')"
    using unique_listed [of env s' p] names(1) owned content by (simp add: dir fs_put)
  moreover have "get_last_log_file_path (lr_thread_id r) s' = Some p"
    "get_last_log_file_name (lr_thread_id r) s' = Some (get_file_name p)"
    using sync(3) result(3)
    by (auto simp: get_last_log_file_path_def get_last_log_file_name_def last_file_ready_def note_file_def no_info_def
        split: option.splits)
  ultimately show ?thesis
    using result(1) by (simp add: UniqueFileLogger_get_string_param_def)
qed

definition demo_unique_record :: LogRecord where
  "demo_unique_record = make_LogRecord 7 thread_context_init LOG_LVL_INFO 1704164645067 [] 0 [] [] [] (- 1) False False False"

theorem unique_log_readable_witness:
  "rr_content (unique_read_log_file demo_unique_env ''/app/unique_logs/2024-01-02_03-04-05-067-01.log''
     (snd (UniqueFileLogger_log demo_unique_env (\<lambda>i. i mod 62) 1704164645067 5 demo_unique_record ''text''
        (demo_unique False)))) = ''text''"
proof -
  let ?s = "demo_unique False" and ?e = demo_unique_env and ?r = demo_unique_record
  let ?p = "''/app/unique_logs/2024-01-02_03-04-05-067-01.log''"
  have p: "create_unique_file_path ?e (\<lambda>i. i mod 62) (lr_timestamp_ms ?r) ?s = ?p" by code_simp
  have a: "\<not> uf_shutdown ?s" "\<not> uc_async (uf_config ?s)" "last_file_ready (lr_thread_id ?r) ?s"
    "\<not> is_sep (last (unique_directory_path ?e ?s))" "0 < uc_hash_length (uf_config ?s)"
    "date_time_ok (ue_to_date_time_ms ?e (lr_timestamp_ms ?r))" by code_simp+
  have w: "fe_can_open (ue_files ?e) ?p" "\<not> unique_is_old ?e 1704164645067 ?s ?p" by code_simp+
  have draws: "\<forall>i. i mod 62 < (62 :: nat)" by simp
  show ?thesis using unique_log_readable [OF a draws, unfolded p, OF w, of 5 "''text''"] by blast
qed

text \<open>C34: Behind a task executor at rest, once every call of \<open>log\<close> has returned, the query for a thread's last
  file returns exactly when the executor dropped no record of that thread, by eviction, refusal or shutdown: a dropped
  record stays counted as pending and the query never returns.  When it returns and a record of the thread was
  written, it names the file of the latest one, or that it could not be opened.\<close>

theorem unique_last_file_returns:
  assumes "te_run evs e" "te_idle e" "unique_queued s" "uf_thread_log_info s = Map.empty"
    and "mset (called ops) = mset (accepted evs) + mset (turned_away evs)" "ran ops = finished evs" "calls_first {} ops"
  shows "(get_last_log_file_path th (foldl (unique_op_step env) s ops) = None \<longleftrightarrow>
      (\<exists>task \<in> set (evicted evs) \<union> set (turned_away evs). of_thread th task)) \<and>
    (\<forall>xs msg ts draw now ys. ops = xs @ Ran (msg, ts, th) draw now # ys \<and> filter (of_thread th) (ran ys) = [] \<longrightarrow>
      get_last_log_file_path th (foldl (unique_op_step env) s ops) \<in>
        {None, Some (let p = create_unique_file_path env draw ts s
                     in if fe_can_open (ue_files env) p then p else ''Not available'')})"
proof -
  let ?s = "foldl (unique_op_step env) s ops" and ?n = "\<lambda>ts. size (filter_mset (of_thread th) (mset ts))"
  have len: "length (filter (of_thread th) xs) = ?n xs" for xs by (metis mset_filter size_mset)
  have "pending_of th ?s = int (?n (called ops)) - int (?n (finished evs))"
    using pending_run [OF assms(3,7)] assms(4,6) by (simp add: pending_of_def len)
  also have "?n (called ops) = ?n (finished evs) + ?n (evicted evs) + ?n (turned_away evs)"
    using te.conserved [OF assms(1,2)] assms(5) by simp
  finally have "pending_of th ?s = int (?n (evicted evs) + ?n (turned_away evs))" by simp
  then have "last_file_ready th ?s \<longleftrightarrow> filter (of_thread th) (evicted evs) = [] \<and> filter (of_thread th) (turned_away evs) = []"
    by (simp add: ready_pending len [symmetric] flip: of_nat_add)
  then have ready: "last_file_ready th ?s \<longleftrightarrow> (\<forall>task \<in> set (evicted evs) \<union> set (turned_away evs). \<not> of_thread th task)"
    unfolding filter_empty_conv by blast
  have none: "get_last_log_file_path th ?s = None \<longleftrightarrow> \<not> last_file_ready th ?s"
    by (auto simp: get_last_log_file_path_def split: option.split)
  have path: "get_last_log_file_path th ?s \<in> {None, Some (if fe_can_open (ue_files env) p then p else ''Not available'')}"
    if "ops = xs @ Ran (msg, ts, th) draw now # ys" "filter (of_thread th) (ran ys) = []"
      "p = create_unique_file_path env draw ts s" for xs msg ts draw now ys p
    using last_path_run [OF assms(3) assms(7) [unfolded that(1)] that(2,3), folded that(1)]
    by (auto simp: get_last_log_file_path_def)
  have "\<forall>xs msg ts draw now ys. ops = xs @ Ran (msg, ts, th) draw now # ys \<and> filter (of_thread th) (ran ys) = [] \<longrightarrow>
      get_last_log_file_path th ?s \<in> {None, Some (let p = create_unique_file_path env draw ts s
         in if fe_can_open (ue_files env) p then p else ''Not available'')}"
    unfolding Let_def by (intro allI impI, elim conjE, rule path [OF _ _ refl])
  with none ready show ?thesis by simp
qed

theorem unique_last_file_returns_witness:
  "get_last_log_file_path 7 (foldl (unique_op_step demo_unique_env) (demo_unique True)
     [Called 5 demo_unique_record ''text'', Ran (''text'', 1704164645067, 7) (\<lambda>i. i mod 62) 1704164645067])
   = Some ''/app/unique_logs/2024-01-02_03-04-05-067-01.log''"
proof -
  let ?t = "(''text'', 1704164645067, 7) :: unique_task" and ?d = "\<lambda>i :: nat. i mod 62"
  let ?ops = "[Called 5 demo_unique_record ''text'', Ran ?t ?d 1704164645067]" and ?s = "demo_unique True"
  have r: "lr_timestamp_ms demo_unique_record = 1704164645067" "lr_thread_id demo_unique_record = 7" by code_simp+
  have idle: "te_idle (ts_demo [] 0 False WTake (Some PDone) None SNone :: unique_task te_system)"
    by (simp add: te_idle_def ts_demo_def)
  have s: "unique_queued ?s" "uf_thread_log_info ?s = Map.empty"
    by (code_simp, simp add: demo_unique_def UniqueFileLogger_init_def unique_start_logging_def split: sum.split)
  have "mset (called ?ops) = mset (accepted [Accepted ?t, Started ?t, Finished ?t]) +
      mset (turned_away [Accepted ?t, Started ?t, Finished ?t])"
    "ran ?ops = finished [Accepted ?t, Started ?t, Finished ?t]" "calls_first {} ?ops"
    by (simp_all add: called_def ran_def turned_away_def r)
  note all = unique_last_file_returns [OF ts_demo_run(2) idle s this, of 7 demo_unique_env]
  have "create_unique_file_path demo_unique_env ?d 1704164645067 ?s = ''/app/unique_logs/2024-01-02_03-04-05-067-01.log''"
    "fe_can_open (ue_files demo_unique_env) ''/app/unique_logs/2024-01-02_03-04-05-067-01.log''" by code_simp+
  moreover note conjunct2 [OF all, rule_format, of "[Called 5 demo_unique_record ''text'']" "''text''" 1704164645067 ?d
      1704164645067 "[]"]
  moreover have "get_last_log_file_path 7 (foldl (unique_op_step demo_unique_env) ?s ?ops) \<noteq> None"
    using conjunct1 [OF all] by (simp add: turned_away_def)
  ultimately show ?thesis by (auto simp add: ran_def)
qed

end
