(* ===== verification/PatternCompiler.thy ===== *)
theory PatternCompiler
  imports Records
begin

text \<open>
  The pattern compiler and the instruction interpreter of
  \<open>formatter/compiler/PatternCompiler.hpp\<close>: a format pattern is compiled into a
  list of instructions, each of which renders one field of a record with
  alignment, width, truncation and removal of ANSI escapes.  The index \<open>i\<close> of
  the source's scan is the remaining suffix of the pattern here.
\<close>

section \<open>Code outside the repository\<close>

text \<open>
  The date and time functions come from the time-shield submodule; the thread id
  printer, \<open>vsnprintf\<close> with a user-supplied format and (when the library is built
  with \<open>LOGIT_WITH_FMT\<close>) \<open>fmt::format\<close> are platform code.  They are
  parameters, bundled in one record.
\<close>

record DateTimeStruct =
  dt_year :: int
  dt_mon :: int
  dt_day :: int
  dt_hour :: int
  dt_min :: int
  dt_sec :: int
  dt_ms :: int

record platform =
  pf_to_date_time_ms :: "int \<Rightarrow> DateTimeStruct"
  pf_ms_to_sec :: "int \<Rightarrow> int"
  pf_day_of_week :: "int \<Rightarrow> int \<Rightarrow> int \<Rightarrow> int"
  pf_weekday_short :: "int \<Rightarrow> string"
  pf_weekday_full :: "int \<Rightarrow> string"
  pf_month_short :: "int \<Rightarrow> string"
  pf_month_full :: "int \<Rightarrow> string"
  pf_thread_id :: "nat \<Rightarrow> string"
  pf_vsnprintf :: "string \<Rightarrow> ValueType \<Rightarrow> string"
  pf_fmt_format :: "(string \<Rightarrow> ValueType \<Rightarrow> string) option"

section \<open>Instructions\<close>

datatype CompileContext = Default | NoArgsFallback

datatype FormatType =
    StaticText
  | Year | Month | Day | Hour | Minute | Second | Millisecond | TwoDigitYear | DateTime
  | ShortDate | TimeISO8601 | DateISO8601 | TimeStamp | MilliSecondTimeStamp
  | AbbreviatedMonthName | FullMonthName | AbbreviatedWeekdayName | FullWeekdayName
  | LogLevelName | ShortLogLevel
  | FileName | FullFileName | SourceFileAndLine | LineNumber | FunctionName
  | ThreadId
  | MappedDiagnosticContext | MappedDiagnosticContextValue | NestedDiagnosticContext
  | StartColor | EndColor
  | Message

record FormatInstruction =
  fi_context :: CompileContext
  fi_type :: FormatType
  fi_static_text :: string
  fi_width :: nat
  fi_left_align :: bool
  fi_center_align :: bool
  fi_truncate :: bool
  fi_strip_ansi :: bool
  fi_context_key :: string

text \<open>The two constructors.\<close>

definition static_instruction :: "CompileContext \<Rightarrow> string \<Rightarrow> bool \<Rightarrow> FormatInstruction" where
  "static_instruction context text strip_ansi =
     \<lparr>fi_context = context, fi_type = StaticText, fi_static_text = text, fi_width = 0,
      fi_left_align = False, fi_center_align = False, fi_truncate = False,
      fi_strip_ansi = strip_ansi, fi_context_key = []\<rparr>"

record alignment =
  al_left :: bool
  al_center :: bool
  al_truncate :: bool
  al_width :: nat

definition no_alignment :: alignment where
  "no_alignment = \<lparr>al_left = False, al_center = False, al_truncate = False, al_width = 0\<rparr>"

definition field_instruction ::
  "CompileContext \<Rightarrow> FormatType \<Rightarrow> alignment \<Rightarrow> bool \<Rightarrow> string \<Rightarrow> FormatInstruction" where
  "field_instruction context type a strip_ansi key =
     \<lparr>fi_context = context, fi_type = type, fi_static_text = [], fi_width = al_width a,
      fi_left_align = al_left a, fi_center_align = al_center a, fi_truncate = al_truncate a,
      fi_strip_ansi = strip_ansi, fi_context_key = key\<rparr>"

section \<open>Rendering one field\<close>

text \<open>\<open>std::setw(n) << std::setfill('0') << i\<close> and the \<open>%.2d\<close> conversion.\<close>

definition zero_padded :: "nat \<Rightarrow> int \<Rightarrow> string" where
  "zero_padded n i = pad_left (CHR ''0'') n (dec_int i)"

definition printf_prec2 :: "int \<Rightarrow> string" where
  "printf_prec2 i =
     (if i < 0 then CHR ''-'' # pad_left (CHR ''0'') 2 (dec_nat (nat (- i)))
      else pad_left (CHR ''0'') 2 (dec_nat (nat i)))"

text \<open>The C++ remainder, which takes the sign of the dividend.\<close>

definition cpp_mod :: "int \<Rightarrow> int \<Rightarrow> int" where
  "cpp_mod a b = sgn a * (\<bar>a\<bar> mod \<bar>b\<bar>)"

text \<open>The \<open>ctime\<close>-like rendering of \<open>%c\<close>; the two \<open>snprintf\<close> calls write into 16 bytes.\<close>

definition render_date_time :: "platform \<Rightarrow> DateTimeStruct \<Rightarrow> string" where
  "render_date_time P dt =
     pf_weekday_short P (pf_day_of_week P (dt_year dt) (dt_mon dt) (dt_day dt)) @ '' '' @
     pf_month_short P (dt_mon dt) @ '' '' @
     take 15 (pad_left (CHR '' '') 2 (dec_int (dt_day dt)) @ '' '') @
     take 15 (printf_prec2 (dt_hour dt) @ '':'' @ printf_prec2 (dt_min dt) @ '':'' @
              printf_prec2 (dt_sec dt) @ '' '') @
     dec_int (dt_year dt)"

definition file_basename :: "string \<Rightarrow> string" where
  "file_basename full_path = after_last is_sep full_path"

text \<open>\<open>arg.to_string(fmt)\<close> and \<open>arg.to_string_fmt(fmt)\<close>.\<close>

definition value_format :: "platform \<Rightarrow> bool \<Rightarrow> string \<Rightarrow> ValueType \<Rightarrow> string" where
  "value_format P fmt_mode fmt v =
     (if v = UNKNOWN_VAL then ''unknown''
      else case pf_fmt_format P of
             Some f \<Rightarrow> if fmt_mode then f fmt v else pf_vsnprintf P fmt v
           | None \<Rightarrow> pf_vsnprintf P fmt v)"

text \<open>One argument when the record has a format string.\<close>

fun formats_bare :: "ValueType \<Rightarrow> bool" where
  "formats_bare (STRING_VAL _) = True"
| "formats_bare (EXCEPTION_VAL _) = True"
| "formats_bare (ERROR_CODE_VAL _ _) = True"
| "formats_bare (ENUM_VAL _) = True"
| "formats_bare (DURATION_VAL _) = True"
| "formats_bare (TIME_POINT_VAL _) = True"
| "formats_bare (POINTER_VAL _) = True"
| "formats_bare (SMART_POINTER_VAL _) = True"
| "formats_bare (VARIANT_VAL _) = True"
| "formats_bare (OPTIONAL_VAL _) = True"
| "formats_bare _ = False"

definition render_arg_with_format :: "platform \<Rightarrow> LogRecord \<Rightarrow> VariableValue \<Rightarrow> string" where
  "render_arg_with_format P r arg =
     (let text = value_format P (lr_fmt_mode r) (lr_format r) (vv_value arg) in
      if formats_bare (vv_value arg) then text
      else if vv_is_literal arg then vv_name arg @ '': '' @ text
      else text)"

text \<open>
  One argument when the record has no format string: strings, exceptions and
  error codes are printed bare; paths, durations, pointers and their kin with
  their name unless in print mode; everything else with its name when the name
  is a literal and not in print mode.
\<close>

fun prints_bare :: "ValueType \<Rightarrow> bool" where
  "prints_bare (STRING_VAL _) = True"
| "prints_bare (EXCEPTION_VAL _) = True"
| "prints_bare (ERROR_CODE_VAL _ _) = True"
| "prints_bare _ = False"

fun prints_named :: "ValueType \<Rightarrow> bool" where
  "prints_named (PATH_VAL _) = True"
| "prints_named (DURATION_VAL _) = True"
| "prints_named (TIME_POINT_VAL _) = True"
| "prints_named (POINTER_VAL _) = True"
| "prints_named (SMART_POINTER_VAL _) = True"
| "prints_named (VARIANT_VAL _) = True"
| "prints_named (OPTIONAL_VAL _) = True"
| "prints_named _ = False"

definition render_arg :: "LogRecord \<Rightarrow> VariableValue \<Rightarrow> string" where
  "render_arg r arg =
     (let text = value_to_string (vv_value arg) in
      if prints_bare (vv_value arg) then text
      else if prints_named (vv_value arg) then
        (if lr_print_mode r then text else vv_name arg @ '': '' @ text)
      else if vv_is_literal arg then
        (if lr_print_mode r then text else vv_name arg @ '': '' @ text)
      else text)"

definition render_message :: "platform \<Rightarrow> LogRecord \<Rightarrow> string" where
  "render_message P r =
     (let sep = (if lr_print_mode r then [] else '', '') in
      if lr_format r \<noteq> [] then
        (if lr_args_array r = [] then lr_format r
         else join sep (map (render_arg_with_format P r) (lr_args_array r)))
      else join sep (map (render_arg r) (lr_args_array r)))"

text \<open>The text an instruction puts into \<open>temp_stream\<close>.\<close>

fun render :: "platform \<Rightarrow> FormatInstruction \<Rightarrow> LogRecord \<Rightarrow> DateTimeStruct \<Rightarrow> string" where
  "render P i r dt = (case fi_type i of
     StaticText \<Rightarrow> fi_static_text i
   | Year \<Rightarrow> dec_int (dt_year dt)
   | Month \<Rightarrow> zero_padded 2 (dt_mon dt)
   | Day \<Rightarrow> zero_padded 2 (dt_day dt)
   | Hour \<Rightarrow> zero_padded 2 (dt_hour dt)
   | Minute \<Rightarrow> zero_padded 2 (dt_min dt)
   | Second \<Rightarrow> zero_padded 2 (dt_sec dt)
   | Millisecond \<Rightarrow> zero_padded 3 (dt_ms dt)
   | TwoDigitYear \<Rightarrow> zero_padded 2 (cpp_mod (dt_year dt) 100)
   | DateTime \<Rightarrow> render_date_time P dt
   | ShortDate \<Rightarrow> zero_padded 2 (dt_mon dt) @ ''/'' @ zero_padded 2 (dt_day dt) @ ''/'' @
       zero_padded 2 (cpp_mod (dt_year dt) 100)
   | TimeISO8601 \<Rightarrow> zero_padded 2 (dt_hour dt) @ '':'' @ zero_padded 2 (dt_min dt) @ '':'' @
       zero_padded 2 (dt_sec dt)
   | DateISO8601 \<Rightarrow> dec_int (dt_year dt) @ ''-'' @ zero_padded 2 (dt_mon dt) @ ''-'' @
       zero_padded 2 (dt_day dt)
   | TimeStamp \<Rightarrow> dec_int (pf_ms_to_sec P (lr_timestamp_ms r))
   | MilliSecondTimeStamp \<Rightarrow> dec_int (lr_timestamp_ms r)
   | AbbreviatedMonthName \<Rightarrow> pf_month_short P (dt_mon dt)
   | FullMonthName \<Rightarrow> pf_month_full P (dt_mon dt)
   | AbbreviatedWeekdayName \<Rightarrow>
       pf_weekday_short P (pf_day_of_week P (dt_year dt) (dt_mon dt) (dt_day dt))
   | FullWeekdayName \<Rightarrow>
       pf_weekday_full P (pf_day_of_week P (dt_year dt) (dt_mon dt) (dt_day dt))
   | LogLevelName \<Rightarrow> to_c_str_level (lr_log_level r) 0
   | ShortLogLevel \<Rightarrow> to_c_str_level (lr_log_level r) 1
   | FileName \<Rightarrow> file_basename (lr_file r)
   | FullFileName \<Rightarrow> lr_file r
   | SourceFileAndLine \<Rightarrow> lr_file r @ '':'' @ dec_int (lr_line r)
   | LineNumber \<Rightarrow> dec_int (lr_line r)
   | FunctionName \<Rightarrow> lr_function r
   | ThreadId \<Rightarrow> pf_thread_id P (lr_thread_id r)
   | MappedDiagnosticContext \<Rightarrow>
       (case lr_context r of None \<Rightarrow> []
        | Some c \<Rightarrow> join '' '' (map (\<lambda>(k, v). k @ ''='' @ v) (cx_mdc c)))
   | MappedDiagnosticContextValue \<Rightarrow>
       (case lr_context r of None \<Rightarrow> []
        | Some c \<Rightarrow> (case map_of (cx_mdc c) (fi_context_key i) of None \<Rightarrow> [] | Some v \<Rightarrow> v))
   | NestedDiagnosticContext \<Rightarrow>
       (case lr_context r of None \<Rightarrow> [] | Some c \<Rightarrow> join '' > '' (cx_ndc c))
   | StartColor \<Rightarrow> []
   | EndColor \<Rightarrow> []
   | Message \<Rightarrow> render_message P r)"

declare render.simps [simp del]

text \<open>What the two colour instructions write straight to the output stream.\<close>

definition direct_output :: "FormatInstruction \<Rightarrow> LogRecord \<Rightarrow> string" where
  "direct_output i r =
     (if fi_type i = StartColor \<and> \<not> fi_strip_ansi i then get_log_level_color (lr_log_level r)
      else if fi_type i = EndColor \<and> \<not> fi_strip_ansi i then to_c_str_color LOGIT_DEFAULT_COLOR
      else [])"

section \<open>ANSI removal, truncation, alignment\<close>

fun remove_ansi :: "bool \<Rightarrow> string \<Rightarrow> string" where
  "remove_ansi in_esc [] = []"
| "remove_ansi True (c # cs) = remove_ansi (\<not> isalpha c) cs"
| "remove_ansi False [c] = [c]"
| "remove_ansi False (c # d # cs) =
     (if c = ESC \<and> d = CHR ''['' then remove_ansi True cs
      else c # remove_ansi False (d # cs))"

definition remove_ansi_escape_codes :: "string \<Rightarrow> string" where
  "remove_ansi_escape_codes input = remove_ansi False input"

text \<open>The loop that moves \<open>keep_end\<close> left until the line is as wide as requested.\<close>

fun extend_tail :: "nat \<Rightarrow> nat \<Rightarrow> nat \<Rightarrow> nat" where
  "extend_tail width line_size keep_end =
     (if line_size < width \<and> 0 < keep_end then extend_tail width (line_size + 1) (keep_end - 1)
      else keep_end)"

declare extend_tail.simps [simp del]

definition is_path_like :: "FormatType \<Rightarrow> bool" where
  "is_path_like ty = (ty \<in> {FileName, FullFileName, SourceFileAndLine, FunctionName})"

definition truncate_middle :: "nat \<Rightarrow> string \<Rightarrow> string" where
  "truncate_middle width result =
     (let placeholder = ''...'' in
      if width \<le> length placeholder then take width placeholder
      else
        let keep_size = (width - length placeholder) div 2;
            keep_end = extend_tail width (2 * keep_size + length placeholder)
                         (length result - keep_size)
        in take keep_size result @ placeholder @ drop keep_end result)"

definition truncate_result :: "FormatInstruction \<Rightarrow> string \<Rightarrow> string" where
  "truncate_result i result =
     (if fi_truncate i \<and> fi_width i < length result then
        (if is_path_like (fi_type i) then truncate_middle (fi_width i) result
         else take (fi_width i) result)
      else result)"

definition align_result :: "FormatInstruction \<Rightarrow> string \<Rightarrow> string" where
  "align_result i result =
     (let width = fi_width i in
      if 0 < width \<and> length result < width then
        (if fi_left_align i then pad_right (CHR '' '') width result
         else if fi_center_align i then
           (let padding = (width - length result) div 2 in
            replicate padding (CHR '' '') @ result @
            replicate (width - padding - length result) (CHR '' ''))
         else pad_left (CHR '' '') width result)
      else result)"

section \<open>Applying an instruction\<close>

definition field_text ::
  "platform \<Rightarrow> FormatInstruction \<Rightarrow> LogRecord \<Rightarrow> DateTimeStruct \<Rightarrow> string" where
  "field_text P i r dt =
     (let text = render P i r dt;
          result = (if fi_strip_ansi i then remove_ansi_escape_codes text else text)
      in align_result i (truncate_result i result))"

definition FormatInstruction_apply ::
  "platform \<Rightarrow> FormatInstruction \<Rightarrow> LogRecord \<Rightarrow> DateTimeStruct \<Rightarrow> string" where
  "FormatInstruction_apply P i r dt =
     (if fi_context i = NoArgsFallback \<and> (lr_format r \<noteq> [] \<or> lr_args_array r \<noteq> []) then []
      else direct_output i r @ field_text P i r dt)"

section \<open>The compiler\<close>

definition starts :: "char \<Rightarrow> string \<Rightarrow> bool" where
  "starts c s = (case s of [] \<Rightarrow> False | d # _ \<Rightarrow> d = c)"

text \<open>The alignment loop after a \<open>%\<close>: digits, \<open>-\<close> and \<open>=\<close>, ended early by \<open>!\<close>.\<close>

definition align_char :: "alignment \<Rightarrow> char \<Rightarrow> alignment" where
  "align_char a c =
     (if c = CHR ''-'' then a\<lparr>al_left := True\<rparr>
      else if c = CHR ''='' then a\<lparr>al_center := True\<rparr>
      else a\<lparr>al_width := al_width a * 10 + (code c - 48)\<rparr>)"

fun parse_align :: "alignment \<Rightarrow> string \<Rightarrow> alignment \<times> string" where
  "parse_align a [] = (a, [])"
| "parse_align a (c # cs) =
     (if isdigit c \<or> c = CHR ''-'' \<or> c = CHR ''='' then
        (let a' = align_char a c in
         if starts (CHR ''!'') cs then (a'\<lparr>al_truncate := True\<rparr>, tl cs)
         else parse_align a' cs)
      else (a, c # cs))"

text \<open>
  The \<open>switch\<close> on the directive character: the instructions it adds, the new
  \<open>strip_ansi\<close> flag, the text it adds to the buffer and the rest of the
  pattern; or, for \<open>%N(..)\<close>, the parameters to compile recursively.
\<close>

datatype directive =
    Emit "FormatInstruction list" bool string string
  | Nested string string

definition simple_directive :: "char \<Rightarrow> FormatType option" where
  "simple_directive c =
     (if c = CHR ''Y'' then Some Year
      else if c = CHR ''d'' then Some Day
      else if c = CHR ''H'' then Some Hour
      else if c = CHR ''M'' then Some Minute
      else if c = CHR ''C'' then Some TwoDigitYear
      else if c = CHR ''c'' then Some DateTime
      else if c = CHR ''D'' then Some ShortDate
      else if c = CHR ''T'' \<or> c = CHR ''X'' then Some TimeISO8601
      else if c = CHR ''F'' then Some DateISO8601
      else if c = CHR ''B'' then Some FullMonthName
      else if c = CHR ''a'' then Some AbbreviatedWeekdayName
      else if c = CHR ''A'' then Some FullWeekdayName
      else if c = CHR ''l'' then Some LogLevelName
      else if c = CHR ''L'' then Some ShortLogLevel
      else if c = CHR ''t'' then Some ThreadId
      else if c = CHR ''J'' then Some NestedDiagnosticContext
      else if c = CHR ''g'' then Some FullFileName
      else if c = CHR ''@'' then Some SourceFileAndLine
      else if c = CHR ''#'' then Some LineNumber
      else if c = CHR ''!'' then Some FunctionName
      else if c = CHR ''v'' then Some Message
      else None)"

definition directive :: "CompileContext \<Rightarrow> alignment \<Rightarrow> bool \<Rightarrow> char \<Rightarrow> string \<Rightarrow> directive" where
  "directive ctx a strip c rest =
     (let one = (\<lambda>ty r. Emit [field_instruction ctx ty a strip []] strip [] r) in
      case simple_directive c of Some ty \<Rightarrow> one ty rest
      | None \<Rightarrow>
      if c = CHR ''m'' then
        (if starts (CHR ''s'') rest then one MilliSecondTimeStamp (tl rest) else one Month rest)
      else if c = CHR ''S'' then
        (if starts (CHR ''C'') rest then Emit [] True [] (tl rest) else one Second rest)
      else if c = CHR ''e'' then
        (if starts (CHR ''c'') rest then Emit [] False [] (tl rest) else one Millisecond rest)
      else if c = CHR ''s'' then
        (if starts (CHR ''c'') rest then Emit [] True [] (tl rest) else one TimeStamp rest)
      else if c = CHR ''E'' then
        (if starts (CHR ''C'') rest then Emit [] False [] (tl rest) else one TimeStamp rest)
      else if c = CHR ''b'' then
        (if starts (CHR ''s'') rest then one FileName (tl rest)
         else one AbbreviatedMonthName rest)
      else if c = CHR ''K'' then
        (case (if starts (CHR ''{'') rest then split_at (CHR ''}'') (tl rest) else None) of
           Some (key, r) \<Rightarrow>
             Emit [field_instruction ctx MappedDiagnosticContextValue a strip key] strip [] r
         | None \<Rightarrow> one MappedDiagnosticContext rest)
      else if c = CHR ''f'' then
        (if starts (CHR ''f'') rest \<and> starts (CHR ''n'') (tl rest) then
           one FullFileName (tl (tl rest))
         else if starts (CHR ''n'') rest then one FileName (tl rest)
         else one FileName rest)
      else if c = CHR ''^'' then
        Emit [field_instruction ctx StartColor no_alignment strip []] strip [] rest
      else if c = CHR ''$'' then
        Emit [field_instruction ctx EndColor no_alignment strip []] strip [] rest
      else if c = CHR ''N'' then
        (if 2 \<le> length rest \<and> starts (CHR ''('') rest then
           (case split_at (CHR '')'') (tl rest) of
              None \<Rightarrow> Emit [] strip [] (tl rest)
            | Some (params, r) \<Rightarrow> Nested params r)
         else Emit [] strip [] rest)
      else Emit [] strip [c] rest)"

definition flush_buffer :: "CompileContext \<Rightarrow> bool \<Rightarrow> string \<Rightarrow> FormatInstruction list" where
  "flush_buffer ctx strip buf = (if buf = [] then [] else [static_instruction ctx buf strip])"

lemma starts_iff: "starts c s \<longleftrightarrow> (\<exists>r. s = c # r)"
  by (auto simp: starts_def split: list.splits)

lemma parse_align_length: "parse_align a s = (a', r) \<Longrightarrow> length r \<le> length s"
  by (induction a s rule: parse_align.induct)
     (fastforce simp: Let_def starts_iff split: if_splits)+

lemma directive_Emit_length:
  "directive ctx a strip c rest = Emit is st txt r \<Longrightarrow> length r \<le> length rest"
  by (auto simp: directive_def Let_def starts_iff
      dest!: split_at_length split: if_splits option.splits)

lemma directive_Nested_length:
  "directive ctx a strip c rest = Nested ps r \<Longrightarrow>
     length ps \<le> length rest \<and> length r \<le> length rest"
  by (auto simp: directive_def Let_def starts_iff
      dest!: split_at_length split: if_splits option.splits)

function compile_from ::
  "CompileContext \<Rightarrow> bool \<Rightarrow> string \<Rightarrow> string \<Rightarrow> FormatInstruction list" where
  "compile_from ctx strip buf [] = flush_buffer ctx strip buf"
| "compile_from ctx strip buf (c # cs) =
     (if c \<noteq> CHR ''%'' then compile_from ctx strip (buf @ [c]) cs
      else flush_buffer ctx strip buf @
        (case parse_align no_alignment cs of (a, rest) \<Rightarrow>
           (case rest of [] \<Rightarrow> []
            | d # rest' \<Rightarrow>
                (case directive ctx a strip d rest' of
                   Emit is strip' text r \<Rightarrow> is @ compile_from ctx strip' text r
                 | Nested params r \<Rightarrow>
                     compile_from NoArgsFallback False [] params @ compile_from ctx strip [] r))))"
  by pat_completeness auto
termination
  by (relation "measure (\<lambda>(ctx, strip, buf, s). length s)")
     (auto dest!: directive_Emit_length directive_Nested_length
        parse_align_length [OF sym])

definition PatternCompiler_compile :: "string \<Rightarrow> CompileContext \<Rightarrow> FormatInstruction list" where
  "PatternCompiler_compile pattern ctx = compile_from ctx False [] pattern"

end
