(* ===== verification/Formatter.thy ===== *)
theory Formatter
  imports PatternCompiler Json
begin

text \<open>
  \<open>formatter/SimpleLogFormatter.hpp\<close>: a pattern compiled once, applied to
  each record, or the hand-written JSON rendering; and the interface
  \<open>ILogFormatter\<close> the loggers hold it by.
\<close>

section \<open>The formatter\<close>

record SimpleLogFormatter =
  fm_pattern :: string
  fm_json_format :: bool
  fm_compiled_instructions :: "FormatInstruction list"
  fm_offset_ms :: int

definition default_pattern :: string where
  "default_pattern =
     ''[%Y-%m-%d %H:%M:%S.%e] [%ffn:%#] [%!] [thread:%t] [%l] %^%v%$''"

definition compile_pattern :: "SimpleLogFormatter \<Rightarrow> SimpleLogFormatter" where
  "compile_pattern f =
     f\<lparr>fm_compiled_instructions := PatternCompiler_compile (fm_pattern f) Default\<rparr>"

definition set_pattern :: "string \<Rightarrow> bool \<Rightarrow> SimpleLogFormatter \<Rightarrow> SimpleLogFormatter" where
  "set_pattern pattern json_format f =
     compile_pattern (f\<lparr>fm_pattern := pattern, fm_json_format := json_format\<rparr>)"

definition fm_blank :: SimpleLogFormatter where
  "fm_blank = \<lparr>fm_pattern = default_pattern, fm_json_format = False,
     fm_compiled_instructions = [], fm_offset_ms = 0\<rparr>"

definition default_formatter :: SimpleLogFormatter where
  "default_formatter = compile_pattern fm_blank"

definition make_formatter :: "string \<Rightarrow> bool \<Rightarrow> SimpleLogFormatter" where
  "make_formatter pattern json_format = set_pattern pattern json_format fm_blank"

definition fm_set_timestamp_offset :: "int \<Rightarrow> SimpleLogFormatter \<Rightarrow> SimpleLogFormatter" where
  "fm_set_timestamp_offset offset_ms f = f\<lparr>fm_offset_ms := offset_ms\<rparr>"

definition format_as_pattern :: "platform \<Rightarrow> SimpleLogFormatter \<Rightarrow> LogRecord \<Rightarrow> string" where
  "format_as_pattern P f r =
     (let dt = pf_to_date_time_ms P (lr_timestamp_ms r + fm_offset_ms f) in
      concat (map (\<lambda>i. FormatInstruction_apply P i r dt) (fm_compiled_instructions f)))"

definition escape_json_string :: "string \<Rightarrow> string" where
  "escape_json_string input = concat (map json_escape_char input)"

definition format_as_json :: "platform \<Rightarrow> LogRecord \<Rightarrow> string" where
  "format_as_json P r =
     ''{'' @
     quoted ''log_level'' @ '': '' @ dec_int (level_int (lr_log_level r)) @ '', '' @
     quoted ''timestamp_ms'' @ '': '' @ dec_int (lr_timestamp_ms r) @ '', '' @
     quoted ''file'' @ '': '' @ quoted (escape_json_string (lr_file r)) @ '', '' @
     quoted ''line'' @ '': '' @ dec_int (lr_line r) @ '', '' @
     quoted ''function'' @ '': '' @ quoted (escape_json_string (lr_function r)) @ '', '' @
     quoted ''format'' @ '': '' @ quoted (escape_json_string (lr_format r)) @ '', '' @
     quoted ''arg_names'' @ '': '' @ quoted (escape_json_string (lr_arg_names r)) @ '', '' @
     quoted ''args_array'' @ '': ['' @
     join '', '' (map (\<lambda>a. quoted (escape_json_string (value_to_string (vv_value a))))
                    (lr_args_array r)) @
     ''], '' @
     quoted ''thread_id'' @ '': '' @ quoted (escape_json_string (pf_thread_id P (lr_thread_id r))) @
     ''}''"

definition formatter_format :: "platform \<Rightarrow> SimpleLogFormatter \<Rightarrow> LogRecord \<Rightarrow> string" where
  "formatter_format P f r =
     (if fm_json_format f then format_as_json P r else format_as_pattern P f r)"

section \<open>The compiled instructions follow the pattern\<close>

definition formatter_inv :: "SimpleLogFormatter \<Rightarrow> bool" where
  "formatter_inv f =
     (fm_compiled_instructions f = PatternCompiler_compile (fm_pattern f) Default)"

lemmas formatter_defs [op_defs] =
  compile_pattern_def set_pattern_def default_formatter_def make_formatter_def
  fm_set_timestamp_offset_def fm_blank_def

lemma formatter_inv_ops [inv_intros]:
  "formatter_inv default_formatter" "formatter_inv (make_formatter p j)"
  "formatter_inv (set_pattern p j f)"
  "formatter_inv f \<Longrightarrow> formatter_inv (fm_set_timestamp_offset ms f)"
  by (simp_all add: formatter_inv_def formatter_defs)

section \<open>JSON output\<close>

definition record_json :: "platform \<Rightarrow> LogRecord \<Rightarrow> json" where
  "record_json P r =
     JObj [(''log_level'', JNum (dec_int (level_int (lr_log_level r)))),
           (''timestamp_ms'', JNum (dec_int (lr_timestamp_ms r))),
           (''file'', JStr (lr_file r)),
           (''line'', JNum (dec_int (lr_line r))),
           (''function'', JStr (lr_function r)),
           (''format'', JStr (lr_format r)),
           (''arg_names'', JStr (lr_arg_names r)),
           (''args_array'',
              JArr (map (\<lambda>a. JStr (value_to_string (vv_value a))) (lr_args_array r))),
           (''thread_id'', JStr (pf_thread_id P (lr_thread_id r)))]"

lemma denotes_escaped: "json_denotes (JStr s) (quoted (escape_json_string s))"
  unfolding escape_json_string_def by (rule denotes_string)

lemma denotes_args:
  "json_denotes (JArr (map (\<lambda>a. JStr (g a)) xs))
     (CHR ''['' # join '', '' (map (\<lambda>a. quoted (escape_json_string (g a))) xs) @ '']'')"
  by (rule denotes_array [where sp = "'' ''"])
     (simp_all add: list_all2_conv_all_nth denotes_escaped is_ws_def)

lemma format_as_json_denotes: "json_denotes (record_json P r) (format_as_json P r)"
proof -
  let ?m = "\<lambda>k t. json_member k '' '' t"
  let ?ts = "[?m ''log_level'' (dec_int (level_int (lr_log_level r))),
     ?m ''timestamp_ms'' (dec_int (lr_timestamp_ms r)),
     ?m ''file'' (quoted (escape_json_string (lr_file r))),
     ?m ''line'' (dec_int (lr_line r)),
     ?m ''function'' (quoted (escape_json_string (lr_function r))),
     ?m ''format'' (quoted (escape_json_string (lr_format r))),
     ?m ''arg_names'' (quoted (escape_json_string (lr_arg_names r))),
     ?m ''args_array'' (CHR ''['' # join '', '' (map (\<lambda>a. quoted (escape_json_string
        (value_to_string (vv_value a)))) (lr_args_array r)) @ '']''),
     ?m ''thread_id'' (quoted (escape_json_string (pf_thread_id P (lr_thread_id r))))]"
  have shape: "format_as_json P r = CHR ''{'' # join '', '' ?ts @ ''}''"
    by (simp add: format_as_json_def json_member_def quoted_def)
  have member: "\<exists>t'. json_denotes v t' \<and> ?m k t = ?m k t'" if "json_denotes v t" for v t k
    using that by blast
  show ?thesis
    unfolding shape record_json_def
    by (rule denotes_object)
       (simp_all add: member denotes_int denotes_escaped denotes_args is_ws_def
          del: append_Cons)
qed

section \<open>Properties\<close>

text \<open>C9: The JSON rendering is JSON: for every record, whatever bytes its strings hold,
  the text is accepted by the reader and denotes an object with exactly the nine members,
  in order, carrying the record's own values.\<close>

theorem format_as_json_read:
  assumes "fm_json_format f"
  shows "json_read (formatter_format P f r) = Some (record_json P r)"
  using assms by (simp add: formatter_format_def denotes_read format_as_json_denotes)

theorem format_as_json_read_witness:
  "\<forall>P. json_read (formatter_format P (make_formatter [] True)
     (make_LogRecord 1 thread_context_init LOG_LVL_INFO 5 [DQ, BS, chr 1] 7 ''main'' [] [] (-1)
        False False False)) =
   Some (record_json P
     (make_LogRecord 1 thread_context_init LOG_LVL_INFO 5 [DQ, BS, chr 1] 7 ''main'' [] [] (-1)
        False False False))"
  by (intro allI format_as_json_read) (simp add: formatter_defs)

end
