(* ===== verification/PatternCorrect.thy ===== *)
theory PatternCorrect
  imports PatternCompiler
begin

text \<open>
  Correctness of the pattern compiler and of the instruction interpreter:
  compiling inverts printing, the width and truncation contract of a field,
  what removal of ANSI escapes removes, and when the \<open>%N(..)\<close> fallback is
  silent.
\<close>

section \<open>Printing instructions back\<close>

text \<open>
  The specification side of the compiler: the canonical spelling of an
  instruction list as a pattern.
\<close>

fun spelling :: "FormatType \<Rightarrow> string" where
  "spelling StaticText = []"
| "spelling Year = ''Y''" | "spelling Month = ''m''" | "spelling Day = ''d''"
| "spelling Hour = ''H''" | "spelling Minute = ''M''" | "spelling Second = ''S''"
| "spelling Millisecond = ''e''" | "spelling TwoDigitYear = ''C''" | "spelling DateTime = ''c''"
| "spelling ShortDate = ''D''" | "spelling TimeISO8601 = ''T''" | "spelling DateISO8601 = ''F''"
| "spelling TimeStamp = ''s''" | "spelling MilliSecondTimeStamp = ''ms''"
| "spelling AbbreviatedMonthName = ''b''" | "spelling FullMonthName = ''B''"
| "spelling AbbreviatedWeekdayName = ''a''" | "spelling FullWeekdayName = ''A''"
| "spelling LogLevelName = ''l''" | "spelling ShortLogLevel = ''L''"
| "spelling FileName = ''fn''" | "spelling FullFileName = ''g''"
| "spelling SourceFileAndLine = ''@''" | "spelling LineNumber = ''#''"
| "spelling FunctionName = ''!''" | "spelling ThreadId = ''t''"
| "spelling MappedDiagnosticContext = ''K''" | "spelling MappedDiagnosticContextValue = ''K''"
| "spelling NestedDiagnosticContext = ''J''"
| "spelling StartColor = ''^''" | "spelling EndColor = ''$''" | "spelling Message = ''v''"

definition instruction_alignment :: "FormatInstruction \<Rightarrow> alignment" where
  "instruction_alignment i =
     \<lparr>al_left = fi_left_align i, al_center = fi_center_align i, al_truncate = fi_truncate i,
      al_width = fi_width i\<rparr>"

definition print_align :: "alignment \<Rightarrow> string" where
  "print_align a =
     (if al_left a then ''-'' else []) @ (if al_center a then ''='' else []) @
     (if 0 < al_width a \<or> al_truncate a then dec_nat (al_width a) else []) @
     (if al_truncate a then ''!'' else [])"

definition key_suffix :: "FormatType \<Rightarrow> string \<Rightarrow> string" where
  "key_suffix ty key = (if ty = MappedDiagnosticContextValue then ''{'' @ key @ ''}'' else [])"

definition print_instruction :: "FormatInstruction \<Rightarrow> string" where
  "print_instruction i =
     (if fi_type i = StaticText then
        (if starts (CHR ''%'') (fi_static_text i) then CHR ''%'' # fi_static_text i
         else fi_static_text i)
      else ''%'' @ print_align (instruction_alignment i) @ spelling (fi_type i) @
        key_suffix (fi_type i) (fi_context_key i))"

fun print_pattern :: "bool \<Rightarrow> FormatInstruction list \<Rightarrow> string" where
  "print_pattern strip [] = []"
| "print_pattern strip (i # is) =
     (if fi_strip_ansi i = strip then [] else if fi_strip_ansi i then ''%SC'' else ''%EC'') @
     print_instruction i @ print_pattern (fi_strip_ansi i) is"

text \<open>
  The instruction lists that have a spelling: text is non-empty and has a \<open>%\<close>
  at most in front (the compiler starts a new instruction there), keys have no
  closing brace, colour fields carry no alignment, and no field is followed by
  text that would extend its spelling.
\<close>

fun extends_spelling :: "FormatType \<Rightarrow> char \<Rightarrow> bool" where
  "extends_spelling Month c = (c = CHR ''s'')"
| "extends_spelling Second c = (c = CHR ''C'')"
| "extends_spelling Millisecond c = (c = CHR ''c'')"
| "extends_spelling TimeStamp c = (c = CHR ''c'')"
| "extends_spelling AbbreviatedMonthName c = (c = CHR ''s'')"
| "extends_spelling MappedDiagnosticContext c = (c = CHR ''{'')"
| "extends_spelling _ c = False"

definition printable_instruction :: "CompileContext \<Rightarrow> FormatInstruction \<Rightarrow> bool" where
  "printable_instruction ctx i =
     (if fi_type i = StaticText then
        fi_static_text i \<noteq> [] \<and> CHR ''%'' \<notin> set (tl (fi_static_text i)) \<and>
        i = static_instruction ctx (fi_static_text i) (fi_strip_ansi i)
      else
        i = field_instruction ctx (fi_type i) (instruction_alignment i) (fi_strip_ansi i)
              (fi_context_key i) \<and>
        fi_width i < 2 ^ 31 \<and>
        CHR ''}'' \<notin> set (fi_context_key i) \<and>
        (fi_type i = MappedDiagnosticContextValue \<or> fi_context_key i = []) \<and>
        (fi_type i \<in> {StartColor, EndColor} \<longrightarrow> instruction_alignment i = no_alignment) \<and>
        (fi_type i = FunctionName \<longrightarrow>
           fi_truncate i \<or> instruction_alignment i = no_alignment))"

definition may_precede :: "FormatInstruction \<Rightarrow> FormatInstruction \<Rightarrow> bool" where
  "may_precede i j =
     (fi_type j \<noteq> StaticText \<or> fi_strip_ansi i \<noteq> fi_strip_ansi j \<or>
      (if fi_type i = StaticText then starts (CHR ''%'') (fi_static_text j)
       else \<not> extends_spelling (fi_type i) (hd (fi_static_text j))))"

fun printable :: "CompileContext \<Rightarrow> FormatInstruction list \<Rightarrow> bool" where
  "printable ctx [] = True"
| "printable ctx (i # is) =
     (printable_instruction ctx i \<and> (case is of [] \<Rightarrow> True | j # _ \<Rightarrow> may_precede i j) \<and>
      printable ctx is)"

section \<open>Compiling a printed pattern\<close>

lemma starts_simps [simp]: "starts c [] = False" "starts c (d # s) = (d = c)"
  by (simp_all add: starts_def)

lemma parse_align_digits:
  "\<forall>c \<in> set ds. isdigit c \<Longrightarrow> \<not> starts (CHR ''!'') x \<Longrightarrow>
   parse_align a (ds @ x) =
     parse_align (a\<lparr>al_width := foldl (\<lambda>w c. w * 10 + (code c - 48)) (al_width a) ds\<rparr>) x"
proof (induction ds arbitrary: a)
  case Nil
  then show ?case by simp
next
  case (Cons d ds)
  then have d: "isdigit d" and "d \<noteq> CHR ''-''" "d \<noteq> CHR ''=''" by (auto simp: isdigit_def)
  moreover have "\<not> starts (CHR ''!'') (ds @ x)"
    using Cons.prems by (cases ds) (auto simp: isdigit_def)
  ultimately show ?case
    using Cons by (simp add: align_char_def Let_def)
qed

lemma parse_align_digits_truncate:
  "\<forall>c \<in> set ds. isdigit c \<Longrightarrow> ds \<noteq> [] \<Longrightarrow>
   parse_align a (ds @ CHR ''!'' # x) =
     (a\<lparr>al_width := foldl (\<lambda>w c. w * 10 + (code c - 48)) (al_width a) ds,
        al_truncate := True\<rparr>, x)"
proof (induction ds arbitrary: a)
  case Nil
  then show ?case by simp
next
  case (Cons d ds)
  then have d: "isdigit d" "d \<noteq> CHR ''-''" "d \<noteq> CHR ''=''" by (auto simp: isdigit_def)
  show ?case
  proof (cases ds)
    case Nil
    with d show ?thesis by (simp add: align_char_def Let_def)
  next
    case tail: (Cons e es)
    with Cons.prems have "e \<noteq> CHR ''!''" by (auto simp: isdigit_def)
    then have "parse_align a ((d # ds) @ CHR ''!'' # x) =
        parse_align (align_char a d) (ds @ CHR ''!'' # x)"
      using d tail by (simp add: Let_def)
    also have "\<dots> = ((align_char a d)\<lparr>al_width := foldl (\<lambda>w c. w * 10 + (code c - 48))
        (al_width (align_char a d)) ds, al_truncate := True\<rparr>, x)"
      using Cons.IH Cons.prems tail by simp
    finally show ?thesis using d by (simp add: align_char_def)
  qed
qed

definition align_stop :: "char \<Rightarrow> bool" where
  "align_stop c = (\<not> isdigit c \<and> c \<noteq> CHR ''-'' \<and> c \<noteq> CHR ''='')"

lemma parse_align_flag:
  "c = CHR ''-'' \<or> c = CHR ''='' \<Longrightarrow> \<not> starts (CHR ''!'') x \<Longrightarrow>
   parse_align a (c # x) = parse_align (align_char a c) x"
  by (elim disjE) (simp_all add: Let_def)

lemma parse_align_stop: "align_stop d \<Longrightarrow> parse_align a (d # r) = (a, d # r)"
  by (simp add: align_stop_def)

text \<open>The width and truncation part.\<close>

definition print_width :: "alignment \<Rightarrow> string" where
  "print_width a =
     (if 0 < al_width a \<or> al_truncate a then dec_nat (al_width a) else []) @
     (if al_truncate a then ''!'' else [])"

lemma dec_nat_not_bang [simp]: "starts (CHR ''!'') (dec_nat n @ x) = False"
proof -
  obtain c cs where c: "dec_nat n = c # cs" by (cases "dec_nat n") auto
  then have "isdigit c" using dec_nat_digits [of c n] by simp
  then have "c \<noteq> CHR ''!''" by (auto simp: isdigit_def)
  with c show ?thesis by simp
qed

lemma foldl_dec_nat [simp]:
  "foldl (\<lambda>w c. w * 10 + (code c - 48)) 0 (dec_nat n) = n"
  using digits_value_dec_nat [of n] by (simp add: digits_value_def)

lemma parse_print_width:
  assumes "align_stop d" "d = CHR ''!'' \<Longrightarrow> al_truncate a \<or> al_width a = 0"
    and "al_width b = 0" "\<not> al_truncate b"
  shows "parse_align b (print_width a @ d # r) =
           (b\<lparr>al_width := al_width a, al_truncate := al_truncate a\<rparr>, d # r)"
proof -
  have digits: "\<forall>c \<in> set (dec_nat (al_width a)). isdigit c"
    using dec_nat_digits by blast
  show ?thesis
  proof (cases "al_truncate a")
    case True
    with assms show ?thesis
      using parse_align_digits_truncate [OF digits, of b "d # r"] by (simp add: print_width_def)
  next
    case False
    show ?thesis
    proof (cases "al_width a = 0")
      case True
      with False assms show ?thesis
        by (simp add: print_width_def parse_align_stop del: parse_align.simps)
    next
      case nz: False
      with False assms have "\<not> starts (CHR ''!'') (d # r)" by auto
      from parse_align_digits [OF digits this, of b] nz False assms show ?thesis
        by (simp add: print_width_def parse_align_stop del: parse_align.simps)
    qed
  qed
qed

lemma print_width_not_bang:
  "d = CHR ''!'' \<Longrightarrow> al_truncate a \<Longrightarrow> starts (CHR ''!'') (print_width a @ d # r) = False"
  "d \<noteq> CHR ''!'' \<Longrightarrow> starts (CHR ''!'') (print_width a @ d # r) = False"
  by (auto simp: print_width_def)

lemma parse_print_align:
  assumes "align_stop d" "d = CHR ''!'' \<Longrightarrow> al_truncate a \<or> a = no_alignment"
  shows "parse_align no_alignment (print_align a @ d # r) = (a, d # r)"
proof (cases "a = no_alignment")
  case True
  with assms show ?thesis
    by (simp add: print_align_def no_alignment_def parse_align_stop del: parse_align.simps)
next
  case False
  with assms have d: "d = CHR ''!'' \<Longrightarrow> al_truncate a" by blast
  then have bang: "\<not> starts (CHR ''!'') (print_width a @ d # r)"
    by (cases "d = CHR ''!''") (simp_all add: print_width_not_bang)
  define flags where "flags = no_alignment\<lparr>al_left := al_left a, al_center := al_center a\<rparr>"
  have "print_align a = (if al_left a then ''-'' else []) @ (if al_center a then ''='' else [])
          @ print_width a"
    by (simp add: print_align_def print_width_def)
  then have "parse_align no_alignment (print_align a @ d # r) =
      parse_align flags (print_width a @ d # r)"
    using bang
    by (simp add: parse_align_flag flags_def align_char_def no_alignment_def del: parse_align.simps)
  also have "\<dots> = (flags\<lparr>al_width := al_width a, al_truncate := al_truncate a\<rparr>, d # r)"
    using d by (intro parse_print_width assms(1)) (auto simp: flags_def no_alignment_def)
  also have "flags\<lparr>al_width := al_width a, al_truncate := al_truncate a\<rparr> = a"
    by (simp add: flags_def no_alignment_def)
  finally show ?thesis .
qed

declare compile_from.simps(2) [simp del]

lemma compile_from_char [simp]:
  "c \<noteq> CHR ''%'' \<Longrightarrow> compile_from ctx strip buf (c # cs) = compile_from ctx strip (buf @ [c]) cs"
  by (simp add: compile_from.simps)

lemma flush_buffer_Nil [simp]: "flush_buffer ctx strip [] = []"
  by (simp add: flush_buffer_def)

text \<open>One directive after its alignment has been parsed.\<close>

lemma compile_from_directive:
  "parse_align no_alignment cs = (a, d # rest) \<Longrightarrow>
   compile_from ctx strip buf (CHR ''%'' # cs) = flush_buffer ctx strip buf @
     (case directive ctx a strip d rest of
        Emit is strip' text r \<Rightarrow> is @ compile_from ctx strip' text r
      | Nested params r \<Rightarrow> compile_from NoArgsFallback False [] params @ compile_from ctx strip [] r)"
  by (simp add: compile_from.simps)

lemma compile_from_flush:
  "compile_from ctx strip buf (CHR ''%'' # cs) =
     flush_buffer ctx strip buf @ compile_from ctx strip [] (CHR ''%'' # cs)"
  by (simp add: compile_from.simps)

lemma compile_text:
  assumes "CHR ''%'' \<notin> set t" "r = [] \<or> starts (CHR ''%'') r"
  shows "compile_from ctx strip buf (t @ r) =
           flush_buffer ctx strip (buf @ t) @ compile_from ctx strip [] r"
  using assms(1)
proof (induction t arbitrary: buf)
  case Nil
  from assms(2) show ?case
    by (auto simp: starts_iff intro: compile_from_flush)
next
  case (Cons c t)
  then have "c \<noteq> CHR ''%''" "CHR ''%'' \<notin> set t" by auto
  with Cons.IH [of "buf @ [c]"] show ?case by simp
qed

lemma compile_strip_on [simp]:
  "compile_from ctx strip [] (CHR ''%'' # CHR ''S'' # CHR ''C'' # r) = compile_from ctx True [] r"
  by (simp add: compile_from_directive [OF parse_align_stop] align_stop_def isdigit_def
      directive_def simple_directive_def)

lemma compile_strip_off [simp]:
  "compile_from ctx strip [] (CHR ''%'' # CHR ''E'' # CHR ''C'' # r) = compile_from ctx False [] r"
  by (simp add: compile_from_directive [OF parse_align_stop] align_stop_def isdigit_def
      directive_def simple_directive_def)

lemma compile_percent:
  "compile_from ctx strip [] (CHR ''%'' # CHR ''%'' # r) = compile_from ctx strip ''%'' r"
  by (simp add: compile_from_directive [OF parse_align_stop] align_stop_def isdigit_def
      directive_def simple_directive_def)

definition no_extension :: "FormatType \<Rightarrow> string \<Rightarrow> bool" where
  "no_extension ty r = (case r of [] \<Rightarrow> True | c # _ \<Rightarrow> \<not> extends_spelling ty c)"

lemma directive_simple:
  "simple_directive c = Some ty \<Longrightarrow>
   directive ctx a strip c r = Emit [field_instruction ctx ty a strip []] strip [] r"
  by (simp add: directive_def)

lemma no_extension_starts:
  "no_extension Month r \<Longrightarrow> starts (CHR ''s'') r = False"
  "no_extension Second r \<Longrightarrow> starts (CHR ''C'') r = False"
  "no_extension Millisecond r \<Longrightarrow> starts (CHR ''c'') r = False"
  "no_extension TimeStamp r \<Longrightarrow> starts (CHR ''c'') r = False"
  "no_extension AbbreviatedMonthName r \<Longrightarrow> starts (CHR ''s'') r = False"
  "no_extension MappedDiagnosticContext r \<Longrightarrow> starts (CHR ''{'') r = False"
  by (cases r; simp add: no_extension_def)+

lemma directive_spelling:
  assumes "no_extension ty r" "ty \<noteq> StaticText" "CHR ''}'' \<notin> set key"
    and "ty = MappedDiagnosticContextValue \<or> key = []"
    and "ty = StartColor \<or> ty = EndColor \<Longrightarrow> a = no_alignment"
  shows "directive ctx a strip (hd (spelling ty)) (tl (spelling ty) @ key_suffix ty key @ r) =
         Emit [field_instruction ctx ty a strip key] strip [] r"
proof (cases "simple_directive (hd (spelling ty)) = Some ty")
  case True
  moreover from True have "tl (spelling ty) = []" "ty \<noteq> MappedDiagnosticContextValue"
    by (cases ty; simp add: simple_directive_def)+
  ultimately show ?thesis using assms(4) by (simp add: directive_simple key_suffix_def)
next
  case False
  then have "ty \<in> {Month, MilliSecondTimeStamp, Second, Millisecond, TimeStamp, FileName,
      AbbreviatedMonthName, MappedDiagnosticContext, MappedDiagnosticContextValue,
      StartColor, EndColor}"
    using assms(2) by (cases ty) (simp_all add: simple_directive_def)
  with assms show ?thesis
    by (elim insertE emptyE)
       (simp_all add: directive_def simple_directive_def key_suffix_def no_extension_starts)
qed

lemma spelling_head:
  assumes "ty \<noteq> StaticText"
  shows "\<exists>c cs. spelling ty = c # cs \<and> align_stop c \<and> (c = CHR ''!'' \<longrightarrow> ty = FunctionName)"
  using assms by (cases ty) (simp_all add: align_stop_def isdigit_def)

text \<open>Compiling the spelling of one field.\<close>

lemma compile_print_field:
  assumes "printable_instruction ctx i" "fi_type i \<noteq> StaticText" "no_extension (fi_type i) r"
  shows "compile_from ctx (fi_strip_ansi i) [] (print_instruction i @ r) =
           i # compile_from ctx (fi_strip_ansi i) [] r"
proof -
  let ?a = "instruction_alignment i"
  obtain c cs where c: "spelling (fi_type i) = c # cs" "align_stop c"
      "c = CHR ''!'' \<longrightarrow> fi_type i = FunctionName"
    using spelling_head [OF assms(2)] by blast
  have i: "i = field_instruction ctx (fi_type i) ?a (fi_strip_ansi i) (fi_context_key i)"
    using assms by (simp add: printable_instruction_def)
  have "c = CHR ''!'' \<Longrightarrow> al_truncate ?a \<or> ?a = no_alignment"
    using assms c by (auto simp: printable_instruction_def instruction_alignment_def)
  then have "parse_align no_alignment
      (print_align ?a @ c # cs @ key_suffix (fi_type i) (fi_context_key i) @ r) =
      (?a, c # cs @ key_suffix (fi_type i) (fi_context_key i) @ r)"
    using parse_print_align c(2) by blast
  moreover have "directive ctx ?a (fi_strip_ansi i) c
        (cs @ key_suffix (fi_type i) (fi_context_key i) @ r) = Emit [i] (fi_strip_ansi i) [] r"
    using directive_spelling [OF assms(3,2), of "fi_context_key i" ?a ctx "fi_strip_ansi i"]
      assms c i by (auto simp: printable_instruction_def)
  ultimately show ?thesis
    using assms(2) c(1) by (simp add: print_instruction_def compile_from_directive)
qed

lemma compile_print_text:
  assumes "printable_instruction ctx i" "fi_type i = StaticText" "r = [] \<or> starts (CHR ''%'') r"
  shows "compile_from ctx (fi_strip_ansi i) [] (print_instruction i @ r) =
           i # compile_from ctx (fi_strip_ansi i) [] r"
proof -
  obtain c t where t: "fi_static_text i = c # t" "CHR ''%'' \<notin> set t"
    using assms(1,2) by (cases "fi_static_text i") (auto simp: printable_instruction_def)
  have i: "static_instruction ctx (c # t) (fi_strip_ansi i) = i"
    using assms(1,2) t by (simp add: printable_instruction_def)
  have "compile_from ctx (fi_strip_ansi i) [] (print_instruction i @ r) =
        compile_from ctx (fi_strip_ansi i) [c] (t @ r)"
    using assms(2) t by (auto simp: print_instruction_def compile_percent)
  with compile_text [OF t(2) assms(3)] show ?thesis
    by (simp add: flush_buffer_def i)
qed

text \<open>What follows an instruction in a printed pattern.\<close>

lemma print_instruction_starts:
  assumes "printable_instruction ctx j"
  shows "fi_type j \<noteq> StaticText \<Longrightarrow> starts (CHR ''%'') (print_instruction j @ r)"
    and "fi_type j = StaticText \<Longrightarrow>
           print_instruction j @ r \<noteq> [] \<and> hd (print_instruction j @ r) = hd (fi_static_text j)"
  using assms by (auto simp: print_instruction_def printable_instruction_def starts_iff)

lemma percent_extends [simp]: "\<not> extends_spelling ty (CHR ''%'')"
  by (cases ty) simp_all

lemma starts_percent_no_extension: "starts (CHR ''%'') r \<Longrightarrow> no_extension ty r"
  by (auto simp: no_extension_def starts_iff)

lemma print_pattern_follows:
  assumes "printable ctx (i # is)"
  shows "fi_type i = StaticText \<Longrightarrow>
           print_pattern (fi_strip_ansi i) is = [] \<or>
           starts (CHR ''%'') (print_pattern (fi_strip_ansi i) is)"
    and "no_extension (fi_type i) (print_pattern (fi_strip_ansi i) is)"
proof -
  have "print_pattern (fi_strip_ansi i) is = [] \<or>
        starts (CHR ''%'') (print_pattern (fi_strip_ansi i) is) \<or>
        fi_type i \<noteq> StaticText \<and> no_extension (fi_type i) (print_pattern (fi_strip_ansi i) is)"
  proof (cases "is")
    case (Cons j js)
    with assms have j: "printable_instruction ctx j" "may_precede i j" by auto
    note H = print_instruction_starts [OF j(1), of "print_pattern (fi_strip_ansi j) js"]
    from j(2) H Cons show ?thesis
      by (cases "fi_type j = StaticText";
          cases "print_instruction j @ print_pattern (fi_strip_ansi j) js")
         (auto simp: may_precede_def no_extension_def starts_iff split: if_splits)
  qed simp
  then show "fi_type i = StaticText \<Longrightarrow>
           print_pattern (fi_strip_ansi i) is = [] \<or>
           starts (CHR ''%'') (print_pattern (fi_strip_ansi i) is)"
    and "no_extension (fi_type i) (print_pattern (fi_strip_ansi i) is)"
    using starts_percent_no_extension by (auto simp: no_extension_def)
qed

lemma compile_print_from:
  "printable ctx is \<Longrightarrow> compile_from ctx strip [] (print_pattern strip is) = is"
proof (induction "is" arbitrary: strip)
  case (Cons i "is")
  then have p: "printable_instruction ctx i" by simp
  have "compile_from ctx strip [] (print_pattern strip (i # is)) =
        compile_from ctx (fi_strip_ansi i) []
          (print_instruction i @ print_pattern (fi_strip_ansi i) is)"
    by (cases "fi_strip_ansi i"; cases strip) simp_all
  also have "\<dots> = i # compile_from ctx (fi_strip_ansi i) [] (print_pattern (fi_strip_ansi i) is)"
    using compile_print_text [OF p] compile_print_field [OF p] print_pattern_follows [OF Cons.prems]
    by blast
  finally show ?case using Cons by simp
qed simp

section \<open>Width, truncation and ANSI removal\<close>

lemma extend_tail_eq: "extend_tail w l k = k - (w - l)"
proof (induction w l k rule: extend_tail.induct)
  case (1 w l k)
  show ?case
  proof (cases "l < w \<and> 0 < k")
    case True
    then have "extend_tail w l k = extend_tail w (l + 1) (k - 1)"
      by (subst extend_tail.simps) simp
    with 1 True show ?thesis by simp
  next
    case False
    then show ?thesis by (subst extend_tail.simps) auto
  qed
qed

lemma length_truncate_middle:
  assumes "w < length s"
  shows "length (truncate_middle w s) = w"
proof (cases "w \<le> 3")
  case False
  then have "2 * ((w - 3) div 2) \<le> w - 3" by simp
  with False assms show ?thesis
    by (simp add: truncate_middle_def Let_def extend_tail_eq)
qed (simp add: truncate_middle_def)

lemma length_truncate_result:
  "length (truncate_result i s) = (if fi_truncate i then min (fi_width i) (length s) else length s)"
  by (auto simp: truncate_result_def length_truncate_middle)

lemma length_align_result: "length (align_result i s) = max (fi_width i) (length s)"
  by (auto simp: align_result_def Let_def)

definition stripped_text ::
  "platform \<Rightarrow> FormatInstruction \<Rightarrow> LogRecord \<Rightarrow> DateTimeStruct \<Rightarrow> string" where
  "stripped_text P i r dt =
     (if fi_strip_ansi i then remove_ansi_escape_codes (render P i r dt) else render P i r dt)"

lemma field_text_eq: "field_text P i r dt = align_result i (truncate_result i (stripped_text P i r dt))"
  by (simp add: field_text_def stripped_text_def)

text \<open>Truncation keeps both ends of a path: what is shown is a prefix, dots and a suffix.\<close>

lemma truncate_middle_shape:
  assumes "3 < w" "w < length s"
  shows "truncate_middle w s =
           take ((w - 3) div 2) s @ ''...'' @ drop (length s - (w - 3 - (w - 3) div 2)) s"
proof -
  define k where "k = (w - 3) div 2"
  have arith: "l - k - (w - (2 * k + 3)) = l - (w - 3 - k)" if "2 * k \<le> w - 3" "3 < w" for l :: nat
    using that by simp
  have "2 * k \<le> w - 3" by (simp add: k_def)
  moreover have "truncate_middle w s = take k s @ ''...'' @ drop (length s - k - (w - (2 * k + 3))) s"
    using assms unfolding truncate_middle_def Let_def extend_tail_eq k_def
    by (simp add: numeral_3_eq_3)
  ultimately show ?thesis
    using arith [of "length s"] assms(1) unfolding k_def by simp
qed

fun no_csi :: "string \<Rightarrow> bool" where
  "no_csi [] = True"
| "no_csi [c] = True"
| "no_csi (c # d # cs) = (\<not> (c = ESC \<and> d = CHR ''['') \<and> no_csi (d # cs))"

definition csi_sequence :: "string \<Rightarrow> bool" where
  "csi_sequence s =
     (\<exists>body fin. s = ESC # CHR ''['' # body @ [fin] \<and> isalpha fin \<and> (\<forall>c \<in> set body. \<not> isalpha c))"

lemma remove_ansi_skip:
  "\<forall>c \<in> set body. \<not> isalpha c \<Longrightarrow> isalpha f \<Longrightarrow>
   remove_ansi True (body @ f # s) = remove_ansi False s"
  by (induction body) simp_all

lemma remove_ansi_csi:
  assumes "csi_sequence q"
  shows "remove_ansi False (q @ s) = remove_ansi False s"
proof -
  obtain body f where "q = ESC # CHR ''['' # body @ [f]" "isalpha f" "\<forall>c \<in> set body. \<not> isalpha c"
    using assms by (auto simp: csi_sequence_def)
  then show ?thesis by (simp add: remove_ansi_skip)
qed

lemma remove_ansi_plain:
  "no_csi t \<Longrightarrow> t = [] \<or> last t \<noteq> ESC \<Longrightarrow> remove_ansi False (t @ s) = t @ remove_ansi False s"
proof (induction t rule: no_csi.induct)
  case (2 c)
  then show ?case by (cases s) simp_all
next
  case (3 c d cs)
  then have "\<not> (c = ESC \<and> d = CHR ''['')" by simp
  then have "remove_ansi False ((c # d # cs) @ s) = c # remove_ansi False ((d # cs) @ s)"
    by (simp only: append_Cons remove_ansi.simps if_False)
  with 3 show ?case by simp
qed simp

lemma color_is_csi: "csi_sequence (to_c_str_color c)"
proof -
  have "\<forall>x \<in> set (color_code c). \<not> isalpha x" by (cases c; simp add: ctype_defs)
  moreover have "isalpha (CHR ''m'')" by (simp add: ctype_defs)
  ultimately show ?thesis by (auto simp: csi_sequence_def to_c_str_color_def)
qed

lemma remove_ansi_segments:
  "\<forall>(t, q) \<in> set ps. no_csi t \<and> (t = [] \<or> last t \<noteq> ESC) \<and> csi_sequence q \<Longrightarrow>
   no_csi u \<Longrightarrow> u = [] \<or> last u \<noteq> ESC \<Longrightarrow>
   remove_ansi False (concat (map (\<lambda>(t, q). t @ q) ps) @ u) = concat (map fst ps) @ u"
proof (induction ps)
  case Nil
  then show ?case using remove_ansi_plain [of u "[]"] by simp
next
  case (Cons p ps)
  then show ?case by (cases p) (auto simp: remove_ansi_plain remove_ansi_csi)
qed

lemma render_context [simp]: "render P (i\<lparr>fi_context := c\<rparr>) = render P i"
  by (intro ext; cases "fi_type i") (simp_all add: render.simps split: option.split)

lemma field_text_context [simp]: "field_text P (i\<lparr>fi_context := c\<rparr>) = field_text P i"
  by (intro ext) (simp add: field_text_def truncate_result_def align_result_def cong: if_cong)

lemma direct_output_context [simp]: "direct_output (i\<lparr>fi_context := c\<rparr>) = direct_output i"
  by (intro ext) (simp add: direct_output_def)

section \<open>Properties\<close>

text \<open>C7: Compiling inverts printing: for every list of instructions that has a
  spelling, compiling the pattern that spells it yields exactly that list, with
  every type, width, alignment, truncation mark, strip flag and context key.\<close>

theorem compile_print:
  assumes "printable ctx is"
  shows "PatternCompiler_compile (print_pattern False is) ctx = is"
  using assms by (simp add: PatternCompiler_compile_def compile_print_from)

theorem compile_print_witness:
  "print_pattern False [static_instruction Default ''['' False,
      field_instruction Default FileName
        \<lparr>al_left = True, al_center = False, al_truncate = True, al_width = 12\<rparr> False [],
      field_instruction Default Message no_alignment True []] = ''[%-12!fn%SC%v'' \<and>
   PatternCompiler_compile ''[%-12!fn%SC%v'' Default =
     [static_instruction Default ''['' False,
      field_instruction Default FileName
        \<lparr>al_left = True, al_center = False, al_truncate = True, al_width = 12\<rparr> False [],
      field_instruction Default Message no_alignment True []]"
proof -
  let ?is = "[static_instruction Default ''['' False,
      field_instruction Default FileName
        \<lparr>al_left = True, al_center = False, al_truncate = True, al_width = 12\<rparr> False [],
      field_instruction Default Message no_alignment True []]"
  have p: "print_pattern False ?is = ''[%-12!fn%SC%v''"
    by (simp add: print_instruction_def print_align_def instruction_alignment_def key_suffix_def
        static_instruction_def field_instruction_def no_alignment_def dec_nat.simps)
  have "printable Default ?is"
    by (simp add: printable_instruction_def instruction_alignment_def may_precede_def
        static_instruction_def field_instruction_def no_alignment_def)
  from compile_print [OF this] p show ?thesis by simp
qed

text \<open>C8: The width contract of a field: a field with the truncation mark renders to
  exactly its width, and one without it to the larger of its width and the length of
  its (possibly stripped) text.\<close>

theorem field_width:
  "length (field_text P i r dt) =
     (if fi_truncate i then fi_width i else max (fi_width i) (length (stripped_text P i r dt)))"
  by (simp add: field_text_eq length_align_result length_truncate_result)

text \<open>Truncation of file names and functions keeps both ends: a text longer than
  the width is shown as a prefix, three dots and a suffix, the suffix taking the odd
  character.\<close>

theorem truncated_path_ends:
  assumes "fi_truncate i" "is_path_like (fi_type i)" "3 < fi_width i"
    and "fi_width i < length (stripped_text P i r dt)"
  shows "field_text P i r dt =
           take ((fi_width i - 3) div 2) (stripped_text P i r dt) @ ''...'' @
           drop (length (stripped_text P i r dt) - (fi_width i - 3 - (fi_width i - 3) div 2))
             (stripped_text P i r dt)"
proof -
  have "field_text P i r dt = align_result i (truncate_middle (fi_width i) (stripped_text P i r dt))"
    using assms by (simp add: field_text_eq truncate_result_def)
  also have "\<dots> = truncate_middle (fi_width i) (stripped_text P i r dt)"
    using length_truncate_middle [OF assms(4)] by (simp add: align_result_def)
  finally show ?thesis
    using truncate_middle_shape [OF assms(3,4)] by simp
qed

theorem truncated_path_ends_witness:
  "\<forall>P dt. field_text P
     (field_instruction Default FullFileName
        \<lparr>al_left = False, al_center = False, al_truncate = True, al_width = 8\<rparr> False [])
     (make_LogRecord 1 thread_context_init LOG_LVL_INFO 0 ''src/main.cpp'' 7 ''main'' [] [] (-1)
        False False False) dt = ''sr...cpp''"
proof (intro allI)
  fix P dt
  let ?i = "field_instruction Default FullFileName
      \<lparr>al_left = False, al_center = False, al_truncate = True, al_width = 8\<rparr> False []"
  let ?r = "make_LogRecord 1 thread_context_init LOG_LVL_INFO 0 ''src/main.cpp'' 7 ''main'' [] []
      (-1) False False False"
  have "stripped_text P ?i ?r dt = ''src/main.cpp''"
    by (simp add: stripped_text_def render.simps field_instruction_def make_LogRecord_def)
  then show "field_text P ?i ?r dt = ''sr...cpp''"
    using truncated_path_ends [of ?i P ?r dt]
    by (simp add: is_path_like_def field_instruction_def)
qed

text \<open>Stripping removes exactly the escape sequences: from a text made of plain
  segments separated by complete CSI sequences, the result is the plain segments in
  order; the library's own colour codes are such sequences.\<close>

theorem strip_removes_csi:
  assumes "\<forall>(t, q) \<in> set ps. no_csi t \<and> (t = [] \<or> last t \<noteq> ESC) \<and>
             (csi_sequence q \<or> q \<in> range to_c_str_color)"
    and "no_csi u" "u = [] \<or> last u \<noteq> ESC"
  shows "remove_ansi_escape_codes (concat (map (\<lambda>(t, q). t @ q) ps) @ u) =
           concat (map fst ps) @ u"
  unfolding remove_ansi_escape_codes_def
  by (rule remove_ansi_segments) (use assms color_is_csi in fastforce)+

theorem strip_removes_csi_witness:
  "remove_ansi_escape_codes (''a'' @ to_c_str_color Red @ ''b'' @ to_c_str_color LightGray) = ''ab''"
  using strip_removes_csi [of "[(''a'', to_c_str_color Red), (''b'', to_c_str_color LightGray)]" "[]"]
  by simp

text \<open>Stripping is a single pass, so a sequence can be assembled from what is left around a
  removed one.\<close>

lemma strip_not_idempotent:
  "remove_ansi_escape_codes (ESC # to_c_str_color Red @ ''[0m'') = ESC # ''[0m''"
  by code_simp

text \<open>The \<open>%N(..)\<close> fallback: instructions compiled inside it print nothing for a
  record that has a format string or arguments, and for a record that has neither they
  print what the same instruction prints outside the fallback.\<close>

theorem no_args_fallback:
  "FormatInstruction_apply P (i\<lparr>fi_context := NoArgsFallback\<rparr>) r dt =
     (if lr_format r = [] \<and> lr_args_array r = []
      then FormatInstruction_apply P (i\<lparr>fi_context := Default\<rparr>) r dt else [])"
  by (simp add: FormatInstruction_apply_def)

end
