(* ===== verification/MpscRing.thy ===== *)
theory MpscRing
  imports Interfaces
begin

text \<open>
  The lock-free bounded ring of \<open>detail/MpscRingAny.hpp\<close>: many producers, one
  consumer.  Every atomic access of \<open>try_push\<close> and \<open>try_pop\<close> is one step, so
  the theorems range over all interleavings (of a sequentially consistent
  memory).  Positions and sequence numbers are \<open>size_t\<close>: the increments wrap at
  \<open>2 ^ 64\<close> and differences are taken after conversion to \<open>intptr_t\<close>, as in the
  source; the theorems cover the first \<open>2 ^ 63\<close> pushes less the capacity, because at
  the wrap itself \<open>pos % m_cap\<close> would jump.
\<close>

section \<open>Cells and positions\<close>

definition inc64 :: "nat \<Rightarrow> nat" where
  "inc64 n = (n + 1) mod 2 ^ 64"

definition add64 :: "nat \<Rightarrow> nat \<Rightarrow> nat" where
  "add64 m n = (m + n) mod 2 ^ 64"

definition intptr :: "nat \<Rightarrow> int" where
  "intptr n = (if n < 2 ^ 63 then int n else int n - 2 ^ 64)"

record 'a ring =
  rg_cap :: nat
  rg_seq :: "nat \<Rightarrow> nat"
  rg_val :: "nat \<Rightarrow> 'a option"
  rg_enqueue_pos :: nat
  rg_dequeue_pos :: nat

definition MpscRingAny :: "nat \<Rightarrow> 'a ring" where
  "MpscRingAny capacity =
     \<lparr>rg_cap = (if capacity < 2 then 2 else capacity), rg_seq = (\<lambda>i. i), rg_val = (\<lambda>_. None),
      rg_enqueue_pos = 0, rg_dequeue_pos = 0\<rparr>"

section \<open>The program counters and their actions\<close>

text \<open>
  A producer inside \<open>try_push(v)\<close>: loading \<open>m_enqueue_pos\<close>, checking the cell's
  sequence number, the compare-and-swap, constructing in place, publishing.
\<close>

datatype 'a push_pc =
    PushLoad 'a | PushCheck 'a nat | PushCas 'a nat | PushStore 'a nat | PushPublish nat
  | PushReturn bool

text \<open>
  One action of \<open>try_push\<close>; the flag says that a \<open>compare_exchange_weak\<close> fails
  although it could succeed.
\<close>

fun push_action :: "bool \<Rightarrow> 'a push_pc \<Rightarrow> 'a ring \<Rightarrow> 'a push_pc \<times> 'a ring" where
  "push_action _ (PushLoad v) r = (PushCheck v (rg_enqueue_pos r), r)"
| "push_action _ (PushCheck v pos) r =
     (let diff = intptr (rg_seq r (pos mod rg_cap r)) - intptr pos in
      if diff = 0 then (PushCas v pos, r)
      else if diff < 0 then (PushReturn False, r)
      else (PushLoad v, r))"
| "push_action spurious (PushCas v pos) r =
     (if rg_enqueue_pos r = pos \<and> \<not> spurious
      then (PushStore v pos, r\<lparr>rg_enqueue_pos := inc64 pos\<rparr>)
      else (PushCheck v (rg_enqueue_pos r), r))"
| "push_action _ (PushStore v pos) r =
     (PushPublish pos, r\<lparr>rg_val := (rg_val r)(pos mod rg_cap r := Some v)\<rparr>)"
| "push_action _ (PushPublish pos) r =
     (PushReturn True, r\<lparr>rg_seq := (rg_seq r)(pos mod rg_cap r := inc64 pos)\<rparr>)"
| "push_action _ (PushReturn b) r = (PushReturn b, r)"

text \<open>The consumer inside \<open>try_pop\<close>; \<open>PopReturn None\<close> is the result \<open>false\<close>.\<close>

datatype 'a pop_pc =
    PopLoad | PopCheck nat | PopCas nat | PopMove nat | PopRelease nat 'a
  | PopReturn "'a option"

fun pop_action :: "bool \<Rightarrow> 'a pop_pc \<Rightarrow> 'a ring \<Rightarrow> 'a pop_pc \<times> 'a ring" where
  "pop_action _ PopLoad r = (PopCheck (rg_dequeue_pos r), r)"
| "pop_action _ (PopCheck pos) r =
     (let diff = intptr (rg_seq r (pos mod rg_cap r)) - intptr (inc64 pos) in
      if diff = 0 then (PopCas pos, r) else (PopReturn None, r))"
| "pop_action spurious (PopCas pos) r =
     (if rg_dequeue_pos r = pos \<and> \<not> spurious
      then (PopMove pos, r\<lparr>rg_dequeue_pos := inc64 pos\<rparr>)
      else (PopLoad, r))"
| "pop_action _ (PopMove pos) r =
     (case rg_val r (pos mod rg_cap r) of
        Some v \<Rightarrow> (PopRelease pos v, r\<lparr>rg_val := (rg_val r)(pos mod rg_cap r := None)\<rparr>)
      | None \<Rightarrow> (PopMove pos, r))"
| "pop_action _ (PopRelease pos v) r =
     (PopReturn (Some v), r\<lparr>rg_seq := (rg_seq r)(pos mod rg_cap r := add64 pos (rg_cap r))\<rparr>)"
| "pop_action _ (PopReturn res) r = (PopReturn res, r)"

definition ring_empty :: "'a ring \<Rightarrow> bool" where
  "ring_empty r =
     (rg_cap r = 0 \<or>
      intptr (rg_seq r (rg_dequeue_pos r mod rg_cap r)) - intptr (inc64 (rg_dequeue_pos r)) \<noteq> 0)"

section \<open>Interleavings\<close>

record 'a ring_system =
  rs_ring :: "'a ring"
  rs_producers :: "nat \<Rightarrow> 'a push_pc"
  rs_consumer :: "'a pop_pc"

definition ring_system_init :: "nat \<Rightarrow> 'a ring_system" where
  "ring_system_init capacity =
     \<lparr>rs_ring = MpscRingAny capacity, rs_producers = (\<lambda>_. PushReturn False),
      rs_consumer = PopReturn None\<rparr>"

datatype 'a ring_event = Claimed 'a | PushFailed | Popped 'a | PopFailed

definition push_events :: "'a push_pc \<Rightarrow> 'a push_pc \<Rightarrow> 'a ring_event list" where
  "push_events pc pc' =
     (case pc' of
        PushStore v _ \<Rightarrow> [Claimed v]
      | PushReturn False \<Rightarrow> [PushFailed]
      | _ \<Rightarrow> [])"

definition pop_events :: "'a pop_pc \<Rightarrow> 'a pop_pc \<Rightarrow> 'a ring_event list" where
  "pop_events pc pc' =
     (case pc' of
        PopRelease _ v \<Rightarrow> [Popped v]
      | PopReturn None \<Rightarrow> [PopFailed]
      | _ \<Rightarrow> [])"

inductive ring_step :: "'a ring_system \<Rightarrow> 'a ring_event list \<Rightarrow> 'a ring_system \<Rightarrow> bool" where
  call_push: "rs_producers s p = PushReturn b \<Longrightarrow>
     ring_step s [] (s\<lparr>rs_producers := (rs_producers s)(p := PushLoad v)\<rparr>)"
| push: "(\<And>b. rs_producers s p \<noteq> PushReturn b) \<Longrightarrow>
     push_action spurious (rs_producers s p) (rs_ring s) = (pc', r') \<Longrightarrow>
     ring_step s (push_events (rs_producers s p) pc')
       (s\<lparr>rs_ring := r', rs_producers := (rs_producers s)(p := pc')\<rparr>)"
| call_pop: "rs_consumer s = PopReturn res \<Longrightarrow> ring_step s [] (s\<lparr>rs_consumer := PopLoad\<rparr>)"
| pop: "(\<And>res. rs_consumer s \<noteq> PopReturn res) \<Longrightarrow>
     pop_action spurious (rs_consumer s) (rs_ring s) = (pc', r') \<Longrightarrow>
     ring_step s (pop_events (rs_consumer s) pc') (s\<lparr>rs_ring := r', rs_consumer := pc'\<rparr>)"

inductive ring_run :: "nat \<Rightarrow> 'a ring_event list \<Rightarrow> 'a ring_system \<Rightarrow> bool"
  for capacity :: nat where
  init: "ring_run capacity [] (ring_system_init capacity)"
| step: "ring_run capacity evs s \<Longrightarrow> ring_step s ev s' \<Longrightarrow> ring_run capacity (evs @ ev) s'"

fun claimed_by :: "'a ring_event \<Rightarrow> 'a list" where
  "claimed_by (Claimed v) = [v]"
| "claimed_by _ = []"

fun popped_by :: "'a ring_event \<Rightarrow> 'a list" where
  "popped_by (Popped v) = [v]"
| "popped_by _ = []"

definition claims :: "'a ring_event list \<Rightarrow> 'a list" where
  "claims evs = concat (map claimed_by evs)"

definition pops :: "'a ring_event list \<Rightarrow> 'a list" where
  "pops evs = concat (map popped_by evs)"

lemma ring_history [simp]:
  "claims [] = []" "claims (xs @ ys) = claims xs @ claims ys"
  "claims (x # xs) = claimed_by x @ claims xs"
  "pops [] = []" "pops (xs @ ys) = pops xs @ pops ys" "pops (x # xs) = popped_by x @ pops xs"
  by (simp_all add: claims_def pops_def)

section \<open>The invariant\<close>

text \<open>Positions below \<open>2 ^ 63\<close> behave like natural numbers.\<close>

lemma small_positions [simp]:
  "n < 2 ^ 63 \<Longrightarrow> inc64 n = n + 1" "n < 2 ^ 63 \<Longrightarrow> intptr n = int n"
  "m + n < 2 ^ 63 \<Longrightarrow> add64 m n = m + n"
  by (simp_all add: inc64_def intptr_def add64_def)

lemma mod_window:
  assumes "p mod n = q mod n" "d \<le> p" "p < d + n" "d \<le> q" "q < d + (n :: nat)"
  shows "p = q"
proof -
  have "p - q < n" "q - p < n" using assms by auto
  then show ?thesis
    using assms(1) by (metis diff_diff_cancel diff_is_0_eq linorder_le_cases mod_eq_dvd_iff_nat
        nat_dvd_not_less not_gr_zero diff_zero zero_less_diff le_antisym)
qed

text \<open>
  The first position whose cell the consumer has not handed back, and the cell
  a position lives in.
\<close>

definition freed :: "'a ring_system \<Rightarrow> nat" where
  "freed s =
     (case rs_consumer s of
        PopMove pos \<Rightarrow> pos | PopRelease pos _ \<Rightarrow> pos | _ \<Rightarrow> rg_dequeue_pos (rs_ring s))"

fun push_holds :: "'a push_pc \<Rightarrow> nat option" where
  "push_holds (PushStore _ pos) = Some pos"
| "push_holds (PushPublish pos) = Some pos"
| "push_holds _ = None"

text \<open>The cells: the window of \<open>m_cap\<close> positions from \<open>f\<close> on, with the claimed values \<open>g\<close>.\<close>

definition cells_inv :: "'a list \<Rightarrow> nat \<Rightarrow> 'a ring \<Rightarrow> bool" where
  "cells_inv g f r =
     (2 \<le> rg_cap r \<and> rg_enqueue_pos r + rg_cap r < 2 ^ 63 \<and> length g = rg_enqueue_pos r \<and>
      f \<le> rg_dequeue_pos r \<and> rg_dequeue_pos r \<le> rg_enqueue_pos r \<and>
      rg_enqueue_pos r \<le> f + rg_cap r \<and>
      (\<forall>p. f \<le> p \<and> p < rg_enqueue_pos r \<longrightarrow>
         rg_seq r (p mod rg_cap r) = p \<or>
         rg_seq r (p mod rg_cap r) = p + 1 \<and>
           (rg_dequeue_pos r \<le> p \<longrightarrow> rg_val r (p mod rg_cap r) = Some (g ! p))) \<and>
      (\<forall>p. rg_enqueue_pos r \<le> p \<and> p < f + rg_cap r \<longrightarrow> rg_seq r (p mod rg_cap r) = p))"

fun push_inv :: "'a list \<Rightarrow> nat \<Rightarrow> 'a ring \<Rightarrow> 'a push_pc \<Rightarrow> bool" where
  "push_inv g f r (PushCheck v pos) = (pos \<le> rg_enqueue_pos r)"
| "push_inv g f r (PushCas v pos) = (pos \<le> rg_enqueue_pos r \<and> pos < f + rg_cap r)"
| "push_inv g f r (PushStore v pos) =
     (rg_dequeue_pos r \<le> pos \<and> pos < rg_enqueue_pos r \<and> rg_seq r (pos mod rg_cap r) = pos \<and>
      g ! pos = v)"
| "push_inv g f r (PushPublish pos) =
     (rg_dequeue_pos r \<le> pos \<and> pos < rg_enqueue_pos r \<and> rg_seq r (pos mod rg_cap r) = pos \<and>
      rg_val r (pos mod rg_cap r) = Some (g ! pos))"
| "push_inv g f r _ = True"

text \<open>Positions claimed and not yet published belong to exactly one producer.\<close>

definition owners_inv :: "nat \<Rightarrow> 'a ring \<Rightarrow> (nat \<Rightarrow> 'a push_pc) \<Rightarrow> bool" where
  "owners_inv f r ps =
     ((\<forall>q q' p. push_holds (ps q) = Some p \<and> push_holds (ps q') = Some p \<longrightarrow> q = q') \<and>
      (\<forall>p. f \<le> p \<and> p < rg_enqueue_pos r \<and> rg_seq r (p mod rg_cap r) = p \<longrightarrow>
         (\<exists>q. push_holds (ps q) = Some p)))"

fun pop_inv :: "'a list \<Rightarrow> 'a ring \<Rightarrow> 'a pop_pc \<Rightarrow> bool" where
  "pop_inv g r (PopCheck pos) = (pos = rg_dequeue_pos r)"
| "pop_inv g r (PopCas pos) =
     (pos = rg_dequeue_pos r \<and> pos < rg_enqueue_pos r \<and> rg_seq r (pos mod rg_cap r) = pos + 1)"
| "pop_inv g r (PopMove pos) =
     (rg_dequeue_pos r = pos + 1 \<and> rg_seq r (pos mod rg_cap r) = pos + 1 \<and>
      rg_val r (pos mod rg_cap r) = Some (g ! pos))"
| "pop_inv g r (PopRelease pos v) =
     (rg_dequeue_pos r = pos + 1 \<and> rg_seq r (pos mod rg_cap r) = pos + 1 \<and> v = g ! pos)"
| "pop_inv g r _ = True"

fun popped_count :: "'a ring \<Rightarrow> 'a pop_pc \<Rightarrow> nat" where
  "popped_count r (PopMove pos) = pos"
| "popped_count r _ = rg_dequeue_pos r"

definition ring_inv :: "'a list \<Rightarrow> 'a list \<Rightarrow> 'a ring_system \<Rightarrow> bool" where
  "ring_inv g out s =
     (cells_inv g (freed s) (rs_ring s) \<and>
      (\<forall>q. push_inv g (freed s) (rs_ring s) (rs_producers s q)) \<and>
      owners_inv (freed s) (rs_ring s) (rs_producers s) \<and>
      pop_inv g (rs_ring s) (rs_consumer s) \<and>
      out = take (popped_count (rs_ring s) (rs_consumer s)) g)"

lemma window_cells:
  assumes "cells_inv g f r" "f \<le> p" "p < f + rg_cap r" "f \<le> q" "q < f + rg_cap r"
  shows "p mod rg_cap r = q mod rg_cap r \<longleftrightarrow> p = q"
  using mod_window [of p "rg_cap r" q f] assms by auto

lemma cells_bounds:
  assumes "cells_inv g f r"
  shows "2 \<le> rg_cap r" "rg_enqueue_pos r + rg_cap r < 2 ^ 63" "length g = rg_enqueue_pos r"
    "f \<le> rg_dequeue_pos r" "rg_dequeue_pos r \<le> rg_enqueue_pos r"
    "rg_enqueue_pos r \<le> f + rg_cap r"
  using assms by (simp_all add: cells_inv_def)

lemma cells_seq:
  assumes "cells_inv g f r"
  shows "f \<le> p \<Longrightarrow> p < rg_enqueue_pos r \<Longrightarrow>
           rg_seq r (p mod rg_cap r) = p \<or> rg_seq r (p mod rg_cap r) = p + 1"
    and "rg_enqueue_pos r \<le> p \<Longrightarrow> p < f + rg_cap r \<Longrightarrow> rg_seq r (p mod rg_cap r) = p"
    and "rg_dequeue_pos r \<le> p \<Longrightarrow> p < rg_enqueue_pos r \<Longrightarrow>
           rg_seq r (p mod rg_cap r) = p + 1 \<Longrightarrow> rg_val r (p mod rg_cap r) = Some (g ! p)"
proof -
  note inv = assms [unfolded cells_inv_def]
  show "f \<le> p \<Longrightarrow> p < rg_enqueue_pos r \<Longrightarrow>
      rg_seq r (p mod rg_cap r) = p \<or> rg_seq r (p mod rg_cap r) = p + 1"
    using inv by blast
  show "rg_enqueue_pos r \<le> p \<Longrightarrow> p < f + rg_cap r \<Longrightarrow> rg_seq r (p mod rg_cap r) = p"
    using inv by blast
  assume p: "rg_dequeue_pos r \<le> p" "p < rg_enqueue_pos r" "rg_seq r (p mod rg_cap r) = p + 1"
  then have "f \<le> p" using inv by linarith
  with p inv show "rg_val r (p mod rg_cap r) = Some (g ! p)"
    by (metis n_not_Suc_n Suc_eq_plus1)
qed

lemma cells_invI:
  assumes "2 \<le> rg_cap r" "rg_enqueue_pos r + rg_cap r < 2 ^ 63" "length g = rg_enqueue_pos r"
    "f \<le> rg_dequeue_pos r" "rg_dequeue_pos r \<le> rg_enqueue_pos r"
    "rg_enqueue_pos r \<le> f + rg_cap r"
    and "\<And>p. f \<le> p \<Longrightarrow> p < rg_enqueue_pos r \<Longrightarrow>
           rg_seq r (p mod rg_cap r) = p \<or> rg_seq r (p mod rg_cap r) = p + 1"
    and "\<And>p. rg_enqueue_pos r \<le> p \<Longrightarrow> p < f + rg_cap r \<Longrightarrow> rg_seq r (p mod rg_cap r) = p"
    and "\<And>p. rg_dequeue_pos r \<le> p \<Longrightarrow> p < rg_enqueue_pos r \<Longrightarrow>
           rg_seq r (p mod rg_cap r) = p + 1 \<Longrightarrow> rg_val r (p mod rg_cap r) = Some (g ! p)"
  shows "cells_inv g f r"
  unfolding cells_inv_def using assms by blast

text \<open>Every cell is in the window at exactly one position.\<close>

lemma cell_position:
  assumes "cells_inv g f r"
  obtains p where "f \<le> p" "p < f + rg_cap r" "p mod rg_cap r = pos mod rg_cap r"
    "rg_seq r (pos mod rg_cap r) = p \<or> rg_seq r (pos mod rg_cap r) = p + 1"
proof -
  let ?c = "rg_cap r"
  have c: "2 \<le> ?c" using assms by (rule cells_bounds)
  define p where "p = f + (pos + ?c * f - f) mod ?c"
  have p: "f \<le> p" "p < f + ?c" using c by (auto simp: p_def)
  have "p mod ?c = (f + (pos + ?c * f - f)) mod ?c" by (simp add: p_def mod_add_right_eq)
  also have "f + (pos + ?c * f - f) = pos + ?c * f" using c by (simp add: trans_le_add2)
  finally have mod: "p mod ?c = pos mod ?c" by simp
  have "rg_seq r (p mod ?c) = p \<or> rg_seq r (p mod ?c) = p + 1"
    using cells_seq(1,2) [OF assms, of p] p by (cases "p < rg_enqueue_pos r") auto
  with p mod show thesis by (intro that [of p]) auto
qed

lemma cells_seq_small:
  assumes "cells_inv g f r"
  shows "rg_seq r (pos mod rg_cap r) < 2 ^ 63"
proof -
  obtain p where "p < f + rg_cap r"
    "rg_seq r (pos mod rg_cap r) = p \<or> rg_seq r (pos mod rg_cap r) = p + 1"
    using cell_position [OF assms, of pos] by metis
  then have "rg_seq r (pos mod rg_cap r) \<le> f + rg_cap r" by auto
  also have "\<dots> \<le> rg_enqueue_pos r + rg_cap r" using cells_bounds(4,5) [OF assms] by simp
  also have "\<dots> < 2 ^ 63" by (rule cells_bounds(2) [OF assms])
  finally show ?thesis .
qed

text \<open>A cell whose sequence number equals a position is in the window at that position.\<close>

lemma seq_in_window:
  assumes "cells_inv g f r" "rg_seq r (pos mod rg_cap r) = pos"
  shows "f \<le> pos \<and> pos < f + rg_cap r"
proof -
  obtain p where p: "f \<le> p" "p < f + rg_cap r" "p mod rg_cap r = pos mod rg_cap r"
    "pos = p \<or> pos = p + 1"
    using cell_position [OF assms(1), of pos] assms(2) by metis
  moreover have "pos \<noteq> p + 1"
  proof
    assume "pos = p + 1"
    with p(3) have "p mod rg_cap r = Suc p mod rg_cap r" by simp
    then show False using cells_bounds(1) [OF assms(1)] by (simp add: mod_Suc split: if_splits)
  qed
  ultimately show ?thesis by blast
qed

text \<open>A sequence number behind a position means that the window ends before it: the ring is full.\<close>

lemma seq_behind_full:
  assumes "cells_inv g f r" "rg_seq r (pos mod rg_cap r) < pos" "pos \<le> rg_enqueue_pos r"
  shows "rg_enqueue_pos r = f + rg_cap r"
proof (rule ccontr)
  assume "rg_enqueue_pos r \<noteq> f + rg_cap r"
  with cells_bounds(6) [OF assms(1)] assms(3) have "pos < f + rg_cap r" by simp
  obtain p where p: "f \<le> p" "p < f + rg_cap r" "p mod rg_cap r = pos mod rg_cap r"
    "rg_seq r (pos mod rg_cap r) = p \<or> rg_seq r (pos mod rg_cap r) = p + 1"
    using cell_position [OF assms(1), of pos] by metis
  then have "p < pos" using assms(2) by auto
  then have "p = pos"
    using window_cells [OF assms(1) p(1,2), of pos] p \<open>pos < f + rg_cap r\<close> by auto
  with \<open>p < pos\<close> show False by simp
qed

subsection \<open>The steps of a producer\<close>

text \<open>Claiming the next position.\<close>

lemma cells_claim:
  assumes "cells_inv g f r" "rg_enqueue_pos r < f + rg_cap r"
    and "rg_enqueue_pos r + 1 + rg_cap r < 2 ^ 63"
  shows "cells_inv (g @ [v]) f (r\<lparr>rg_enqueue_pos := rg_enqueue_pos r + 1\<rparr>)"
proof (rule cells_invI)
  show "rg_seq (r\<lparr>rg_enqueue_pos := rg_enqueue_pos r + 1\<rparr>) (p mod rg_cap (r\<lparr>rg_enqueue_pos := rg_enqueue_pos r + 1\<rparr>)) = p
      \<or> rg_seq (r\<lparr>rg_enqueue_pos := rg_enqueue_pos r + 1\<rparr>) (p mod rg_cap (r\<lparr>rg_enqueue_pos := rg_enqueue_pos r + 1\<rparr>)) = p + 1"
    if "f \<le> p" "p < rg_enqueue_pos (r\<lparr>rg_enqueue_pos := rg_enqueue_pos r + 1\<rparr>)" for p
    using that cells_seq(1,2) [OF assms(1), of p] assms(2)
    by (cases "p < rg_enqueue_pos r") auto
next
  fix p
  assume p: "rg_dequeue_pos (r\<lparr>rg_enqueue_pos := rg_enqueue_pos r + 1\<rparr>) \<le> p"
    "p < rg_enqueue_pos (r\<lparr>rg_enqueue_pos := rg_enqueue_pos r + 1\<rparr>)"
    "rg_seq (r\<lparr>rg_enqueue_pos := rg_enqueue_pos r + 1\<rparr>)
       (p mod rg_cap (r\<lparr>rg_enqueue_pos := rg_enqueue_pos r + 1\<rparr>)) = p + 1"
  then have "p < rg_enqueue_pos r"
    using cells_seq(2) [OF assms(1), of p] assms(2) by (cases "p = rg_enqueue_pos r") auto
  with p cells_seq(3) [OF assms(1), of p] cells_bounds(3) [OF assms(1)]
  show "rg_val (r\<lparr>rg_enqueue_pos := rg_enqueue_pos r + 1\<rparr>)
      (p mod rg_cap (r\<lparr>rg_enqueue_pos := rg_enqueue_pos r + 1\<rparr>)) = Some ((g @ [v]) ! p)"
    by (simp add: nth_append)
qed (use cells_bounds [OF assms(1)] cells_seq(2) [OF assms(1)] assms in auto)

text \<open>Storing a value in the cell of a claimed position.\<close>

lemma cells_store:
  assumes "cells_inv g f r" "f \<le> pos" "pos < rg_enqueue_pos r" "rg_seq r (pos mod rg_cap r) = pos"
  shows "cells_inv g f (r\<lparr>rg_val := (rg_val r)(pos mod rg_cap r := x)\<rparr>)"
proof (rule cells_invI)
  fix p
  let ?r = "r\<lparr>rg_val := (rg_val r)(pos mod rg_cap r := x)\<rparr>"
  assume p: "rg_dequeue_pos ?r \<le> p" "p < rg_enqueue_pos ?r" "rg_seq ?r (p mod rg_cap ?r) = p + 1"
  then have "p mod rg_cap r \<noteq> pos mod rg_cap r"
    using assms(4) window_cells [OF assms(1), of p pos] cells_bounds [OF assms(1)] assms(2,3)
    by auto
  with p cells_seq(3) [OF assms(1), of p] show "rg_val ?r (p mod rg_cap ?r) = Some (g ! p)"
    by simp
qed (use cells_bounds [OF assms(1)] cells_seq(1,2) [OF assms(1)] in auto)

text \<open>Publishing it.\<close>

lemma cells_publish:
  assumes "cells_inv g f r" "f \<le> pos" "pos < rg_enqueue_pos r"
    and "rg_val r (pos mod rg_cap r) = Some (g ! pos)"
  shows "cells_inv g f (r\<lparr>rg_seq := (rg_seq r)(pos mod rg_cap r := pos + 1)\<rparr>)"
proof -
  have same: "p mod rg_cap r = pos mod rg_cap r \<longleftrightarrow> p = pos" if "f \<le> p" "p < f + rg_cap r" for p
    using window_cells [OF assms(1), of p pos] assms(2,3) cells_bounds(6) [OF assms(1)] that by auto
  show ?thesis
  proof (rule cells_invI)
    fix p
    let ?r = "r\<lparr>rg_seq := (rg_seq r)(pos mod rg_cap r := pos + 1)\<rparr>"
    show "rg_seq ?r (p mod rg_cap ?r) = p \<or> rg_seq ?r (p mod rg_cap ?r) = p + 1"
      if "f \<le> p" "p < rg_enqueue_pos ?r"
      using that same [of p] cells_seq(1) [OF assms(1), of p] cells_bounds(6) [OF assms(1)] by auto
    show "rg_seq ?r (p mod rg_cap ?r) = p" if "rg_enqueue_pos ?r \<le> p" "p < f + rg_cap ?r"
      using that same [of p] cells_seq(2) [OF assms(1), of p] assms(2,3) by auto
    show "rg_val ?r (p mod rg_cap ?r) = Some (g ! p)"
      if "rg_dequeue_pos ?r \<le> p" "p < rg_enqueue_pos ?r" "rg_seq ?r (p mod rg_cap ?r) = p + 1"
      using that same [of p] cells_seq(3) [OF assms(1), of p] assms(4)
        cells_bounds(4,6) [OF assms(1)] by (cases "p = pos") auto
  qed (use cells_bounds [OF assms(1)] in auto)
qed

subsection \<open>The steps of the consumer\<close>

lemma cells_take:
  assumes "cells_inv g (rg_dequeue_pos r) r" "rg_dequeue_pos r < rg_enqueue_pos r"
  shows "cells_inv g (rg_dequeue_pos r) (r\<lparr>rg_dequeue_pos := rg_dequeue_pos r + 1\<rparr>)"
  by (rule cells_invI)
     (use cells_bounds [OF assms(1)] cells_seq [OF assms(1)] assms(2) in auto)

lemma cells_move:
  assumes "cells_inv g pos r" "rg_dequeue_pos r = pos + 1"
  shows "cells_inv g pos (r\<lparr>rg_val := (rg_val r)(pos mod rg_cap r := x)\<rparr>)"
proof (rule cells_invI)
  fix p
  let ?r = "r\<lparr>rg_val := (rg_val r)(pos mod rg_cap r := x)\<rparr>"
  assume p: "rg_dequeue_pos ?r \<le> p" "p < rg_enqueue_pos ?r" "rg_seq ?r (p mod rg_cap ?r) = p + 1"
  then have "p mod rg_cap r \<noteq> pos mod rg_cap r"
    using window_cells [OF assms(1), of p pos] cells_bounds [OF assms(1)] assms(2) by auto
  with p cells_seq(3) [OF assms(1), of p] show "rg_val ?r (p mod rg_cap ?r) = Some (g ! p)"
    by simp
qed (use cells_bounds [OF assms(1)] cells_seq(1,2) [OF assms(1)] in auto)

lemma cells_release:
  assumes "cells_inv g pos r" "rg_dequeue_pos r = pos + 1"
  shows "cells_inv g (pos + 1) (r\<lparr>rg_seq := (rg_seq r)(pos mod rg_cap r := pos + rg_cap r)\<rparr>)"
proof -
  note B = cells_bounds [OF assms(1)]
  have same: "p mod rg_cap r = pos mod rg_cap r \<longleftrightarrow> p = pos + rg_cap r"
    if "pos + 1 \<le> p" "p < pos + 1 + rg_cap r" for p
    using mod_window [of p "rg_cap r" "pos + rg_cap r" "pos + 1"] B(1) that by auto
  show ?thesis
  proof (rule cells_invI)
    fix p
    let ?r = "r\<lparr>rg_seq := (rg_seq r)(pos mod rg_cap r := pos + rg_cap r)\<rparr>"
    show "rg_seq ?r (p mod rg_cap ?r) = p \<or> rg_seq ?r (p mod rg_cap ?r) = p + 1"
      if "pos + 1 \<le> p" "p < rg_enqueue_pos ?r"
      using that same [of p] cells_seq(1) [OF assms(1), of p] B(6) by auto
    show "rg_seq ?r (p mod rg_cap ?r) = p" if "rg_enqueue_pos ?r \<le> p" "p < pos + 1 + rg_cap ?r"
      using that same [of p] cells_seq(2) [OF assms(1), of p] B(5) assms(2) by auto
    show "rg_val ?r (p mod rg_cap ?r) = Some (g ! p)"
      if "rg_dequeue_pos ?r \<le> p" "p < rg_enqueue_pos ?r" "rg_seq ?r (p mod rg_cap ?r) = p + 1"
      using that same [of p] cells_seq(3) [OF assms(1), of p] B(6) assms(2) by auto
  qed (use B assms(2) in auto)
qed

end
