(* ===== verification/MpscRingProps.thy ===== *)
theory MpscRingProps
  imports MpscRing
begin

text \<open>
  The ring of \<open>detail/MpscRingAny.hpp\<close> refines a bounded FIFO queue: each atomic
  action keeps the invariant, so that under every interleaving values leave in
  the order in which their positions were claimed.
\<close>

section \<open>Every atomic action keeps the invariant\<close>

lemma freed_upd [simp]:
  "freed (s\<lparr>rs_producers := ps\<rparr>) = freed s"
  "freed (s\<lparr>rs_ring := r\<rparr>) = (case rs_consumer s of PopMove pos \<Rightarrow> pos | PopRelease pos _ \<Rightarrow> pos
     | _ \<Rightarrow> rg_dequeue_pos r)"
  by (simp_all add: freed_def split: pop_pc.split)

lemma ring_invI:
  assumes "cells_inv g (freed s) (rs_ring s)"
    and "\<And>q. push_inv g (freed s) (rs_ring s) (rs_producers s q)"
    and "owners_inv (freed s) (rs_ring s) (rs_producers s)"
    and "pop_inv g (rs_ring s) (rs_consumer s)"
    and "out = take (popped_count (rs_ring s) (rs_consumer s)) g"
  shows "ring_inv g out s"
  using assms by (simp add: ring_inv_def)

lemma ring_invD:
  assumes "ring_inv g out s"
  shows "cells_inv g (freed s) (rs_ring s)"
    "push_inv g (freed s) (rs_ring s) (rs_producers s q)"
    "owners_inv (freed s) (rs_ring s) (rs_producers s)"
    "pop_inv g (rs_ring s) (rs_consumer s)"
    "out = take (popped_count (rs_ring s) (rs_consumer s)) g"
  using assms by (simp_all add: ring_inv_def)

lemma freed_same:
  "rg_dequeue_pos r = rg_dequeue_pos (rs_ring s) \<Longrightarrow> freed (s\<lparr>rs_ring := r, rs_producers := ps\<rparr>) = freed s"
  by (simp add: freed_def split: pop_pc.split)

lemma popped_same:
  "rg_dequeue_pos r = rg_dequeue_pos r' \<Longrightarrow> popped_count r c = popped_count r' c"
  by (cases c) simp_all

text \<open>A step of producer \<open>q\<close> that only moves its program counter.\<close>

lemma ring_inv_push_pc:
  assumes "ring_inv g out s" "push_inv g (freed s) (rs_ring s) pc'"
    and "push_holds (rs_producers s q) = None" "push_holds pc' = None"
  shows "ring_inv g out (s\<lparr>rs_producers := (rs_producers s)(q := pc')\<rparr>)"
proof (rule ring_invI)
  note inv = ring_invD [OF assms(1)]
  show "owners_inv (freed (s\<lparr>rs_producers := (rs_producers s)(q := pc')\<rparr>))
      (rs_ring (s\<lparr>rs_producers := (rs_producers s)(q := pc')\<rparr>))
      (rs_producers (s\<lparr>rs_producers := (rs_producers s)(q := pc')\<rparr>))"
    using inv(3) assms(3,4) unfolding owners_inv_def by simp (metis option.distinct(1))
qed (use ring_invD [OF assms(1)] assms(2) in auto)

lemma ring_inv_claim:
  assumes inv: "ring_inv g out s" and pc: "rs_producers s q = PushCas v pos"
    and pos: "pos = rg_enqueue_pos (rs_ring s)"
    and bound: "pos + 1 + rg_cap (rs_ring s) < 2 ^ 63"
  shows "ring_inv (g @ [v]) out
    (s\<lparr>rs_ring := (rs_ring s)\<lparr>rg_enqueue_pos := pos + 1\<rparr>,
       rs_producers := (rs_producers s)(q := PushStore v pos)\<rparr>)"
    (is "ring_inv _ _ ?s")
proof (rule ring_invI)
  let ?r = "rs_ring s" and ?f = "freed s"
  note I = ring_invD [OF inv] and C = ring_invD(1) [OF inv]
  have f: "freed ?s = ?f" by (rule freed_same) simp
  have lt: "pos < ?f + rg_cap ?r" using I(2) [of q] pc by simp
  have len: "length g = pos" using cells_bounds(3) [OF C] pos by simp
  have D: "rg_dequeue_pos ?r \<le> pos" using cells_bounds(5) [OF C] pos by simp
  have seq: "rg_seq ?r (pos mod rg_cap ?r) = pos" using cells_seq(2) [OF C, of pos] lt pos by simp
  show "cells_inv (g @ [v]) (freed ?s) (rs_ring ?s)"
    using cells_claim [OF C, of v] lt bound pos f by simp
  show "push_inv (g @ [v]) (freed ?s) (rs_ring ?s) (rs_producers ?s k)" for k
    using I(2) [of k] len pos D seq f
    by (cases "k = q"; cases "rs_producers s k") (auto simp: nth_append)
  have below: "push_holds (rs_producers s k) = Some p \<Longrightarrow> p < pos" for k p
    using I(2) [of k] pos by (cases "rs_producers s k") auto
  show "owners_inv (freed ?s) (rs_ring ?s) (rs_producers ?s)"
    unfolding owners_inv_def f
  proof (intro conjI allI impI)
    fix k k' p
    assume "push_holds (rs_producers ?s k) = Some p \<and> push_holds (rs_producers ?s k') = Some p"
    then show "k = k'"
      using I(3) below [of k p] below [of k' p] unfolding owners_inv_def
      by (cases "k = q"; cases "k' = q") auto
  next
    fix p
    assume p: "?f \<le> p \<and> p < rg_enqueue_pos (rs_ring ?s) \<and>
      rg_seq (rs_ring ?s) (p mod rg_cap (rs_ring ?s)) = p"
    show "\<exists>k. push_holds (rs_producers ?s k) = Some p"
    proof (cases "p = pos")
      case True
      then show ?thesis by (intro exI [of _ q]) simp
    next
      case False
      with p pos obtain k where k: "push_holds (rs_producers s k) = Some p"
        using I(3) unfolding owners_inv_def by auto
      with pc have "k \<noteq> q" by auto
      with k show ?thesis by (intro exI [of _ k]) simp
    qed
  qed
  show "pop_inv (g @ [v]) (rs_ring ?s) (rs_consumer ?s)"
    using I(4) cells_bounds(5) [OF C] len pos
    by (cases "rs_consumer s") (auto simp: nth_append)
  show "out = take (popped_count (rs_ring ?s) (rs_consumer ?s)) (g @ [v])"
    using I(4,5) D len by (cases "rs_consumer s") auto
qed
text \<open>Storing and publishing by the owner of a position.\<close>

lemma ring_inv_held:
  assumes inv: "ring_inv g out s" and h: "push_holds (rs_producers s q) = Some pos"
  shows "freed s \<le> pos" "pos < rg_enqueue_pos (rs_ring s)" "rg_dequeue_pos (rs_ring s) \<le> pos"
    "rg_seq (rs_ring s) (pos mod rg_cap (rs_ring s)) = pos"
  using ring_invD(2) [OF inv, of q] h cells_bounds(4) [OF ring_invD(1) [OF inv]]
  by (cases "rs_producers s q"; auto)+

lemma ring_inv_other_cell:
  assumes inv: "ring_inv g out s" and h: "push_holds (rs_producers s q) = Some pos"
    and p: "freed s \<le> p" "p < rg_enqueue_pos (rs_ring s)" "p \<noteq> pos"
  shows "p mod rg_cap (rs_ring s) \<noteq> pos mod rg_cap (rs_ring s)"
  using window_cells [OF ring_invD(1) [OF inv], of p pos] p ring_inv_held [OF inv h]
    cells_bounds(6) [OF ring_invD(1) [OF inv]] by auto

lemma ring_inv_others:
  assumes inv: "ring_inv g out s" and h: "push_holds (rs_producers s q) = Some pos"
    and k: "push_holds (rs_producers s k) = Some p" "k \<noteq> q"
  shows "p mod rg_cap (rs_ring s) \<noteq> pos mod rg_cap (rs_ring s)"
proof (rule ring_inv_other_cell [OF inv h])
  show "p \<noteq> pos" using ring_invD(3) [OF inv] h k unfolding owners_inv_def by blast
qed (use ring_inv_held [OF inv k(1)] in auto)

lemma ring_inv_moving:
  assumes inv: "ring_inv g out s" and h: "push_holds (rs_producers s q) = Some pos"
    and c: "rs_consumer s = PopMove p \<or> rs_consumer s = PopRelease p v"
  shows "p mod rg_cap (rs_ring s) \<noteq> pos mod rg_cap (rs_ring s)"
proof (rule ring_inv_other_cell [OF inv h])
  show "freed s \<le> p" using c by (auto simp: freed_def)
  show "p < rg_enqueue_pos (rs_ring s)" "p \<noteq> pos"
    using c ring_invD(4) [OF inv] cells_bounds(5) [OF ring_invD(1) [OF inv]]
      ring_inv_held(3) [OF inv h] by auto
qed

lemma ring_inv_store:
  assumes inv: "ring_inv g out s" and pc: "rs_producers s q = PushStore v pos"
  shows "ring_inv g out
    (s\<lparr>rs_ring := (rs_ring s)\<lparr>rg_val := (rg_val (rs_ring s))(pos mod rg_cap (rs_ring s) := Some v)\<rparr>,
       rs_producers := (rs_producers s)(q := PushPublish pos)\<rparr>)"
    (is "ring_inv _ _ ?s")
proof (rule ring_invI)
  let ?r = "rs_ring s"
  note I = ring_invD [OF inv] and C = ring_invD(1) [OF inv]
  have h: "push_holds (rs_producers s q) = Some pos" by (simp add: pc)
  note H = ring_inv_held [OF inv h]
  have f: "freed ?s = freed s" by (rule freed_same) simp
  have v: "g ! pos = v" using I(2) [of q] pc by simp
  show "cells_inv g (freed ?s) (rs_ring ?s)"
    using cells_store [OF C H(1,2,4), of "Some v"] f by simp
  show "push_inv g (freed ?s) (rs_ring ?s) (rs_producers ?s k)" for k
    using I(2) [of k] H v f ring_inv_others [OF inv h, of k]
    by (cases "k = q"; cases "rs_producers s k") auto
  show "owners_inv (freed ?s) (rs_ring ?s) (rs_producers ?s)"
  proof -
    have "push_holds (rs_producers ?s k) = push_holds (rs_producers s k)" for k by (simp add: pc)
    then show ?thesis using I(3) unfolding owners_inv_def f by simp
  qed
  show "pop_inv g (rs_ring ?s) (rs_consumer ?s)"
    using I(4) ring_inv_moving [OF inv h] by (cases "rs_consumer s") auto
  show "out = take (popped_count (rs_ring ?s) (rs_consumer ?s)) g"
    using I(5) popped_same [of "rs_ring ?s" ?r "rs_consumer s"] by simp
qed

lemma ring_inv_publish:
  assumes inv: "ring_inv g out s" and pc: "rs_producers s q = PushPublish pos"
  shows "ring_inv g out
    (s\<lparr>rs_ring := (rs_ring s)\<lparr>rg_seq := (rg_seq (rs_ring s))(pos mod rg_cap (rs_ring s) := pos + 1)\<rparr>,
       rs_producers := (rs_producers s)(q := PushReturn True)\<rparr>)"
    (is "ring_inv _ _ ?s")
proof (rule ring_invI)
  let ?r = "rs_ring s"
  note I = ring_invD [OF inv] and C = ring_invD(1) [OF inv]
  have h: "push_holds (rs_producers s q) = Some pos" by (simp add: pc)
  note H = ring_inv_held [OF inv h]
  have f: "freed ?s = freed s" by (rule freed_same) simp
  have v: "rg_val ?r (pos mod rg_cap ?r) = Some (g ! pos)" using I(2) [of q] pc by simp
  show "cells_inv g (freed ?s) (rs_ring ?s)"
    using cells_publish [OF C H(1,2) v] f by simp
  show "push_inv g (freed ?s) (rs_ring ?s) (rs_producers ?s k)" for k
    using I(2) [of k] H v f ring_inv_others [OF inv h, of k]
    by (cases "k = q"; cases "rs_producers s k") auto
  show "owners_inv (freed ?s) (rs_ring ?s) (rs_producers ?s)"
    unfolding owners_inv_def f
  proof (intro conjI allI impI)
    fix k k' p
    assume "push_holds (rs_producers ?s k) = Some p \<and> push_holds (rs_producers ?s k') = Some p"
    then show "k = k'" using I(3) unfolding owners_inv_def by (auto split: if_splits)
  next
    fix p
    assume p: "freed s \<le> p \<and> p < rg_enqueue_pos (rs_ring ?s) \<and>
      rg_seq (rs_ring ?s) (p mod rg_cap (rs_ring ?s)) = p"
    then have "p \<noteq> pos" by auto
    moreover from this p ring_inv_other_cell [OF inv h, of p]
    have "rg_seq ?r (p mod rg_cap ?r) = p" by simp
    ultimately obtain k where k: "push_holds (rs_producers s k) = Some p"
      using I(3) p unfolding owners_inv_def by auto
    with h \<open>p \<noteq> pos\<close> have "k \<noteq> q" by auto
    with k show "\<exists>k. push_holds (rs_producers ?s k) = Some p" by (intro exI [of _ k]) simp
  qed
  show "pop_inv g (rs_ring ?s) (rs_consumer ?s)"
  proof (cases "rs_consumer s")
    case (PopCas p)
    then have p: "p = rg_dequeue_pos ?r" "p < rg_enqueue_pos ?r" "rg_seq ?r (p mod rg_cap ?r) = p + 1"
      using I(4) by auto
    moreover from p H(4) have "p \<noteq> pos" by auto
    moreover have "freed s \<le> p" using p(1) cells_bounds(4) [OF C] by simp
    ultimately show ?thesis
      using ring_inv_other_cell [OF inv h, of p] PopCas by simp
  qed (use I(4) ring_inv_moving [OF inv h] in auto)
  show "out = take (popped_count (rs_ring ?s) (rs_consumer ?s)) g"
    using I(5) popped_same [of "rs_ring ?s" ?r "rs_consumer s"] by simp
qed

text \<open>All actions of \<open>try_push\<close>.\<close>

lemma ring_inv_push:
  assumes inv: "ring_inv g out s"
    and act: "push_action spurious (rs_producers s q) (rs_ring s) = (pc', r')"
    and bound: "length (g @ claims (push_events (rs_producers s q) pc')) + rg_cap (rs_ring s) < 2 ^ 63"
  shows "ring_inv (g @ claims (push_events (rs_producers s q) pc')) out
    (s\<lparr>rs_ring := r', rs_producers := (rs_producers s)(q := pc')\<rparr>)"
proof (cases "rs_producers s q")
  case (PushLoad v)
  with act have "pc' = PushCheck v (rg_enqueue_pos (rs_ring s))" "r' = rs_ring s" by auto
  with ring_inv_push_pc [OF inv, of pc' q] PushLoad show ?thesis by (simp add: push_events_def)
next
  case (PushCheck v pos)
  note C = ring_invD(1) [OF inv]
  have pos: "pos \<le> rg_enqueue_pos (rs_ring s)" "pos < 2 ^ 63"
    using ring_invD(2) [OF inv, of q] PushCheck cells_bounds(2) [OF C] by auto
  note seq = cells_seq_small [OF C, of pos]
  have "r' = rs_ring s \<and> push_inv g (freed s) (rs_ring s) pc' \<and> push_holds pc' = None \<and>
      claims (push_events (rs_producers s q) pc') = []"
    using act PushCheck pos seq seq_in_window [OF C, of pos]
    by (auto simp: Let_def push_events_def split: if_splits)
  with ring_inv_push_pc [OF inv, of pc' q] PushCheck show ?thesis by simp
next
  case (PushCas v pos)
  show ?thesis
  proof (cases "rg_enqueue_pos (rs_ring s) = pos \<and> \<not> spurious")
    case True
    then have "pos < 2 ^ 63" using cells_bounds(2) [OF ring_invD(1) [OF inv]] by simp
    with True act PushCas
    have "pc' = PushStore v pos" "r' = (rs_ring s)\<lparr>rg_enqueue_pos := pos + 1\<rparr>" by auto
    moreover have "length g = pos"
      using cells_bounds(3) [OF ring_invD(1) [OF inv]] True by simp
    ultimately show ?thesis
      using ring_inv_claim [OF inv PushCas] True bound by (simp add: push_events_def)
  next
    case False
    with act PushCas have "pc' = PushCheck v (rg_enqueue_pos (rs_ring s))" "r' = rs_ring s" by auto
    with ring_inv_push_pc [OF inv, of pc' q] PushCas show ?thesis by (simp add: push_events_def)
  qed
next
  case (PushStore v pos)
  with act ring_inv_store [OF inv PushStore] show ?thesis by (auto simp: push_events_def)
next
  case (PushPublish pos)
  then have "pos < 2 ^ 63"
    using ring_inv_held(2) [OF inv, of q pos] cells_bounds(2) [OF ring_invD(1) [OF inv]] by simp
  with PushPublish act ring_inv_publish [OF inv PushPublish] show ?thesis
    by (auto simp: push_events_def)
next
  case (PushReturn b)
  with act have "pc' = PushReturn b" "r' = rs_ring s" by auto
  with inv PushReturn show ?thesis by (cases b) (simp_all add: push_events_def fun_upd_idem)
qed

subsection \<open>All actions of \<open>try_pop\<close>\<close>

lemma push_inv_ring:
  assumes "push_inv g f r pc" "rg_enqueue_pos r' = rg_enqueue_pos r" "rg_cap r' = rg_cap r" "f \<le> f'"
    and "\<And>pos. push_holds pc = Some pos \<Longrightarrow> rg_dequeue_pos r' \<le> pos \<and>
           rg_seq r' (pos mod rg_cap r) = rg_seq r (pos mod rg_cap r) \<and>
           rg_val r' (pos mod rg_cap r) = rg_val r (pos mod rg_cap r)"
  shows "push_inv g f' r' pc"
  using assms by (cases pc) auto

lemma ring_inv_pop_idle:
  assumes inv: "ring_inv g out s" and pc: "pop_inv g (rs_ring s) pc'"
    and "freed (s\<lparr>rs_consumer := pc'\<rparr>) = freed s"
    and "popped_count (rs_ring s) pc' = popped_count (rs_ring s) (rs_consumer s)"
  shows "ring_inv g out (s\<lparr>rs_consumer := pc'\<rparr>)"
  using ring_invD [OF inv] assms(2-4) by (intro ring_invI) auto

lemma ring_inv_take:
  assumes inv: "ring_inv g out s" and pc: "rs_consumer s = PopCas pos"
  shows "ring_inv g out
    (s\<lparr>rs_ring := (rs_ring s)\<lparr>rg_dequeue_pos := pos + 1\<rparr>, rs_consumer := PopMove pos\<rparr>)"
    (is "ring_inv _ _ ?s")
proof (rule ring_invI)
  note I = ring_invD [OF inv]
  let ?r = "rs_ring s"
  have pos: "pos = rg_dequeue_pos ?r" "pos < rg_enqueue_pos ?r" "rg_seq ?r (pos mod rg_cap ?r) = pos + 1"
    using I(4) pc by auto
  have f: "freed s = rg_dequeue_pos ?r" "freed ?s = rg_dequeue_pos ?r"
    using pc pos by (auto simp: freed_def)
  show "cells_inv g (freed ?s) (rs_ring ?s)"
    using cells_take [of g ?r] I(1) pos f by simp
  show "push_inv g (freed ?s) (rs_ring ?s) (rs_producers ?s k)" for k
  proof (rule push_inv_ring [of g "freed s" ?r])
    fix p
    assume "push_holds (rs_producers ?s k) = Some p"
    then have "push_holds (rs_producers s k) = Some p" by simp
    from ring_inv_held(3,4) [OF inv this] pos have "pos + 1 \<le> p" by (cases "p = pos") auto
    then show "rg_dequeue_pos (rs_ring ?s) \<le> p \<and>
        rg_seq (rs_ring ?s) (p mod rg_cap ?r) = rg_seq ?r (p mod rg_cap ?r) \<and>
        rg_val (rs_ring ?s) (p mod rg_cap ?r) = rg_val ?r (p mod rg_cap ?r)" by simp
  qed (use I(2) [of k] f in auto)
  show "owners_inv (freed ?s) (rs_ring ?s) (rs_producers ?s)"
    using I(3) f unfolding owners_inv_def by simp
  show "pop_inv g (rs_ring ?s) (rs_consumer ?s)"
    using pos cells_seq(3) [OF I(1), of pos] by simp
  show "out = take (popped_count (rs_ring ?s) (rs_consumer ?s)) g"
    using I(5) pc pos by simp
qed

lemma ring_inv_move:
  assumes inv: "ring_inv g out s" and pc: "rs_consumer s = PopMove pos"
  shows "ring_inv g (out @ [g ! pos])
    (s\<lparr>rs_ring := (rs_ring s)\<lparr>rg_val := (rg_val (rs_ring s))(pos mod rg_cap (rs_ring s) := None)\<rparr>,
       rs_consumer := PopRelease pos (g ! pos)\<rparr>)"
    (is "ring_inv _ _ ?s")
proof (rule ring_invI)
  note I = ring_invD [OF inv]
  let ?r = "rs_ring s"
  have pos: "rg_dequeue_pos ?r = pos + 1" "rg_seq ?r (pos mod rg_cap ?r) = pos + 1"
    using I(4) pc by auto
  have f: "freed s = pos" "freed ?s = pos" using pc by (auto simp: freed_def)
  have other: "p mod rg_cap ?r \<noteq> pos mod rg_cap ?r" if "push_holds (rs_producers s k) = Some p" for k p
    using ring_inv_moving [OF inv that, of pos] pc by auto
  show "cells_inv g (freed ?s) (rs_ring ?s)"
    using cells_move [of g pos ?r None] I(1) pos f by simp
  show "push_inv g (freed ?s) (rs_ring ?s) (rs_producers ?s k)" for k
    by (rule push_inv_ring [of g "freed s" ?r])
       (use I(2) [of k] f ring_inv_held(3) [OF inv, of k] other in auto)
  show "owners_inv (freed ?s) (rs_ring ?s) (rs_producers ?s)"
    using I(3) f unfolding owners_inv_def by simp
  show "pop_inv g (rs_ring ?s) (rs_consumer ?s)" using pos by simp
  have "pos < length g" using cells_bounds(3,5) [OF I(1)] pos by simp
  then show "out @ [g ! pos] = take (popped_count (rs_ring ?s) (rs_consumer ?s)) g"
    using I(5) pc pos by (simp add: take_Suc_conv_app_nth)
qed

lemma ring_inv_release:
  assumes inv: "ring_inv g out s" and pc: "rs_consumer s = PopRelease pos v"
  shows "ring_inv g out
    (s\<lparr>rs_ring := (rs_ring s)\<lparr>rg_seq := (rg_seq (rs_ring s))
        (pos mod rg_cap (rs_ring s) := pos + rg_cap (rs_ring s))\<rparr>,
       rs_consumer := PopReturn (Some v)\<rparr>)"
    (is "ring_inv _ _ ?s")
proof (rule ring_invI)
  note I = ring_invD [OF inv]
  let ?r = "rs_ring s"
  have pos: "rg_dequeue_pos ?r = pos + 1" using I(4) pc by auto
  have f: "freed s = pos" "freed ?s = pos + 1" using pc pos by (auto simp: freed_def)
  have other: "p mod rg_cap ?r \<noteq> pos mod rg_cap ?r" if "push_holds (rs_producers s k) = Some p" for k p
    using ring_inv_moving [OF inv that, of pos v] pc by auto
  show "cells_inv g (freed ?s) (rs_ring ?s)"
    using cells_release [of g pos ?r] I(1) pos f by simp
  show "push_inv g (freed ?s) (rs_ring ?s) (rs_producers ?s k)" for k
    by (rule push_inv_ring [of g "freed s" ?r])
       (use I(2) [of k] f ring_inv_held(3) [OF inv, of k] other in auto)
  show "owners_inv (freed ?s) (rs_ring ?s) (rs_producers ?s)"
    unfolding owners_inv_def f(2)
  proof (intro conjI allI impI)
    fix k k' p
    assume "push_holds (rs_producers ?s k) = Some p \<and> push_holds (rs_producers ?s k') = Some p"
    then show "k = k'" using I(3) unfolding owners_inv_def by auto
  next
    fix p
    assume p: "pos + 1 \<le> p \<and> p < rg_enqueue_pos (rs_ring ?s) \<and>
      rg_seq (rs_ring ?s) (p mod rg_cap (rs_ring ?s)) = p"
    then have "p mod rg_cap ?r \<noteq> pos mod rg_cap ?r"
      using window_cells [OF I(1), of p pos] cells_bounds(1,6) [OF I(1)] f by auto
    with p have "rg_seq ?r (p mod rg_cap ?r) = p" by simp
    with p I(3) f show "\<exists>k. push_holds (rs_producers ?s k) = Some p"
      unfolding owners_inv_def by auto
  qed
  show "pop_inv g (rs_ring ?s) (rs_consumer ?s)" by simp
  show "out = take (popped_count (rs_ring ?s) (rs_consumer ?s)) g"
    using I(5) pc pos by simp
qed

lemma ring_inv_pop:
  assumes inv: "ring_inv g out s"
    and act: "pop_action spurious (rs_consumer s) (rs_ring s) = (pc', r')"
    and busy: "\<And>res. rs_consumer s \<noteq> PopReturn res"
  shows "ring_inv g (out @ pops (pop_events (rs_consumer s) pc'))
    (s\<lparr>rs_ring := r', rs_consumer := pc'\<rparr>)"
proof (cases "rs_consumer s")
  case PopLoad
  with act have "pc' = PopCheck (rg_dequeue_pos (rs_ring s))" "r' = rs_ring s" by auto
  with ring_inv_pop_idle [OF inv, of pc'] PopLoad show ?thesis
    by (simp add: pop_events_def freed_def)
next
  case (PopCheck pos)
  note C = ring_invD(1) [OF inv]
  have pos: "pos = rg_dequeue_pos (rs_ring s)" "pos + 1 < 2 ^ 63" "freed s = pos"
    using ring_invD(4) [OF inv] PopCheck cells_bounds(1,2,5) [OF C] by (auto simp: freed_def)
  note seq = cells_seq_small [OF C, of pos]
  have lt: "pos < rg_enqueue_pos (rs_ring s)"
    if "rg_seq (rs_ring s) (pos mod rg_cap (rs_ring s)) = pos + 1"
    using cells_seq(2) [OF C, of pos] cells_bounds(1,5) [OF C] pos that by (cases rule: ccontr) auto
  have "r' = rs_ring s \<and> pop_inv g (rs_ring s) pc' \<and> pops (pop_events (rs_consumer s) pc') = [] \<and>
      freed (s\<lparr>rs_consumer := pc'\<rparr>) = freed s \<and> popped_count (rs_ring s) pc' = rg_dequeue_pos (rs_ring s)"
    using act PopCheck pos seq lt
    by (auto simp: Let_def pop_events_def freed_def split: if_splits)
  with ring_inv_pop_idle [OF inv, of pc'] PopCheck show ?thesis by simp
next
  case (PopCas pos)
  show ?thesis
  proof (cases spurious)
    case True
    with act PopCas have "pc' = PopLoad" "r' = rs_ring s" by auto
    with ring_inv_pop_idle [OF inv, of pc'] PopCas show ?thesis
      by (simp add: pop_events_def freed_def)
  next
    case False
    have "pos = rg_dequeue_pos (rs_ring s)" "pos < 2 ^ 63"
      using ring_invD(4) [OF inv] PopCas cells_bounds(2,5) [OF ring_invD(1) [OF inv]] by auto
    with act PopCas False have "pc' = PopMove pos" "r' = (rs_ring s)\<lparr>rg_dequeue_pos := pos + 1\<rparr>"
      by auto
    with ring_inv_take [OF inv PopCas] show ?thesis by (simp add: pop_events_def)
  qed
next
  case (PopMove pos)
  then have "rg_val (rs_ring s) (pos mod rg_cap (rs_ring s)) = Some (g ! pos)"
    using ring_invD(4) [OF inv] by simp
  with act PopMove ring_inv_move [OF inv PopMove] show ?thesis by (auto simp: pop_events_def)
next
  case (PopRelease pos v)
  then have "pos + rg_cap (rs_ring s) < 2 ^ 63"
    using ring_invD(4) [OF inv] cells_bounds(2,5) [OF ring_invD(1) [OF inv]] by simp
  with act PopRelease ring_inv_release [OF inv PopRelease] show ?thesis
    by (auto simp: pop_events_def)
next
  case (PopReturn res)
  with busy show ?thesis by blast
qed

lemma ring_action_cap:
  "push_action sp pc r = (pc', r') \<Longrightarrow> rg_cap r' = rg_cap r"
  "pop_action sp pc2 r = (pc2', r') \<Longrightarrow> rg_cap r' = rg_cap r"
  by (cases pc; auto simp: Let_def split: if_splits)
     (cases pc2; auto simp: Let_def split: if_splits option.splits)

lemma ring_run_cap: "ring_run c evs s \<Longrightarrow> rg_cap (rs_ring s) = max 2 c"
proof (induction rule: ring_run.induct)
  case init
  then show ?case by (simp add: ring_system_init_def MpscRingAny_def)
next
  case (step evs s ev s')
  from step(2) show ?case
    by cases (use step(3) in \<open>auto dest: ring_action_cap\<close>)
qed

lemma ring_run_inv:
  "ring_run c evs s \<Longrightarrow> length (claims evs) + max 2 c < 2 ^ 63 \<Longrightarrow> ring_inv (claims evs) (pops evs) s"
proof (induction rule: ring_run.induct)
  case init
  then show ?case
    by (intro ring_invI)
       (auto simp: ring_system_init_def MpscRingAny_def freed_def cells_inv_def owners_inv_def)
next
  case (step evs s ev s')
  then have inv: "ring_inv (claims evs) (pops evs) s" by simp
  note cap = ring_run_cap [OF step(1)]
  from step(2) show ?case
  proof cases
    case (call_push p b v)
    with ring_inv_push_pc [OF inv, of "PushLoad v" p] show ?thesis by simp
  next
    case (push p spurious pc' r')
    have "pops (push_events (rs_producers s p) pc') = []"
      by (auto simp: push_events_def split: push_pc.split bool.split)
    with push ring_inv_push [OF inv push(4)] step.prems cap show ?thesis by simp
  next
    case (call_pop res)
    with ring_inv_pop_idle [OF inv, of PopLoad] show ?thesis by (simp add: freed_def)
  next
    case (pop spurious pc' r')
    have "claims (pop_events (rs_consumer s) pc') = []"
      by (auto simp: pop_events_def split: pop_pc.split option.split)
    with pop ring_inv_pop [OF inv pop(4)] show ?thesis by simp
  qed
qed

section \<open>The abstract queue\<close>

text \<open>The values claimed and not yet taken out, oldest first.\<close>

definition ring_queue :: "'a ring_event list \<Rightarrow> 'a list" where
  "ring_queue evs = drop (length (pops evs)) (claims evs)"

lemma ring_pops_prefix:
  assumes "ring_run c evs s" "length (claims evs) + max 2 c < 2 ^ 63"
  shows "claims evs = pops evs @ ring_queue evs"
proof -
  have "pops evs = take (popped_count (rs_ring s) (rs_consumer s)) (claims evs)"
    by (rule ring_invD(5) [OF ring_run_inv [OF assms]])
  then have "pops evs = take (length (pops evs)) (claims evs)"
    by (metis append_eq_conv_conj append_take_drop_id length_take)
  then show ?thesis unfolding ring_queue_def by (metis append_take_drop_id)
qed

lemma ring_length_pops:
  assumes "ring_run c evs s" "length (claims evs) + max 2 c < 2 ^ 63"
  shows "length (pops evs) = popped_count (rs_ring s) (rs_consumer s)"
proof -
  note inv = ring_run_inv [OF assms]
  have "popped_count (rs_ring s) (rs_consumer s) \<le> length (claims evs)"
    using ring_invD(4) [OF inv] cells_bounds(3,5) [OF ring_invD(1) [OF inv]]
    by (cases "rs_consumer s") auto
  then show ?thesis using ring_invD(5) [OF inv] by simp
qed

lemma freed_popped: "pop_inv g (rs_ring s) (rs_consumer s) \<Longrightarrow>
    freed s \<le> popped_count (rs_ring s) (rs_consumer s) \<and>
    popped_count (rs_ring s) (rs_consumer s) \<le> freed s + 1"
  by (cases "rs_consumer s") (auto simp: freed_def)

section \<open>Scheduled runs\<close>

text \<open>A scheduler that picks who moves next, for concrete runs.\<close>

datatype 'a ring_sched = SCallPush nat 'a | SPush nat | SCallPop | SPop

fun ring_exec :: "'a ring_sched list \<Rightarrow> 'a ring_event list \<times> 'a ring_system
    \<Rightarrow> ('a ring_event list \<times> 'a ring_system) option" where
  "ring_exec [] c = Some c"
| "ring_exec (SCallPush p v # acts) (evs, s) =
     (case rs_producers s p of
        PushReturn _ \<Rightarrow> ring_exec acts (evs, s\<lparr>rs_producers := (rs_producers s)(p := PushLoad v)\<rparr>)
      | _ \<Rightarrow> None)"
| "ring_exec (SPush p # acts) (evs, s) =
     (case rs_producers s p of
        PushReturn _ \<Rightarrow> None
      | pc \<Rightarrow> (case push_action False pc (rs_ring s) of (pc', r') \<Rightarrow>
          ring_exec acts (evs @ push_events pc pc',
            s\<lparr>rs_ring := r', rs_producers := (rs_producers s)(p := pc')\<rparr>)))"
| "ring_exec (SCallPop # acts) (evs, s) =
     (case rs_consumer s of
        PopReturn _ \<Rightarrow> ring_exec acts (evs, s\<lparr>rs_consumer := PopLoad\<rparr>)
      | _ \<Rightarrow> None)"
| "ring_exec (SPop # acts) (evs, s) =
     (case rs_consumer s of
        PopReturn _ \<Rightarrow> None
      | pc \<Rightarrow> (case pop_action False pc (rs_ring s) of (pc', r') \<Rightarrow>
          ring_exec acts (evs @ pop_events pc pc', s\<lparr>rs_ring := r', rs_consumer := pc'\<rparr>)))"

lemma ring_exec_run:
  assumes "ring_run c evs s" "ring_exec acts (evs, s) = Some (evs', s')"
  shows "ring_run c evs' s'"
  using assms
proof (induction acts arbitrary: evs s)
  case (Cons a acts)
  note more = Cons.IH [OF ring_run.step [OF Cons.prems(1)]]
  show ?case
  proof (cases a)
    case (SCallPush p v)
    with Cons.prems(2) more [OF ring_step.call_push [of s p _ v]] show ?thesis
      by (auto split: push_pc.splits)
  next
    case (SPush p)
    obtain pc' r' where act: "push_action False (rs_producers s p) (rs_ring s) = (pc', r')"
      by (cases "push_action False (rs_producers s p) (rs_ring s)")
    with SPush Cons.prems(2) more [OF ring_step.push [OF _ act]] show ?thesis
      by (auto split: push_pc.splits)
  next
    case SCallPop
    with Cons.prems(2) more [OF ring_step.call_pop [of s]] show ?thesis
      by (auto split: pop_pc.splits)
  next
    case SPop
    obtain pc' r' where act: "pop_action False (rs_consumer s) (rs_ring s) = (pc', r')"
      by (cases "pop_action False (rs_consumer s) (rs_ring s)")
    with SPop Cons.prems(2) more [OF ring_step.pop [OF _ act]] show ?thesis
      by (auto split: pop_pc.splits)
  qed
qed simp

lemmas ring_eval =
  ring_system_init_def MpscRingAny_def push_events_def pop_events_def inc64_def intptr_def
  add64_def Let_def

section \<open>Properties\<close>

text \<open>C10: The ring refines a bounded FIFO queue: under every interleaving of any number of
  producers with the consumer, the values taken out are exactly a prefix of the values whose
  positions were claimed, in claim order, and the values in between never exceed the capacity.\<close>

theorem ring_fifo:
  assumes "ring_run c evs s" "length (claims evs) + max 2 c < 2 ^ 63"
  shows "claims evs = pops evs @ ring_queue evs \<and> length (ring_queue evs) \<le> max 2 c"
proof -
  note inv = ring_run_inv [OF assms]
  have "length (claims evs) \<le> freed s + max 2 c"
    using cells_bounds(3,6) [OF ring_invD(1) [OF inv]] ring_run_cap [OF assms(1)] by simp
  also have "freed s \<le> length (pops evs)"
    using freed_popped [OF ring_invD(4) [OF inv]] ring_length_pops [OF assms] by simp
  finally have "length (ring_queue evs) \<le> max 2 c" by (simp add: ring_queue_def)
  with ring_pops_prefix [OF assms] show ?thesis by blast
qed

theorem ring_fifo_witness:
  "\<exists>s. ring_run 2 [Claimed (7::nat), Popped 7] s \<and>
     length (ring_queue [Claimed (7::nat), Popped 7]) \<le> 2"
proof -
  have "\<exists>s. ring_exec [SCallPush 0 7, SPush 0, SPush 0, SPush 0, SPush 0, SPush 0, SCallPop,
      SPop, SPop, SPop, SPop] ([], ring_system_init 2) = Some ([Claimed (7::nat), Popped 7], s)"
    by (simp add: ring_eval)
  then obtain s where run: "ring_run 2 [Claimed (7::nat), Popped 7] s"
    using ring_exec_run [OF ring_run.init] by blast
  from ring_fifo [OF run] have "length (ring_queue [Claimed (7::nat), Popped 7]) \<le> 2" by simp
  with run show ?thesis by blast
qed

text \<open>C11: \<open>try_push\<close> refuses a value only when the ring is full: at the moment it decides so,
  as many positions are claimed and not handed back as the ring has cells.\<close>

theorem ring_refuses_only_full:
  assumes "ring_run c evs s" "length (claims evs) + max 2 c < 2 ^ 63"
    and "ring_step s ev s'" "PushFailed \<in> set ev"
  shows "length (claims evs) = freed s + max 2 c"
  using assms(3,4)
proof (cases rule: ring_step.cases)
  case (push p spurious pc' r')
  note inv = ring_run_inv [OF assms(1,2)]
  note C = ring_invD(1) [OF inv]
  from push(1,3,4) assms(4) obtain v pos where pc: "rs_producers s p = PushCheck v pos"
      "intptr (rg_seq (rs_ring s) (pos mod rg_cap (rs_ring s))) - intptr pos < 0"
    by (cases "rs_producers s p")
       (auto simp: push_events_def Let_def split: if_splits push_pc.splits bool.splits)
  have pos: "pos \<le> rg_enqueue_pos (rs_ring s)" "pos < 2 ^ 63"
    using ring_invD(2) [OF inv, of p] pc(1) cells_bounds(2) [OF C] by auto
  with pc(2) cells_seq_small [OF C, of pos]
  have "rg_seq (rs_ring s) (pos mod rg_cap (rs_ring s)) < pos" by simp
  from seq_behind_full [OF C this pos(1)] show ?thesis
    using cells_bounds(3) [OF C] ring_run_cap [OF assms(1)] by simp
qed (auto simp: pop_events_def split: pop_pc.splits option.splits)

theorem ring_refuses_only_full_witness:
  "\<exists>s. ring_run 2 [Claimed (7::nat), Claimed 8] s \<and>
     length (claims [Claimed (7::nat), Claimed 8]) = freed s + 2"
proof -
  let ?acts = "[SCallPush 0 7, SPush 0, SPush 0, SPush 0, SCallPush 1 8, SPush 1, SPush 1, SPush 1,
     SCallPush 2 9, SPush 2 :: nat ring_sched]"
  obtain s where s: "ring_exec ?acts ([], ring_system_init 2) = Some ([Claimed 7, Claimed 8], s)"
      "rs_producers s 2 = PushCheck 9 2" "rg_seq (rs_ring s) 0 = 0" "rg_cap (rs_ring s) = 2"
    by (simp add: ring_eval)
  note run = ring_exec_run [OF ring_run.init s(1)]
  have "push_action False (rs_producers s 2) (rs_ring s) = (PushReturn False, rs_ring s)"
    using s by (simp add: ring_eval)
  from ring_step.push [OF _ this] s(2)
  have "ring_step s [PushFailed] (s\<lparr>rs_ring := rs_ring s,
      rs_producers := (rs_producers s)(2 := PushReturn False)\<rparr>)"
    by (simp add: push_events_def)
  from ring_refuses_only_full [OF run _ this] run show ?thesis by auto
qed

text \<open>When no producer is between claiming and publishing and the consumer is between calls,
  \<open>empty()\<close> is exact: it holds if and only if every claimed value has been taken out.\<close>

theorem ring_empty_exact:
  assumes "ring_run c evs s" "length (claims evs) + max 2 c < 2 ^ 63"
    and "\<And>q. push_holds (rs_producers s q) = None" "rs_consumer s = PopReturn res"
  shows "ring_empty (rs_ring s) \<longleftrightarrow> pops evs = claims evs"
proof -
  let ?r = "rs_ring s"
  note inv = ring_run_inv [OF assms(1,2)]
  note C = ring_invD(1) [OF inv]
  have f: "freed s = rg_dequeue_pos ?r" using assms(4) by (simp add: freed_def)
  note B = cells_bounds [OF C]
  have pops: "pops evs = claims evs \<longleftrightarrow> rg_dequeue_pos ?r = rg_enqueue_pos ?r"
    using ring_invD(5) [OF inv] assms(4) B(3,5) by (auto simp: take_all_iff)
  have seq: "rg_seq ?r (rg_dequeue_pos ?r mod rg_cap ?r) = rg_dequeue_pos ?r + 1 \<longleftrightarrow>
      rg_dequeue_pos ?r < rg_enqueue_pos ?r"
    using cells_seq(1,2) [OF C, of "rg_dequeue_pos ?r"] f B(1,5) ring_invD(3) [OF inv] assms(3)
    unfolding owners_inv_def by (cases "rg_dequeue_pos ?r < rg_enqueue_pos ?r") auto
  have "rg_dequeue_pos ?r + 1 < 2 ^ 63" using B(1,2,5) by simp
  then have "ring_empty ?r \<longleftrightarrow>
      rg_seq ?r (rg_dequeue_pos ?r mod rg_cap ?r) \<noteq> rg_dequeue_pos ?r + 1"
    using cells_seq_small [OF C, of "rg_dequeue_pos ?r"] B(1) by (auto simp: ring_empty_def)
  with pops seq B(5) show ?thesis by auto
qed

theorem ring_empty_exact_witness:
  "ring_empty (rs_ring (ring_system_init 3 :: nat ring_system)) \<longleftrightarrow>
     pops ([] :: nat ring_event list) = claims []"
  by (rule ring_empty_exact [OF ring_run.init]) (simp_all add: ring_system_init_def)

end
