(* ===== verification/MpscExecutor.thy ===== *)
theory MpscExecutor
  imports Executor
begin

text \<open>
  The default build of \<open>TaskExecutor\<close> (\<open>LOGIT_USE_MPSC_RING\<close>): producers publish
  into the lock-free ring, completion is counted in tickets, and a hot resize
  closes a barrier around the producers.  The ring appears as the list of its
  claimed positions, oldest first, each with the producer that claimed it and
  whether it has been published; a push may be refused as soon as the list is
  one short of the capacity, since the consumer hands a cell back after the
  value has left the queue.  Every access to an atomic is a step of its own.
\<close>

section \<open>State\<close>

text \<open>A producer inside \<open>add_task\<close>, from \<open>enter_producer_\<close> to \<open>leave_producer_\<close>.\<close>

datatype 'a mx_producer =
    MEnter 'a | MEntered 'a | MSubmit 'a | MLoop 'a | MTryPush 'a QueuePolicy | MPublish
  | MComplete | MLeave | MReturned

text \<open>
  The worker, with its local \<open>drained_any\<close>: \<open>m_active_tasks\<close> raised before the pop attempt, the task running,
  its ticket completed, the counter lowered, then the idle check and the check
  for the stop flag.
\<close>

datatype 'a mx_worker =
    VLoop bool | VPop bool | VFailed bool | VRun 'a | VCompleted | VIdle bool | VStop bool
  | VSleep | VLast | VExit

text \<open>
  The thread that holds \<open>m_lifecycle_mutex\<close>: in \<open>shutdown\<close>, or in the phases of
  \<open>set_max_queue_size\<close>.
\<close>

datatype mx_lifecycle =
    LNone | LShutdown | LShutdownDone
  | LBarrier nat | LDrain nat | LStop nat | LJoin nat | LReplace nat | LRestart nat | LReopen

record 'a mx_system =
  mx_ring :: "(nat \<times> 'a \<times> bool) list"
  mx_capacity :: nat
  mx_max_queue_size :: nat
  mx_overflow_policy :: QueuePolicy
  mx_stop_flag :: bool
  mx_resizing :: bool
  mx_dropped_tasks :: nat
  mx_active_tasks :: nat
  mx_submitted_tasks :: nat
  mx_completed_tasks :: nat
  mx_active_producers :: nat
  mx_producers :: "'a mx_producer list"
  mx_worker :: "'a mx_worker"
  mx_lifecycle :: mx_lifecycle

definition ring_capacity :: "nat \<Rightarrow> nat" where
  "ring_capacity n = (if n < 2 then 2 else n)"

definition mx_init :: "nat \<Rightarrow> 'a mx_system" where
  "mx_init default_cap =
     \<lparr>mx_ring = [], mx_capacity = ring_capacity default_cap, mx_max_queue_size = 0,
      mx_overflow_policy = Block, mx_stop_flag = False, mx_resizing = False, mx_dropped_tasks = 0,
      mx_active_tasks = 0, mx_submitted_tasks = 0, mx_completed_tasks = 0,
      mx_active_producers = 0, mx_producers = [], mx_worker = VLoop False, mx_lifecycle = LNone\<rparr>"

section \<open>Actions\<close>

definition ring_publish :: "nat \<Rightarrow> (nat \<times> 'a \<times> bool) list \<Rightarrow> (nat \<times> 'a \<times> bool) list" where
  "ring_publish p r = map (\<lambda>(q, t, b). (q, t, b \<or> q = p)) r"

text \<open>\<open>m_mpsc_queue.empty()\<close>: the oldest position is not published.\<close>

fun mx_queue_empty :: "(nat \<times> 'a \<times> bool) list \<Rightarrow> bool" where
  "mx_queue_empty [] = True"
| "mx_queue_empty ((_, _, b) # _) = (\<not> b)"

text \<open>
  One action of producer \<open>p\<close> with program counter \<open>pc\<close>; \<open>full\<close> is the answer of
  a \<open>try_push\<close>.
\<close>

fun producer_action ::
  "bool \<Rightarrow> nat \<Rightarrow> 'a mx_producer \<Rightarrow> 'a mx_system \<Rightarrow> 'a mx_producer \<times> 'a mx_system \<times> 'a te_event list"
where
  "producer_action _ p (MEnter t) s =
     (if mx_resizing s then (MEnter t, s, [])
      else (MEntered t, s\<lparr>mx_active_producers := mx_active_producers s + 1\<rparr>, []))"
| "producer_action _ p (MEntered t) s =
     (if mx_resizing s
      then (MEnter t, s\<lparr>mx_active_producers := mx_active_producers s - 1\<rparr>, [])
      else (MSubmit t, s, []))"
| "producer_action _ p (MSubmit t) s =
     (MLoop t, s\<lparr>mx_submitted_tasks := mx_submitted_tasks s + 1\<rparr>, [])"
| "producer_action _ p (MLoop t) s =
     (if mx_stop_flag s then (MComplete, s, [Ignored t])
      else if mx_overflow_policy s = Block \<and> 0 < mx_max_queue_size s \<and>
              mx_max_queue_size s \<le> mx_active_tasks s then (MLoop t, s, [])
      else (MTryPush t (mx_overflow_policy s), s, []))"
| "producer_action full p (MTryPush t policy) s =
     (if \<not> full
      then (MPublish, s\<lparr>mx_ring := mx_ring s @ [(p, t, False)]\<rparr>, [Accepted t])
      else (case policy of
              Block \<Rightarrow> (MLoop t, s, [])
            | _ \<Rightarrow> (MComplete, s\<lparr>mx_dropped_tasks := mx_dropped_tasks s + 1\<rparr>, [Refused t])))"
| "producer_action _ p MPublish s = (MLeave, s\<lparr>mx_ring := ring_publish p (mx_ring s)\<rparr>, [])"
| "producer_action _ p MComplete s =
     (MLeave, s\<lparr>mx_completed_tasks := mx_completed_tasks s + 1\<rparr>, [])"
| "producer_action _ p MLeave s =
     (MReturned, s\<lparr>mx_active_producers := mx_active_producers s - 1\<rparr>, [])"
| "producer_action _ p MReturned s = (MReturned, s, [])"

text \<open>When \<open>try_push\<close> may answer: refused only near the capacity, accepted only below it.\<close>

definition push_answer :: "bool \<Rightarrow> 'a mx_producer \<Rightarrow> 'a mx_system \<Rightarrow> bool" where
  "push_answer full pc s =
     (case pc of
        MTryPush _ _ \<Rightarrow> if full then mx_capacity s \<le> length (mx_ring s) + 1
                          else length (mx_ring s) < mx_capacity s
      | _ \<Rightarrow> True)"

text \<open>
  One action of the worker; the flag says that its drain budget is used up.  In
  \<open>VIdle drained\<close> it tests whether the queue is empty and nothing is active, in
  \<open>VStop drained\<close> it reads the stop flag after that.
\<close>

fun worker_action ::
  "bool \<Rightarrow> 'a mx_worker \<Rightarrow> 'a mx_system \<Rightarrow> 'a mx_worker \<times> 'a mx_system \<times> 'a te_event list" where
  "worker_action _ (VLoop drained) s =
     (VPop drained, s\<lparr>mx_active_tasks := mx_active_tasks s + 1\<rparr>, [])"
| "worker_action _ (VPop drained) s =
     (case mx_ring s of
        (q, t, True) # r \<Rightarrow> (VRun t, s\<lparr>mx_ring := r\<rparr>, [Started t])
      | _ \<Rightarrow> (VFailed drained, s, []))"
| "worker_action _ (VFailed drained) s =
     (VIdle drained, s\<lparr>mx_active_tasks := mx_active_tasks s - 1\<rparr>, [])"
| "worker_action _ (VRun t) s =
     (VCompleted, s\<lparr>mx_completed_tasks := mx_completed_tasks s + 1\<rparr>, [Finished t])"
| "worker_action budget VCompleted s =
     (if budget then VIdle True else VLoop True,
      s\<lparr>mx_active_tasks := mx_active_tasks s - 1\<rparr>, [])"
| "worker_action _ (VIdle drained) s =
     (if mx_queue_empty (mx_ring s) \<and> mx_active_tasks s = 0 then (VStop drained, s, [])
      else (if drained then VLoop False else VSleep, s, []))"
| "worker_action _ (VStop drained) s =
     (if mx_stop_flag s then (VExit, s, [])
      else (if drained then VLoop False else VSleep, s, []))"
| "worker_action _ VSleep s = (if mx_stop_flag s then VLast else VLoop False, s, [])"
| "worker_action _ VLast s = (if mx_queue_empty (mx_ring s) then VExit else VLoop False, s, [])"
| "worker_action _ VExit s = (VExit, s, [])"

definition mx_wait_ready :: "'a mx_system \<Rightarrow> bool" where
  "mx_wait_ready s = (mx_stop_flag s \<or> mx_submitted_tasks s \<le> mx_completed_tasks s)"

text \<open>
  The lifecycle operations, phase by phase; the flag says that the deadline has
  passed while waiting, which aborts a resize and re-opens the barrier.
\<close>

fun lifecycle_action ::
  "bool \<Rightarrow> nat \<Rightarrow> mx_lifecycle \<Rightarrow> 'a mx_system \<Rightarrow> mx_lifecycle \<times> 'a mx_system \<times> 'a te_event list"
where
  "lifecycle_action _ cap0 LNone s = (LNone, s, [])"
| "lifecycle_action _ cap0 LShutdown s =
     (if mx_worker s = VExit then (LShutdownDone, s, [ShutdownReturned]) else (LShutdown, s, []))"
| "lifecycle_action _ cap0 LShutdownDone s = (LShutdownDone, s, [])"
| "lifecycle_action timeout cap0 (LBarrier n) s =
     (if mx_active_producers s = 0 then (LDrain n, s, [])
      else if timeout then (LNone, s\<lparr>mx_resizing := False\<rparr>, [])
      else (LBarrier n, s, []))"
| "lifecycle_action timeout cap0 (LDrain n) s =
     (if mx_stop_flag s \<or> mx_submitted_tasks s \<le> mx_completed_tasks s then (LStop n, s, [])
      else if timeout then (LNone, s\<lparr>mx_resizing := False\<rparr>, [])
      else (LDrain n, s, []))"
| "lifecycle_action _ cap0 (LStop n) s = (LJoin n, s\<lparr>mx_stop_flag := True\<rparr>, [])"
| "lifecycle_action _ cap0 (LJoin n) s =
     (if mx_worker s = VExit then (LReplace n, s, []) else (LJoin n, s, []))"
| "lifecycle_action _ cap0 (LReplace n) s =
     (LRestart n,
      s\<lparr>mx_max_queue_size := n, mx_ring := [],
        mx_capacity := ring_capacity (if n = 0 then cap0 else n), mx_active_tasks := 0\<rparr>, [])"
| "lifecycle_action _ cap0 (LRestart n) s =
     (LReopen, s\<lparr>mx_stop_flag := False, mx_worker := VLoop False\<rparr>, [])"
| "lifecycle_action _ cap0 LReopen s = (LNone, s\<lparr>mx_resizing := False\<rparr>, [])"

section \<open>Interleavings\<close>

inductive mx_step :: "nat \<Rightarrow> 'a mx_system \<Rightarrow> 'a te_event list \<Rightarrow> 'a mx_system \<Rightarrow> bool"
  for cap0 :: nat where
  call_add: "mx_step cap0 s [] (s\<lparr>mx_producers := mx_producers s @ [MEnter t]\<rparr>)"
| producer: "p < length (mx_producers s) \<Longrightarrow> push_answer full (mx_producers s ! p) s \<Longrightarrow>
     producer_action full p (mx_producers s ! p) s = (pc', s', ev) \<Longrightarrow>
     mx_step cap0 s ev (s'\<lparr>mx_producers := (mx_producers s)[p := pc']\<rparr>)"
| worker: "worker_action budget (mx_worker s) s = (pc', s', ev) \<Longrightarrow>
     mx_step cap0 s ev (s'\<lparr>mx_worker := pc'\<rparr>)"
| wait: "mx_wait_ready s \<Longrightarrow> mx_step cap0 s [WaitReturned] s"
| shutdown: "mx_lifecycle s = LNone \<or> mx_lifecycle s = LShutdownDone \<Longrightarrow>
     mx_step cap0 s [] (s\<lparr>mx_stop_flag := True, mx_lifecycle := LShutdown\<rparr>)"
| set_max_queue_size: "mx_lifecycle s = LNone \<Longrightarrow> \<not> mx_stop_flag s \<Longrightarrow>
     mx_step cap0 s [] (s\<lparr>mx_resizing := True, mx_lifecycle := LBarrier n\<rparr>)"
| set_queue_policy: "mx_lifecycle s = LNone \<Longrightarrow> \<not> mx_stop_flag s \<Longrightarrow>
     mx_step cap0 s [] (s\<lparr>mx_overflow_policy := policy\<rparr>)"
| lifecycle: "lifecycle_action timeout cap0 (mx_lifecycle s) s = (pc', s', ev) \<Longrightarrow>
     mx_step cap0 s ev (s'\<lparr>mx_lifecycle := pc'\<rparr>)"
| reset: "mx_step cap0 s [CountersReset] (s\<lparr>mx_dropped_tasks := 0\<rparr>)"

inductive mx_run :: "nat \<Rightarrow> 'a te_event list \<Rightarrow> 'a mx_system \<Rightarrow> bool"
  for cap0 :: nat where
  init: "mx_run cap0 [] (mx_init cap0)"
| step: "mx_run cap0 evs s \<Longrightarrow> mx_step cap0 s ev s' \<Longrightarrow> mx_run cap0 (evs @ ev) s'"

section \<open>The invariant\<close>

fun holds_ticket :: "'a mx_producer \<Rightarrow> nat" where
  "holds_ticket (MLoop _) = 1"
| "holds_ticket (MTryPush _ _) = 1"
| "holds_ticket MComplete = 1"
| "holds_ticket _ = 0"

fun is_inside :: "'a mx_producer \<Rightarrow> nat" where
  "is_inside (MEnter _) = 0"
| "is_inside MReturned = 0"
| "is_inside _ = 1"

fun mx_running :: "'a mx_worker \<Rightarrow> 'a list" where
  "mx_running (VRun t) = [t]"
| "mx_running _ = []"

fun mx_active :: "'a mx_worker \<Rightarrow> nat" where
  "mx_active (VPop _) = 1"
| "mx_active (VFailed _) = 1"
| "mx_active (VRun _) = 1"
| "mx_active VCompleted = 1"
| "mx_active _ = 0"

definition mx_tasks :: "'a mx_system \<Rightarrow> 'a list" where
  "mx_tasks s = map (\<lambda>(q, t, b). t) (mx_ring s)"

text \<open>The producers that a closed barrier lets exist.\<close>

fun outside :: "'a mx_producer \<Rightarrow> bool" where
  "outside (MEnter _) = True"
| "outside (MEntered _) = True"
| "outside MReturned = True"
| "outside _ = False"

fun barrier_closed :: "mx_lifecycle \<Rightarrow> bool" where
  "barrier_closed (LDrain _) = True" | "barrier_closed (LStop _) = True"
| "barrier_closed (LJoin _) = True" | "barrier_closed (LReplace _) = True"
| "barrier_closed (LRestart _) = True" | "barrier_closed LReopen = True"
| "barrier_closed _ = False"

fun drained_phase :: "mx_lifecycle \<Rightarrow> bool" where
  "drained_phase (LStop _) = True" | "drained_phase (LJoin _) = True"
| "drained_phase (LReplace _) = True" | "drained_phase (LRestart _) = True"
| "drained_phase LReopen = True"
| "drained_phase _ = False"

fun stopped_phase :: "mx_lifecycle \<Rightarrow> bool" where
  "stopped_phase LShutdown = True" | "stopped_phase LShutdownDone = True"
| "stopped_phase (LJoin _) = True" | "stopped_phase (LReplace _) = True"
| "stopped_phase (LRestart _) = True"
| "stopped_phase _ = False"

fun resizing_phase :: "mx_lifecycle \<Rightarrow> bool" where
  "resizing_phase LNone = False" | "resizing_phase LShutdown = False"
| "resizing_phase LShutdownDone = False"
| "resizing_phase _ = True"

fun joined_phase :: "mx_lifecycle \<Rightarrow> bool" where
  "joined_phase (LReplace _) = True" | "joined_phase (LRestart _) = True"
| "joined_phase LShutdownDone = True"
| "joined_phase _ = False"

definition tickets_inv :: "'a mx_system \<Rightarrow> bool" where
  "tickets_inv s =
     (mx_submitted_tasks s = mx_completed_tasks s + sum_list (map holds_ticket (mx_producers s)) +
        length (mx_ring s) + length (mx_running (mx_worker s)) \<and>
      mx_active_producers s = sum_list (map is_inside (mx_producers s)) \<and>
      mx_active_tasks s = mx_active (mx_worker s) \<and>
      length (mx_ring s) \<le> mx_capacity s)"

definition phases_inv :: "'a mx_system \<Rightarrow> bool" where
  "phases_inv s =
     (mx_stop_flag s = stopped_phase (mx_lifecycle s) \<and>
      mx_resizing s = resizing_phase (mx_lifecycle s) \<and>
      (barrier_closed (mx_lifecycle s) \<longrightarrow> list_all outside (mx_producers s)) \<and>
      (drained_phase (mx_lifecycle s) \<longrightarrow> mx_ring s = [] \<and> mx_running (mx_worker s) = []) \<and>
      (joined_phase (mx_lifecycle s) \<longrightarrow> mx_worker s = VExit))"

definition history_inv :: "'a te_event list \<Rightarrow> 'a mx_system \<Rightarrow> bool" where
  "history_inv evs s =
     (accepted evs = started evs @ mx_tasks s \<and> started evs = finished evs @ mx_running (mx_worker s) \<and>
      mx_dropped_tasks s = drops evs \<and> evicted evs = [])"

definition mx_inv :: "'a te_event list \<Rightarrow> 'a mx_system \<Rightarrow> bool" where
  "mx_inv evs s = (tickets_inv s \<and> phases_inv s \<and> history_inv evs s)"

lemma sum_list_upd:
  "p < length xs \<Longrightarrow> sum_list (map f (xs[p := y])) + f (xs ! p) = sum_list (map f xs) + (f y :: nat)"
proof (induction xs arbitrary: p)
  case (Cons x xs)
  then show ?case by (cases p) (auto simp: algebra_simps)
qed simp

lemma sum_list_nth_le: "p < length xs \<Longrightarrow> f (xs ! p) \<le> (sum_list (map f xs) :: nat)"
  by (simp add: member_le_sum_list)

lemma list_all_upd: "list_all P xs \<Longrightarrow> P y \<Longrightarrow> list_all P (xs[p := y])"
  using set_update_subset_insert [of xs p y] by (auto simp: list_all_iff)

lemma ring_publish_simps [simp]:
  "length (ring_publish p r) = length r" "map (\<lambda>(q, t, b). t) (ring_publish p r) = map (\<lambda>(q, t, b). t) r"
  "ring_publish p r = [] \<longleftrightarrow> r = []"
  by (auto simp: ring_publish_def)

subsection \<open>Producers\<close>

lemma producer_tickets:
  assumes "tickets_inv s" "p < length (mx_producers s)" "push_answer full (mx_producers s ! p) s"
    and "producer_action full p (mx_producers s ! p) s = (pc', s', ev)"
  shows "tickets_inv (s'\<lparr>mx_producers := (mx_producers s)[p := pc']\<rparr>)"
proof -
  note S = sum_list_upd [OF assms(2), of holds_ticket pc'] sum_list_upd [OF assms(2), of is_inside pc']
    sum_list_nth_le [OF assms(2), of holds_ticket] sum_list_nth_le [OF assms(2), of is_inside]
  show ?thesis
    using assms(1,3,4) S
    by (cases "mx_producers s ! p")
       (auto simp: tickets_inv_def push_answer_def split: if_splits QueuePolicy.splits)
qed

lemma producer_phases:
  assumes "phases_inv s" "p < length (mx_producers s)"
    and "producer_action full p (mx_producers s ! p) s = (pc', s', ev)"
  shows "phases_inv (s'\<lparr>mx_producers := (mx_producers s)[p := pc']\<rparr>)"
proof (cases "resizing_phase (mx_lifecycle s) \<and> barrier_closed (mx_lifecycle s)")
  case True
  then have "outside (mx_producers s ! p)" "list_all outside (mx_producers s)" "mx_resizing s"
    using assms(1,2) by (auto simp: phases_inv_def list_all_length)
  with assms(1,3) show ?thesis
    by (cases "mx_producers s ! p") (auto simp: phases_inv_def list_all_upd)
next
  case False
  then have "\<not> barrier_closed (mx_lifecycle s)" "\<not> drained_phase (mx_lifecycle s)"
    by (cases "mx_lifecycle s"; simp)+
  with assms(1,3) show ?thesis
    by (cases "mx_producers s ! p")
       (auto simp: phases_inv_def split: if_splits QueuePolicy.splits)
qed

lemma producer_history:
  assumes "history_inv evs s" "producer_action full p pc s = (pc', s', ev)"
  shows "history_inv (evs @ ev) (s'\<lparr>mx_producers := ps\<rparr>)"
  using assms
  by (cases pc) (auto simp: history_inv_def mx_tasks_def split: if_splits QueuePolicy.splits)

subsection \<open>The worker\<close>

lemma worker_tickets:
  assumes "tickets_inv s" "worker_action budget (mx_worker s) s = (pc', s', ev)"
  shows "tickets_inv (s'\<lparr>mx_worker := pc'\<rparr>)"
  using assms
  by (cases "mx_worker s")
     (auto simp: tickets_inv_def split: list.splits bool.splits if_splits)

lemma worker_phases:
  assumes "phases_inv s" "worker_action budget (mx_worker s) s = (pc', s', ev)"
  shows "phases_inv (s'\<lparr>mx_worker := pc'\<rparr>)"
  using assms
  by (cases "mx_worker s")
     (auto simp: phases_inv_def split: list.splits bool.splits if_splits)

lemma worker_history:
  assumes "history_inv evs s" "worker_action budget (mx_worker s) s = (pc', s', ev)"
  shows "history_inv (evs @ ev) (s'\<lparr>mx_worker := pc'\<rparr>)"
  using assms
  by (cases "mx_worker s")
     (auto simp: history_inv_def mx_tasks_def split: list.splits bool.splits if_splits)

subsection \<open>Lifecycle operations\<close>

lemma sum_zero_outside:
  "sum_list (map is_inside ps) = 0 \<Longrightarrow> list_all outside ps"
proof -
  have "is_inside pc = 0 \<Longrightarrow> outside pc" for pc :: "'a mx_producer" by (cases pc) simp_all
  then show "sum_list (map is_inside ps) = 0 \<Longrightarrow> list_all outside ps"
    by (auto simp: list_all_iff)
qed

lemma lifecycle_inv:
  assumes "mx_inv evs s" "lifecycle_action timeout cap0 (mx_lifecycle s) s = (pc', s', ev)"
  shows "mx_inv (evs @ ev) (s'\<lparr>mx_lifecycle := pc'\<rparr>)"
proof -
  have t: "tickets_inv s" and ph: "phases_inv s" and h: "history_inv evs s"
    using assms(1) by (auto simp: mx_inv_def)
  note defs = mx_inv_def tickets_inv_def phases_inv_def history_inv_def mx_tasks_def
  show ?thesis
  proof (cases "mx_lifecycle s")
    case (LBarrier n)
    consider (go) "mx_active_producers s = 0" "pc' = LDrain n" "s' = s" "ev = []"
      | (abort) "pc' = LNone" "s' = s\<lparr>mx_resizing := False\<rparr>" "ev = []"
      | (stay) "pc' = LBarrier n" "s' = s" "ev = []"
      using assms(2) LBarrier by (auto split: if_splits)
    then show ?thesis
    proof cases
      case go
      with t have "list_all outside (mx_producers s)"
        by (intro sum_zero_outside) (simp add: tickets_inv_def)
      with go LBarrier t ph h show ?thesis by (simp add: defs)
    qed (use LBarrier t ph h in \<open>simp_all add: defs\<close>)
  next
    case (LDrain n)
    then have run: "\<not> mx_stop_flag s" using ph by (simp add: phases_inv_def)
    consider (go) "mx_submitted_tasks s \<le> mx_completed_tasks s" "pc' = LStop n" "s' = s" "ev = []"
      | (abort) "pc' = LNone" "s' = s\<lparr>mx_resizing := False\<rparr>" "ev = []"
      | (stay) "pc' = LDrain n" "s' = s" "ev = []"
      using assms(2) LDrain run by (auto split: if_splits)
    then show ?thesis
      by cases (use LDrain run t ph h in \<open>auto simp: defs\<close>)
  next
    case (LJoin n)
    consider (go) "mx_worker s = VExit" "pc' = LReplace n" "s' = s" "ev = []"
      | (stay) "pc' = LJoin n" "s' = s" "ev = []"
      using assms(2) LJoin by (auto split: if_splits)
    then show ?thesis by cases (use LJoin t ph h in \<open>simp_all add: defs\<close>)
  next
    case LShutdown
    consider (go) "mx_worker s = VExit" "pc' = LShutdownDone" "s' = s" "ev = [ShutdownReturned]"
      | (stay) "pc' = LShutdown" "s' = s" "ev = []"
      using assms(2) LShutdown by (auto split: if_splits)
    then show ?thesis by cases (use LShutdown t ph h in \<open>simp_all add: defs\<close>)
  qed (use t ph h assms(2) in \<open>auto simp: defs\<close>)
qed

lemma mx_step_inv:
  assumes "mx_step cap0 s ev s'" "mx_inv evs s"
  shows "mx_inv (evs @ ev) s'"
  using assms
proof (induction rule: mx_step.induct)
  case (producer p s full pc' s' ev)
  with producer_history [OF _ producer(3)] show ?case
    by (simp add: mx_inv_def producer_tickets producer_phases)
next
  case (worker budget s pc' s' ev)
  with worker_tickets [OF _ worker(1)] worker_phases [OF _ worker(1)] worker_history [OF _ worker(1)]
  show ?case by (simp add: mx_inv_def)
next
  case (lifecycle timeout s pc' s' ev)
  then show ?case by (intro lifecycle_inv)
qed (auto simp: mx_inv_def tickets_inv_def phases_inv_def history_inv_def mx_tasks_def)

lemma mx_run_inv: "mx_run cap0 evs s \<Longrightarrow> mx_inv evs s"
proof (induction rule: mx_run.induct)
  case init
  show ?case
    by (simp add: mx_init_def mx_inv_def tickets_inv_def phases_inv_def history_inv_def mx_tasks_def)
next
  case (step evs s ev s')
  then show ?case by (intro mx_step_inv)
qed

end
