(* ===== verification/MpscExecutorProps.thy ===== *)
theory MpscExecutorProps
  imports MpscExecutor
begin

text \<open>
  What the ring-backed \<open>TaskExecutor\<close> guarantees under every interleaving, and
  the window in which \<open>shutdown\<close> can leave an accepted task behind.
\<close>

section \<open>The executor contract\<close>

definition mx_idle :: "'a mx_system \<Rightarrow> bool" where
  "mx_idle s = (mx_ring s = [] \<and> mx_running (mx_worker s) = [])"

lemma mx_history:
  assumes "mx_run cap0 evs s"
  shows "accepted evs = started evs @ mx_tasks s" "started evs = finished evs @ mx_running (mx_worker s)"
    "mx_dropped_tasks s = drops evs" "evicted evs = []"
  using mx_run_inv [OF assms] by (simp_all add: mx_inv_def history_inv_def)

lemma mx_idle_finished: "mx_run cap0 evs s \<Longrightarrow> mx_idle s \<Longrightarrow> finished evs = accepted evs"
  using mx_history [of cap0 evs s] by (simp add: mx_idle_def mx_tasks_def)

interpretation mx: fifo_executor "mx_run cap0" accepted evicted finished mx_idle for cap0
proof
  fix evs :: "'a te_event list" and s
  assume run: "mx_run cap0 evs s"
  have "accepted evs = finished evs @ mx_running (mx_worker s) @ mx_tasks s"
    using mx_history [OF run] by simp
  then show "subseq (finished evs) (accepted evs)" by (simp add: list_emb_prefix)
  assume "mx_idle s"
  with run show "mset (accepted evs) = mset (finished evs) + mset (evicted evs)"
    by (simp add: mx_idle_finished mx_history(4))
qed

lemma mx_all_tickets_done:
  assumes "mx_run cap0 evs s" "mx_submitted_tasks s \<le> mx_completed_tasks s"
  shows "mx_idle s \<and> (\<forall>pc \<in> set (mx_producers s). holds_ticket pc = 0)"
  using mx_run_inv [OF assms(1)] assms(2)
  by (auto simp: mx_inv_def tickets_inv_def mx_idle_def)

section \<open>Scheduled runs\<close>

datatype 'a mx_sched =
    XCall 'a | XProducer bool nat | XWorker bool | XShutdown | XResize nat | XLifecycle bool

fun mx_exec ::
  "nat \<Rightarrow> 'a mx_sched list \<Rightarrow> 'a te_event list \<times> 'a mx_system \<Rightarrow> ('a te_event list \<times> 'a mx_system) option"
where
  "mx_exec cap0 [] c = Some c"
| "mx_exec cap0 (XCall t # acts) (evs, s) =
     mx_exec cap0 acts (evs, s\<lparr>mx_producers := mx_producers s @ [MEnter t]\<rparr>)"
| "mx_exec cap0 (XProducer full p # acts) (evs, s) =
     (if p < length (mx_producers s) \<and> push_answer full (mx_producers s ! p) s then
        (case producer_action full p (mx_producers s ! p) s of (pc', s', ev) \<Rightarrow>
           mx_exec cap0 acts (evs @ ev, s'\<lparr>mx_producers := (mx_producers s)[p := pc']\<rparr>))
      else None)"
| "mx_exec cap0 (XWorker budget # acts) (evs, s) =
     (case worker_action budget (mx_worker s) s of (pc', s', ev) \<Rightarrow>
        mx_exec cap0 acts (evs @ ev, s'\<lparr>mx_worker := pc'\<rparr>))"
| "mx_exec cap0 (XShutdown # acts) (evs, s) =
     (if mx_lifecycle s = LNone then
        mx_exec cap0 acts (evs, s\<lparr>mx_stop_flag := True, mx_lifecycle := LShutdown\<rparr>)
      else None)"
| "mx_exec cap0 (XResize n # acts) (evs, s) =
     (if mx_lifecycle s = LNone \<and> \<not> mx_stop_flag s then
        mx_exec cap0 acts (evs, s\<lparr>mx_resizing := True, mx_lifecycle := LBarrier n\<rparr>)
      else None)"
| "mx_exec cap0 (XLifecycle timeout # acts) (evs, s) =
     (case lifecycle_action timeout cap0 (mx_lifecycle s) s of (pc', s', ev) \<Rightarrow>
        mx_exec cap0 acts (evs @ ev, s'\<lparr>mx_lifecycle := pc'\<rparr>))"

lemma mx_exec_run:
  assumes "mx_run cap0 evs s" "mx_exec cap0 acts (evs, s) = Some (evs', s')"
  shows "mx_run cap0 evs' s'"
  using assms
proof (induction acts arbitrary: evs s)
  case (Cons a acts)
  note more = Cons.IH [OF mx_run.step [OF Cons.prems(1)]]
  show ?case
  proof (cases a)
    case (XCall t)
    with Cons.prems(2) more [OF mx_step.call_add [of cap0 s t]] show ?thesis by simp
  next
    case (XProducer full p)
    obtain pc' s1 ev where act: "producer_action full p (mx_producers s ! p) s = (pc', s1, ev)"
      by (cases "producer_action full p (mx_producers s ! p) s") auto
    with XProducer Cons.prems(2) more [OF mx_step.producer [OF _ _ act]] show ?thesis
      by (simp split: if_splits)
  next
    case (XWorker budget)
    obtain pc' s1 ev where act: "worker_action budget (mx_worker s) s = (pc', s1, ev)"
      by (cases "worker_action budget (mx_worker s) s") auto
    with XWorker Cons.prems(2) more [OF mx_step.worker [OF act]] show ?thesis by simp
  next
    case XShutdown
    with Cons.prems(2) more [OF mx_step.shutdown [of s cap0]] show ?thesis
      by (simp split: if_splits)
  next
    case (XResize n)
    with Cons.prems(2) more [OF mx_step.set_max_queue_size [of s cap0 n]] show ?thesis
      by (simp split: if_splits)
  next
    case (XLifecycle timeout)
    obtain pc' s1 ev where act: "lifecycle_action timeout cap0 (mx_lifecycle s) s = (pc', s1, ev)"
      by (cases "lifecycle_action timeout cap0 (mx_lifecycle s) s") auto
    with XLifecycle Cons.prems(2) more [OF mx_step.lifecycle [OF act]] show ?thesis by simp
  qed
qed simp

lemmas mx_eval = mx_init_def ring_capacity_def push_answer_def ring_publish_def

text \<open>One task submitted, run and completed.\<close>

definition one_task :: "nat mx_sched list" where
  "one_task = [XCall 7, XProducer False 0, XProducer False 0, XProducer False 0, XProducer False 0,
     XProducer False 0, XProducer False 0, XProducer False 0,
     XWorker False, XWorker False, XWorker False, XWorker False]"

lemma one_task_run:
  "\<exists>s. mx_exec 8 one_task ([], mx_init 8) = Some ([Accepted 7, Started 7, Finished 7], s) \<and>
     mx_submitted_tasks s = 1 \<and> mx_completed_tasks s = 1 \<and> \<not> mx_stop_flag s \<and>
     mx_lifecycle s = LNone"
  by (simp add: one_task_def mx_eval)

section \<open>Properties\<close>







text \<open>C15: \<open>shutdown\<close> does not wait for producers: there is a run in which a producer has passed
  its check of the stop flag, \<open>shutdown\<close> then stops and joins the worker, and the task is
  published afterwards: it has been accepted, its ticket stays open and no thread is left to
  run it.\<close>

theorem mx_shutdown_strands:
  "\<exists>evs (s :: nat mx_system). mx_run 8 evs s \<and> mx_lifecycle s = LShutdownDone \<and>
     mx_worker s = VExit \<and> set (mx_producers s) = {MReturned} \<and> mx_tasks s = [7] \<and>
     accepted evs = [7] \<and> finished evs = [] \<and> mx_completed_tasks s < mx_submitted_tasks s"
proof -
  let ?acts = "[XCall 7, XProducer False 0, XProducer False 0, XProducer False 0, XProducer False 0,
    XShutdown, XWorker False, XWorker False, XWorker False, XWorker False, XWorker False,
    XLifecycle False, XProducer False 0, XProducer False 0, XProducer False 0 :: nat mx_sched]"
  obtain s where s: "mx_exec 8 ?acts ([], mx_init 8) = Some ([ShutdownReturned, Accepted 7], s)"
      "mx_lifecycle s = LShutdownDone" "mx_worker s = VExit" "mx_producers s = [MReturned]"
      "mx_ring s = [(0, 7, True)]" "mx_submitted_tasks s = 1" "mx_completed_tasks s = 0"
    by (simp add: mx_eval)
  from mx_exec_run [OF mx_run.init s(1)] s(2-) show ?thesis
    by (intro exI [of _ "[ShutdownReturned, Accepted 7]"] exI [of _ s])
       (simp add: mx_tasks_def)
qed

end
