(* ===== verification/SingleThread.thy ===== *)
theory SingleThread
  imports Executor
begin

text \<open>
  \<open>detail/SingleThreadExecutor.hpp\<close>: the per-logger executor with its own
  worker (native builds), as critical sections and a step relation over the
  worker and the blocked producers; and the two cooperative executors of the
  single-threaded Emscripten build, where a full queue is drained by the
  producer itself.
\<close>

section \<open>Native executor\<close>

record 'a SingleThreadExecutor =
  st_queue :: "'a list"
  st_stop :: bool
  st_shutdown_done :: bool
  st_max_queue_size :: nat
  st_overflow_policy :: QueuePolicy
  st_dropped_tasks :: nat
  st_active_tasks :: nat

definition SingleThreadExecutor_init :: "'a SingleThreadExecutor" where
  "SingleThreadExecutor_init =
     \<lparr>st_queue = [], st_stop = False, st_shutdown_done = False, st_max_queue_size = 0,
      st_overflow_policy = Block, st_dropped_tasks = 0, st_active_tasks = 0\<rparr>"

definition st_producer_ready :: "'a SingleThreadExecutor \<Rightarrow> bool" where
  "st_producer_ready e =
     (st_max_queue_size e = 0 \<or> length (st_queue e) < st_max_queue_size e \<or> st_stop e)"

definition st_push :: "'a \<Rightarrow> 'a SingleThreadExecutor \<Rightarrow> 'a SingleThreadExecutor" where
  "st_push task e = e\<lparr>st_queue := st_queue e @ [task]\<rparr>"

definition st_add_task ::
  "'a \<Rightarrow> 'a SingleThreadExecutor \<Rightarrow> 'a SingleThreadExecutor \<times> add_result \<times> 'a te_event list" where
  "st_add_task task e =
     (if st_stop e then (e, AddReturn, [Ignored task])
      else if 0 < st_max_queue_size e \<and> st_max_queue_size e \<le> length (st_queue e) then
        (case st_overflow_policy e of
           DropNewest \<Rightarrow>
             (e\<lparr>st_dropped_tasks := st_dropped_tasks e + 1\<rparr>, AddReturn, [Refused task])
         | DropOldest \<Rightarrow>
             (case st_queue e of
                [] \<Rightarrow> (st_push task e, AddPushed, [Accepted task])
              | old # rest \<Rightarrow>
                  (st_push task (e\<lparr>st_queue := rest, st_dropped_tasks := st_dropped_tasks e + 1\<rparr>),
                   AddPushed, [Evicted old, Accepted task]))
         | Block \<Rightarrow>
             if st_producer_ready e then (st_push task e, AddPushed, [Accepted task])
             else (e, AddSleep, [Slept task]))
      else (st_push task e, AddPushed, [Accepted task]))"

definition st_add_resume ::
  "'a \<Rightarrow> 'a SingleThreadExecutor \<Rightarrow> 'a SingleThreadExecutor \<times> add_result \<times> 'a te_event list" where
  "st_add_resume task e =
     (if \<not> st_producer_ready e then (e, AddSleep, [Slept task])
      else if st_stop e then (e, AddReturn, [Ignored task])
      else (st_push task e, AddPushed, [Accepted task]))"

definition st_wait_ready :: "'a SingleThreadExecutor \<Rightarrow> bool" where
  "st_wait_ready e = (st_queue e = [] \<and> st_active_tasks e = 0)"

definition st_shutdown :: "'a SingleThreadExecutor \<Rightarrow> 'a SingleThreadExecutor" where
  "st_shutdown e =
     (if \<not> st_shutdown_done e then e\<lparr>st_shutdown_done := True, st_stop := True\<rparr> else e)"

definition st_set_max_queue_size :: "nat \<Rightarrow> 'a SingleThreadExecutor \<Rightarrow> 'a SingleThreadExecutor" where
  "st_set_max_queue_size n e = (if st_stop e then e else e\<lparr>st_max_queue_size := n\<rparr>)"

definition st_set_queue_policy ::
  "QueuePolicy \<Rightarrow> 'a SingleThreadExecutor \<Rightarrow> 'a SingleThreadExecutor" where
  "st_set_queue_policy policy e = (if st_stop e then e else e\<lparr>st_overflow_policy := policy\<rparr>)"

definition st_reset_dropped_tasks :: "'a SingleThreadExecutor \<Rightarrow> 'a SingleThreadExecutor" where
  "st_reset_dropped_tasks e = e\<lparr>st_dropped_tasks := 0\<rparr>"

datatype 'a st_worker = StIdle | StRun 'a | StExit

text \<open>The worker taking a task (or leaving its loop), and finishing one.\<close>

definition st_worker_take ::
  "'a SingleThreadExecutor \<Rightarrow> ('a SingleThreadExecutor \<times> 'a st_worker \<times> 'a te_event list) option" where
  "st_worker_take e =
     (case st_queue e of
        [] \<Rightarrow> if st_stop e then Some (e, StExit, []) else None
      | task # rest \<Rightarrow>
          Some (e\<lparr>st_queue := rest, st_active_tasks := st_active_tasks e + 1\<rparr>, StRun task,
                [Started task]))"

definition st_worker_finish :: "'a SingleThreadExecutor \<Rightarrow> 'a SingleThreadExecutor" where
  "st_worker_finish e = e\<lparr>st_active_tasks := st_active_tasks e - 1\<rparr>"

record 'a st_system =
  ss_executor :: "'a SingleThreadExecutor"
  ss_worker :: "'a st_worker"
  ss_blocked :: "'a list"

definition st_system_init :: "'a st_system" where
  "st_system_init =
     \<lparr>ss_executor = SingleThreadExecutor_init, ss_worker = StIdle, ss_blocked = []\<rparr>"

text \<open>Producers asleep in \<open>add_task\<close> are kept with their tasks; any of them may wake.\<close>

inductive st_step :: "'a st_system \<Rightarrow> 'a te_event list \<Rightarrow> 'a st_system \<Rightarrow> bool" where
  add: "st_add_task t (ss_executor s) = (e', res, ev) \<Longrightarrow>
     st_step s ev (s\<lparr>ss_executor := e',
        ss_blocked := (if res = AddSleep then ss_blocked s @ [t] else ss_blocked s)\<rparr>)"
| resume: "ss_blocked s = ts @ t # us \<Longrightarrow> st_add_resume t (ss_executor s) = (e', res, ev) \<Longrightarrow>
     st_step s ev (s\<lparr>ss_executor := e',
        ss_blocked := (if res = AddSleep then ss_blocked s else ts @ us)\<rparr>)"
| take: "ss_worker s = StIdle \<Longrightarrow> st_worker_take (ss_executor s) = Some (e', w, ev) \<Longrightarrow>
     st_step s ev (s\<lparr>ss_executor := e', ss_worker := w\<rparr>)"
| finish: "ss_worker s = StRun t \<Longrightarrow>
     st_step s [Finished t]
       (s\<lparr>ss_executor := st_worker_finish (ss_executor s), ss_worker := StIdle\<rparr>)"
| wait: "st_wait_ready (ss_executor s) \<Longrightarrow> st_step s [WaitReturned] s"
| shutdown: "st_step s [] (s\<lparr>ss_executor := st_shutdown (ss_executor s)\<rparr>)"
| joined: "st_shutdown_done (ss_executor s) \<Longrightarrow> ss_worker s = StExit \<Longrightarrow>
     st_step s [ShutdownReturned] s"
| resize: "st_step s [] (s\<lparr>ss_executor := st_set_max_queue_size n (ss_executor s)\<rparr>)"
| policy: "st_step s [] (s\<lparr>ss_executor := st_set_queue_policy q (ss_executor s)\<rparr>)"
| reset: "st_step s [CountersReset] (s\<lparr>ss_executor := st_reset_dropped_tasks (ss_executor s)\<rparr>)"

inductive st_run :: "'a te_event list \<Rightarrow> 'a st_system \<Rightarrow> bool" where
  init: "st_run [] st_system_init"
| step: "st_run evs s \<Longrightarrow> st_step s ev s' \<Longrightarrow> st_run (evs @ ev) s'"

lemmas st_defs [op_defs] =
  st_producer_ready_def st_push_def st_add_task_def st_add_resume_def st_wait_ready_def
  st_shutdown_def st_set_max_queue_size_def st_set_queue_policy_def st_reset_dropped_tasks_def
  st_worker_take_def st_worker_finish_def

primrec st_running :: "'a st_worker \<Rightarrow> 'a list" where
  "st_running StIdle = []"
| "st_running (StRun t) = [t]"
| "st_running StExit = []"

definition st_inv :: "'a te_event list \<Rightarrow> 'a SingleThreadExecutor \<Rightarrow> 'a st_worker \<Rightarrow> bool" where
  "st_inv evs e w =
     (subseq (started evs @ st_queue e) (accepted evs) \<and>
      mset (accepted evs) = mset (started evs) + mset (st_queue e) + mset (evicted evs) \<and>
      started evs = finished evs @ st_running w \<and>
      st_active_tasks e = length (st_running w) \<and>
      st_dropped_tasks e = drops evs \<and> st_stop e = st_shutdown_done e \<and>
      (w = StExit \<longrightarrow> st_stop e \<and> st_queue e = []))"

lemma st_add_inv:
  assumes "st_inv evs e w" "st_add_task t e = (e', res, ev)"
  shows "st_inv (evs @ ev) e' w"
proof -
  have "subseq (started evs @ rest) (accepted evs)" if "st_queue e = old # rest" for old rest
    using assms(1) that subseq_drop_middle [of "started evs" old rest "accepted evs"]
    unfolding st_inv_def by auto
  then show ?thesis
    using assms subseq_snoc [of "started evs @ st_queue e" "accepted evs" t]
      subseq_snoc [of "started evs @ tl (st_queue e)" "accepted evs" t]
    by (auto simp: st_inv_def st_add_task_def st_push_def
        split: if_splits QueuePolicy.splits list.splits)
qed

lemma st_resume_inv:
  assumes "st_inv evs e w" "st_add_resume t e = (e', res, ev)"
  shows "st_inv (evs @ ev) e' w"
  using assms subseq_snoc [of "started evs @ st_queue e" "accepted evs" t]
  by (auto simp: st_inv_def st_add_resume_def st_push_def split: if_splits)

lemma st_take_inv:
  assumes "st_inv evs e StIdle" "st_worker_take e = Some (e', w, ev)"
  shows "st_inv (evs @ ev) e' w"
  using assms by (auto simp: st_inv_def st_worker_take_def split: list.splits if_splits)

lemma st_run_inv: "st_run evs s \<Longrightarrow> st_inv evs (ss_executor s) (ss_worker s)"
proof (induction rule: st_run.induct)
  case init
  show ?case by (simp add: st_inv_def st_system_init_def SingleThreadExecutor_init_def)
next
  case (step evs s ev s')
  from step(2) show ?case
  proof cases
    case (add t e' res)
    with step(3) st_add_inv show ?thesis by simp
  next
    case (resume ts t us e' res)
    with step(3) st_resume_inv show ?thesis by simp
  next
    case (take e' w)
    with step(3) st_take_inv show ?thesis by simp
  qed (use step(3) in \<open>auto simp: st_inv_def st_worker_finish_def st_shutdown_def
       st_set_max_queue_size_def st_set_queue_policy_def st_reset_dropped_tasks_def\<close>)
qed

definition st_idle :: "'a st_system \<Rightarrow> bool" where
  "st_idle s = st_wait_ready (ss_executor s)"

interpretation st: fifo_executor st_run accepted evicted finished st_idle
proof
  fix evs :: "'a te_event list" and s
  assume run: "st_run evs s"
  note inv = st_run_inv [OF run]
  then have "subseq (finished evs @ st_running (ss_worker s) @ st_queue (ss_executor s)) (accepted evs)"
    by (auto simp: st_inv_def)
  moreover have "subseq (finished evs) (finished evs @ r)" for r by (simp add: list_emb_prefix)
  ultimately show "subseq (finished evs) (accepted evs)" using subseq_order.trans by blast
  assume "st_idle s"
  with inv show "mset (accepted evs) = mset (finished evs) + mset (evicted evs)"
    by (auto simp: st_inv_def st_idle_def st_wait_ready_def)
qed

section \<open>Cooperative executor\<close>

text \<open>
  The single-threaded build: \<open>ce_done\<close> records the tasks run, in order.  A full
  queue under \<open>Block\<close> is drained by \<open>add_task\<close> itself, which then tries again.
\<close>

record 'a CoopExecutor =
  ce_queue :: "'a list"
  ce_max_queue_size :: nat
  ce_overflow_policy :: QueuePolicy
  ce_dropped_tasks :: nat
  ce_scheduled :: bool
  ce_shutdown_requested :: bool
  ce_done :: "'a list"

definition CoopExecutor_init :: "'a CoopExecutor" where
  "CoopExecutor_init =
     \<lparr>ce_queue = [], ce_max_queue_size = 0, ce_overflow_policy = Block, ce_dropped_tasks = 0,
      ce_scheduled = False, ce_shutdown_requested = False, ce_done = []\<rparr>"

function drain_state :: "'a CoopExecutor \<Rightarrow> 'a CoopExecutor" where
  "drain_state e =
     (case ce_queue e of
        [] \<Rightarrow> e\<lparr>ce_scheduled := False\<rparr>
      | task # rest \<Rightarrow> drain_state (e\<lparr>ce_queue := rest, ce_done := ce_done e @ [task]\<rparr>))"
  by pat_completeness auto
termination
  by (relation "measure (\<lambda>e. length (ce_queue e))") auto

declare drain_state.simps [simp del]

definition ce_push :: "'a \<Rightarrow> 'a CoopExecutor \<Rightarrow> 'a CoopExecutor" where
  "ce_push task e = e\<lparr>ce_queue := ce_queue e @ [task], ce_scheduled := True\<rparr>"

text \<open>One pass of the loop in \<open>add_task\<close>; \<open>None\<close> means: drain and try again.\<close>

definition coop_pass :: "'a \<Rightarrow> 'a CoopExecutor \<Rightarrow> 'a CoopExecutor option" where
  "coop_pass task e =
     (if ce_shutdown_requested e then Some e
      else if 0 < ce_max_queue_size e \<and> ce_max_queue_size e \<le> length (ce_queue e) then
        (case ce_overflow_policy e of
           DropNewest \<Rightarrow> Some (e\<lparr>ce_dropped_tasks := ce_dropped_tasks e + 1\<rparr>)
         | DropOldest \<Rightarrow>
             Some (ce_push task
               (if ce_queue e \<noteq> [] then
                  e\<lparr>ce_queue := tl (ce_queue e), ce_dropped_tasks := ce_dropped_tasks e + 1\<rparr>
                else e))
         | Block \<Rightarrow> None)
      else Some (ce_push task e))"

lemma drain_state_eq:
  "drain_state e = e\<lparr>ce_queue := [], ce_done := ce_done e @ ce_queue e, ce_scheduled := False\<rparr>"
proof (induction e rule: drain_state.induct)
  case (1 e)
  then show ?case by (subst drain_state.simps) (auto split: list.split)
qed

function coop_add :: "'a \<Rightarrow> 'a CoopExecutor \<Rightarrow> 'a CoopExecutor" where
  "coop_add task e =
     (case coop_pass task e of Some e' \<Rightarrow> e' | None \<Rightarrow> coop_add task (drain_state e))"
  by pat_completeness auto
termination
proof (relation "measure (\<lambda>(t, e). length (ce_queue e))", goal_cases)
  case (2 task e)
  then have "ce_queue e \<noteq> []"
    by (auto simp: coop_pass_def split: if_splits QueuePolicy.splits)
  then show ?case by (simp add: drain_state_eq)
qed simp

declare coop_add.simps [simp del]

definition coop_wait :: "'a CoopExecutor \<Rightarrow> 'a CoopExecutor" where
  "coop_wait e = drain_state e"

definition coop_shutdown :: "'a CoopExecutor \<Rightarrow> 'a CoopExecutor" where
  "coop_shutdown e =
     (if ce_shutdown_requested e then e else drain_state (e\<lparr>ce_shutdown_requested := True\<rparr>))"

definition coop_set_max_queue_size :: "nat \<Rightarrow> 'a CoopExecutor \<Rightarrow> 'a CoopExecutor" where
  "coop_set_max_queue_size n e =
     (if ce_shutdown_requested e then e else e\<lparr>ce_max_queue_size := n\<rparr>)"

definition coop_set_queue_policy :: "QueuePolicy \<Rightarrow> 'a CoopExecutor \<Rightarrow> 'a CoopExecutor" where
  "coop_set_queue_policy policy e =
     (if ce_shutdown_requested e then e else e\<lparr>ce_overflow_policy := policy\<rparr>)"

lemma coop_pass_empty: "ce_queue e = [] \<Longrightarrow> coop_pass t e \<noteq> None"
  by (auto simp: coop_pass_def)

lemma coop_add_eq:
  "coop_add t e = (case coop_pass t e of Some e' \<Rightarrow> e' | None \<Rightarrow> ce_push t (drain_state e))"
proof (cases "coop_pass t e")
  case None
  then have "\<not> ce_shutdown_requested e" by (auto simp: coop_pass_def split: if_splits)
  then have "coop_pass t (drain_state e) = Some (ce_push t (drain_state e))"
    by (auto simp: coop_pass_def drain_state_eq)
  with None show ?thesis by (subst coop_add.simps, simp, subst coop_add.simps) simp
qed (simp add: coop_add.simps)

section \<open>Properties\<close>

text \<open>C16: The per-logger executor keeps order and loses nothing silently: when \<open>wait\<close> can
  return, or the worker that \<open>shutdown\<close> joins has left its loop, every accepted task has run
  to completion or was evicted, the completed ones ran in order of acceptance, and the drop
  counter is exact.\<close>

theorem st_drains:
  assumes "st_run evs s" "st_wait_ready (ss_executor s) \<or> ss_worker s = StExit"
  shows "mset (accepted evs) = mset (finished evs) + mset (evicted evs) \<and>
    subseq (finished evs) (accepted evs) \<and>
    (evicted evs = [] \<longrightarrow> finished evs = accepted evs) \<and>
    st_dropped_tasks (ss_executor s) = drops evs"
proof -
  note inv = st_run_inv [OF assms(1)]
  then have idle: "st_idle s"
    using assms(2) unfolding st_inv_def st_idle_def st_wait_ready_def by auto
  have "st_dropped_tasks (ss_executor s) = drops evs"
    using inv unfolding st_inv_def by simp
  then show ?thesis
    using st.conserved [OF assms(1) idle] st.in_order [OF assms(1)] st.lossless [OF assms(1) idle]
    by simp
qed

theorem st_drains_witness:
  "finished [Accepted (7::nat), Started 7, Finished 7] = accepted [Accepted 7, Started 7, Finished 7]"
proof -
  let ?e0 = "SingleThreadExecutor_init :: nat SingleThreadExecutor"
  let ?s1 = "st_system_init\<lparr>ss_executor := st_push 7 ?e0\<rparr>"
  let ?s2 = "?s1\<lparr>ss_executor := ?e0\<lparr>st_active_tasks := 1\<rparr>, ss_worker := StRun 7\<rparr>"
  have "st_step st_system_init [Accepted 7] ?s1"
    using st_step.add [of 7 st_system_init "st_push 7 ?e0" AddPushed "[Accepted 7]"]
    by (simp add: st_system_init_def SingleThreadExecutor_init_def st_add_task_def)
  from st_run.step [OF st_run.init this] have 1: "st_run [Accepted 7] ?s1" by simp
  have "st_step ?s1 [Started 7] ?s2"
    using st_step.take [of ?s1 "?e0\<lparr>st_active_tasks := 1\<rparr>" "StRun 7" "[Started 7]"]
    by (simp add: st_system_init_def SingleThreadExecutor_init_def st_worker_take_def st_push_def)
  from st_run.step [OF 1 this] have 2: "st_run [Accepted 7, Started 7] ?s2" by simp
  from st_run.step [OF 2 st_step.finish [of ?s2 7]]
  have 3: "st_run [Accepted 7, Started 7, Finished 7]
      (?s2\<lparr>ss_executor := st_worker_finish (ss_executor ?s2), ss_worker := StIdle\<rparr>)"
    by simp
  from st_drains [OF 3] show ?thesis
    by (simp add: st_wait_ready_def st_worker_finish_def SingleThreadExecutor_init_def)
qed

text \<open>C17: The cooperative \<open>add_task\<close> always returns, runs tasks in order of submission, and under
  the blocking policy never drops: the tasks run and still queued afterwards are those before
  plus the new one, and the queue stays within a positive limit.\<close>

theorem coop_add_blocks:
  assumes "ce_overflow_policy e = Block" "\<not> ce_shutdown_requested e"
  shows "ce_done (coop_add t e) @ ce_queue (coop_add t e) = ce_done e @ ce_queue e @ [t] \<and>
    ce_dropped_tasks (coop_add t e) = ce_dropped_tasks e \<and>
    (0 < ce_max_queue_size e \<longrightarrow> length (ce_queue (coop_add t e)) \<le> ce_max_queue_size e)"
  using assms by (auto simp: coop_add_eq coop_pass_def ce_push_def drain_state_eq)

theorem coop_add_blocks_witness:
  "ce_done (coop_add 9 ((CoopExecutor_init :: nat CoopExecutor)\<lparr>ce_queue := [7, 8], ce_max_queue_size := 2\<rparr>))
     @ ce_queue (coop_add 9 ((CoopExecutor_init :: nat CoopExecutor)\<lparr>ce_queue := [7, 8], ce_max_queue_size := 2\<rparr>))
   = [7, 8, 9]"
  using coop_add_blocks [of "(CoopExecutor_init :: nat CoopExecutor)\<lparr>ce_queue := [7, 8], ce_max_queue_size := 2\<rparr>" 9]
  by (simp add: CoopExecutor_init_def)

end
