(* ===== verification/Logger.thy ===== *)
theory Logger
  imports ILogger
begin

text \<open>
  The dispatcher \<open>Logger\<close> (\<open>Logger.hpp\<close>).  Strategies are shared objects: the
  registry \<open>m_loggers\<close> and the published snapshot \<open>m_loggers_snapshot\<close> hold
  pointers to them, here addresses into the list \<open>lg_heap\<close> of all strategies
  ever made, so that a change through the registry is seen through the
  snapshot.  Backends and formatters are reached through their interface
  records \<open>il\<close> and \<open>fm\<close>.  This theory has the calls as atomic operations; the
  interleaving of \<open>log\<close> with \<open>shutdown\<close> is in the theory of the shutdown
  protocol.  A registered backend pointer is never null.
\<close>

section \<open>State\<close>

record 'f ILogFormatter =
  if_format :: "LogRecord \<Rightarrow> 'f \<Rightarrow> string"
  if_is_passthrough :: "'f \<Rightarrow> bool"
  if_set_timestamp_offset :: "int \<Rightarrow> 'f \<Rightarrow> 'f"
  if_supports_concurrent_format :: "'f \<Rightarrow> bool"

record ('l, 'f) LoggerStrategy =
  sg_logger :: 'l
  sg_formatter :: "'f option"
  sg_single_mode :: bool
  sg_enabled :: bool
  sg_concurrent_dispatch :: bool

record ('l, 'f) Logger =
  lg_heap :: "('l, 'f) LoggerStrategy list"
  lg_loggers :: "nat list"
  lg_snapshot :: "nat list"
  lg_shutdown :: bool
  lg_executor_stopped :: bool

definition Logger_init :: "('l, 'f) Logger" where
  "Logger_init =
     \<lparr>lg_heap = [], lg_loggers = [], lg_snapshot = [], lg_shutdown = False, lg_executor_stopped = False\<rparr>"

section \<open>Registry\<close>

definition publish_strategy_snapshot :: "('l, 'f) Logger \<Rightarrow> ('l, 'f) Logger" where
  "publish_strategy_snapshot s = s\<lparr>lg_snapshot := lg_loggers s\<rparr>"

definition make_strategy ::
  "'l ILogger \<Rightarrow> 'f ILogFormatter \<Rightarrow> 'l \<Rightarrow> 'f option \<Rightarrow> bool \<Rightarrow> ('l, 'f) LoggerStrategy" where
  "make_strategy il fm logger formatter single_mode =
     \<lparr>sg_logger = logger, sg_formatter = formatter, sg_single_mode = single_mode, sg_enabled = True,
      sg_concurrent_dispatch =
        (il_supports_concurrent_log il logger \<and>
         (case formatter of None \<Rightarrow> True | Some f \<Rightarrow> if_supports_concurrent_format fm f))\<rparr>"

definition add_logger ::
  "'l ILogger \<Rightarrow> 'f ILogFormatter \<Rightarrow> 'l \<Rightarrow> 'f option \<Rightarrow> bool \<Rightarrow> ('l, 'f) Logger \<Rightarrow> ('l, 'f) Logger" where
  "add_logger il fm logger formatter single_mode s =
     (if lg_shutdown s then s
      else publish_strategy_snapshot
        (s\<lparr>lg_heap := lg_heap s @ [make_strategy il fm logger formatter single_mode],
           lg_loggers := lg_loggers s @ [length (lg_heap s)]\<rparr>))"

text \<open>The pointer at an index of the registry and of the snapshot, and a write through it.\<close>

definition registry_at :: "int \<Rightarrow> ('l, 'f) Logger \<Rightarrow> nat option" where
  "registry_at i s =
     (if 0 \<le> i \<and> i < int (length (lg_loggers s)) then Some (lg_loggers s ! nat i) else None)"

definition get_strategy_snapshot :: "int \<Rightarrow> ('l, 'f) Logger \<Rightarrow> nat option" where
  "get_strategy_snapshot i s =
     (if 0 \<le> i \<and> i < int (length (lg_snapshot s)) then Some (lg_snapshot s ! nat i) else None)"

definition update_at ::
  "nat \<Rightarrow> (('l, 'f) LoggerStrategy \<Rightarrow> ('l, 'f) LoggerStrategy) \<Rightarrow> ('l, 'f) Logger \<Rightarrow> ('l, 'f) Logger" where
  "update_at p g s = s\<lparr>lg_heap := (lg_heap s)[p := g (lg_heap s ! p)]\<rparr>"

definition set_logger_enabled :: "int \<Rightarrow> bool \<Rightarrow> ('l, 'f) Logger \<Rightarrow> ('l, 'f) Logger" where
  "set_logger_enabled i enabled s =
     (if lg_shutdown s then s
      else case registry_at i s of None \<Rightarrow> s | Some p \<Rightarrow> update_at p (\<lambda>g. g\<lparr>sg_enabled := enabled\<rparr>) s)"

definition is_logger_enabled :: "int \<Rightarrow> ('l, 'f) Logger \<Rightarrow> bool" where
  "is_logger_enabled i s =
     (case registry_at i s of None \<Rightarrow> False | Some p \<Rightarrow> sg_enabled (lg_heap s ! p))"

definition set_logger_single_mode :: "int \<Rightarrow> bool \<Rightarrow> ('l, 'f) Logger \<Rightarrow> ('l, 'f) Logger" where
  "set_logger_single_mode i single_mode s =
     (if lg_shutdown s then s
      else case registry_at i s of None \<Rightarrow> s | Some p \<Rightarrow> update_at p (\<lambda>g. g\<lparr>sg_single_mode := single_mode\<rparr>) s)"

definition is_logger_single_mode :: "int \<Rightarrow> ('l, 'f) Logger \<Rightarrow> bool" where
  "is_logger_single_mode i s =
     (if lg_shutdown s then False
      else case registry_at i s of None \<Rightarrow> False | Some p \<Rightarrow> sg_single_mode (lg_heap s ! p))"

text \<open>\<open>None\<close>: the call goes through a null formatter.\<close>

definition set_timestamp_offset ::
  "'f ILogFormatter \<Rightarrow> int \<Rightarrow> int \<Rightarrow> ('l, 'f) Logger \<Rightarrow> ('l, 'f) Logger option" where
  "set_timestamp_offset fm i offset_ms s =
     (if lg_shutdown s then Some s
      else case registry_at i s of
        None \<Rightarrow> Some s
      | Some p \<Rightarrow>
          (case sg_formatter (lg_heap s ! p) of
             None \<Rightarrow> None
           | Some f \<Rightarrow> Some (update_at p (\<lambda>g. g\<lparr>sg_formatter := Some (if_set_timestamp_offset fm offset_ms f)\<rparr>) s)))"

definition set_backend_level :: "'l ILogger \<Rightarrow> LogLevel \<Rightarrow> ('l, 'f) LoggerStrategy \<Rightarrow> ('l, 'f) LoggerStrategy" where
  "set_backend_level il level g = g\<lparr>sg_logger := il_set_log_level il level (sg_logger g)\<rparr>"

definition set_log_level_all :: "'l ILogger \<Rightarrow> LogLevel \<Rightarrow> ('l, 'f) Logger \<Rightarrow> ('l, 'f) Logger" where
  "set_log_level_all il level s =
     (if lg_shutdown s then s
      else foldl (\<lambda>s p. update_at p (set_backend_level il level) s) s (lg_loggers s))"

definition set_log_level_at :: "'l ILogger \<Rightarrow> int \<Rightarrow> LogLevel \<Rightarrow> ('l, 'f) Logger \<Rightarrow> ('l, 'f) Logger" where
  "set_log_level_at il i level s =
     (if lg_shutdown s then s
      else case registry_at i s of None \<Rightarrow> s | Some p \<Rightarrow> update_at p (set_backend_level il level) s)"

definition get_log_level_at :: "'l ILogger \<Rightarrow> int \<Rightarrow> ('l, 'f) Logger \<Rightarrow> LogLevel" where
  "get_log_level_at il i s =
     (if lg_shutdown s then LOG_LVL_TRACE
      else case get_strategy_snapshot i s of
        None \<Rightarrow> LOG_LVL_TRACE
      | Some p \<Rightarrow> il_get_log_level il (sg_logger (lg_heap s ! p)))"

definition logger_count :: "('l, 'f) Logger \<Rightarrow> nat" where
  "logger_count s = length (lg_loggers s)"

section \<open>Dispatch\<close>

definition dispatch_to_strategy ::
  "'l ILogger \<Rightarrow> 'f ILogFormatter \<Rightarrow> LogRecord \<Rightarrow> ('l, 'f) LoggerStrategy \<Rightarrow> ('l, 'f) LoggerStrategy" where
  "dispatch_to_strategy il fm record g =
     (if lr_raw_mode record then
        g\<lparr>sg_logger := il_log il record (lr_format record) (sg_logger g)\<rparr>
      else case sg_formatter g of
        None \<Rightarrow> g\<lparr>sg_logger := il_log il record [] (sg_logger g)\<rparr>
      | Some f \<Rightarrow>
          if if_is_passthrough fm f
          then g\<lparr>sg_logger := il_log il record (lr_format record) (sg_logger g)\<rparr>
          else g\<lparr>sg_logger := il_log il record (if_format fm record f) (sg_logger g)\<rparr>)"

definition dispatch_to_strategy_if_allowed ::
  "'l ILogger \<Rightarrow> 'f ILogFormatter \<Rightarrow> bool \<Rightarrow> LogRecord \<Rightarrow> bool \<Rightarrow> ('l, 'f) LoggerStrategy
   \<Rightarrow> ('l, 'f) LoggerStrategy" where
  "dispatch_to_strategy_if_allowed il fm stopped record targeted g =
     (if stopped then g
      else if \<not> targeted \<and> sg_single_mode g then g
      else if \<not> sg_enabled g then g
      else if \<not> lr_raw_mode record \<and>
         level_int (lr_log_level record) < level_int (il_get_log_level il (sg_logger g)) then g
      else dispatch_to_strategy il fm record g)"

definition Logger_log ::
  "'l ILogger \<Rightarrow> 'f ILogFormatter \<Rightarrow> LogRecord \<Rightarrow> ('l, 'f) Logger \<Rightarrow> ('l, 'f) Logger" where
  "Logger_log il fm record s =
     (if lg_shutdown s then s
      else if 0 \<le> lr_logger_index record then
        (if int (length (lg_snapshot s)) \<le> lr_logger_index record then s
         else update_at (lg_snapshot s ! nat (lr_logger_index record))
                (dispatch_to_strategy_if_allowed il fm (lg_shutdown s) record True) s)
      else foldl (\<lambda>s p. update_at p (dispatch_to_strategy_if_allowed il fm (lg_shutdown s) record False) s)
             s (lg_snapshot s))"

section \<open>Queries\<close>

definition get_string_param_at :: "'l ILogger \<Rightarrow> int \<Rightarrow> LoggerParam \<Rightarrow> ('l, 'f) Logger \<Rightarrow> string" where
  "get_string_param_at il i param s =
     (if lg_shutdown s then []
      else case registry_at i s of
        None \<Rightarrow> [] | Some p \<Rightarrow> il_get_string_param il param (sg_logger (lg_heap s ! p)))"

definition get_int_param_at :: "'l ILogger \<Rightarrow> int \<Rightarrow> LoggerParam \<Rightarrow> ('l, 'f) Logger \<Rightarrow> int" where
  "get_int_param_at il i param s =
     (if lg_shutdown s then 0
      else case registry_at i s of
        None \<Rightarrow> 0 | Some p \<Rightarrow> il_get_int_param il param (sg_logger (lg_heap s ! p)))"

text \<open>The two buffered queries differ in the method called.\<close>

definition get_buffered_at ::
  "('l \<Rightarrow> 'b list \<times> 'l) \<Rightarrow> int \<Rightarrow> ('l, 'f) Logger \<Rightarrow> 'b list \<times> ('l, 'f) Logger" where
  "get_buffered_at get i s =
     (if lg_shutdown s then ([], s)
      else case get_strategy_snapshot i s of
        None \<Rightarrow> ([], s)
      | Some p \<Rightarrow>
          (case get (sg_logger (lg_heap s ! p)) of
             (out, l) \<Rightarrow> (out, update_at p (\<lambda>g. g\<lparr>sg_logger := l\<rparr>) s)))"

definition get_buffered_strings_at where
  "get_buffered_strings_at il i s = get_buffered_at (il_get_buffered_strings il) i s"

definition get_buffered_entries_at where
  "get_buffered_entries_at il i s = get_buffered_at (il_get_buffered_entries il) i s"

definition list_log_files_at :: "'l ILogger \<Rightarrow> int \<Rightarrow> ('l, 'f) Logger \<Rightarrow> LogFileInfo list" where
  "list_log_files_at il i s =
     (if lg_shutdown s then []
      else case get_strategy_snapshot i s of
        None \<Rightarrow> [] | Some p \<Rightarrow> il_list_log_files il (sg_logger (lg_heap s ! p)))"

definition read_log_file_at :: "'l ILogger \<Rightarrow> int \<Rightarrow> string \<Rightarrow> ('l, 'f) Logger \<Rightarrow> LogFileReadResult" where
  "read_log_file_at il i path s =
     (if lg_shutdown s then read_failed path
      else case get_strategy_snapshot i s of
        None \<Rightarrow> read_failed path
      | Some p \<Rightarrow> il_read_log_file il path (sg_logger (lg_heap s ! p)))"

definition read_log_files_at :: "'l ILogger \<Rightarrow> int \<Rightarrow> string list \<Rightarrow> ('l, 'f) Logger \<Rightarrow> LogFileReadResult list" where
  "read_log_files_at il i paths s =
     (if lg_shutdown s then map read_failed paths
      else case get_strategy_snapshot i s of
        None \<Rightarrow> map read_failed paths
      | Some p \<Rightarrow> ILogger_read_log_files il paths (sg_logger (lg_heap s ! p)))"

section \<open>Drain, clear, shutdown\<close>

definition Logger_wait :: "'l ILogger \<Rightarrow> ('l, 'f) Logger \<Rightarrow> ('l, 'f) Logger" where
  "Logger_wait il s =
     foldl (\<lambda>s p. update_at p (\<lambda>g. g\<lparr>sg_logger := il_wait il (sg_logger g)\<rparr>) s) s (lg_loggers s)"

definition clear_failed :: "string \<Rightarrow> LogClearResult" where
  "clear_failed msg =
     LogClearResult_init\<lparr>cl_ok := False, cl_status := Failed, cl_message := msg\<rparr>"

definition clear_one ::
  "'l ILogger \<Rightarrow> LogClearOptions \<Rightarrow> nat \<Rightarrow> ('l, 'f) Logger \<Rightarrow> LogClearResult \<times> ('l, 'f) Logger" where
  "clear_one il options p s =
     (case il_clear_logs il options (sg_logger (lg_heap s ! p)) of
        (one, l) \<Rightarrow> (one, update_at p (\<lambda>g. g\<lparr>sg_logger := l\<rparr>) s))"

definition clear_logger ::
  "'l ILogger \<Rightarrow> int \<Rightarrow> LogClearOptions \<Rightarrow> ('l, 'f) Logger \<Rightarrow> LogClearResult \<times> ('l, 'f) Logger" where
  "clear_logger il i options s =
     (if lg_shutdown s then (clear_failed ''logger system is shut down'', s)
      else case get_strategy_snapshot i s of
        None \<Rightarrow> (clear_failed ''logger index not found'', s)
      | Some p \<Rightarrow> clear_one il options p s)"

record clear_tally =
  ct_supported :: nat
  ct_failed :: nat
  ct_unsupported :: nat
  ct_result :: LogClearResult

definition tally_one :: "LogClearResult \<Rightarrow> clear_tally \<Rightarrow> clear_tally" where
  "tally_one one t =
     (if cl_status one = Cleared \<and> cl_ok one then
        t\<lparr>ct_supported := ct_supported t + 1,
          ct_result := (ct_result t)\<lparr>cl_cleared_records := cl_cleared_records (ct_result t) + cl_cleared_records one\<rparr>\<rparr>
      else if cl_status one = Unsupported then t\<lparr>ct_unsupported := ct_unsupported t + 1\<rparr>
      else t\<lparr>ct_failed := ct_failed t + 1,
             ct_result := (if cl_message (ct_result t) = []
                           then (ct_result t)\<lparr>cl_message := cl_message one\<rparr> else ct_result t)\<rparr>)"

definition tally_result :: "clear_tally \<Rightarrow> LogClearResult" where
  "tally_result t =
     (let ok = (0 < ct_supported t \<and> ct_failed t = 0); r = (ct_result t)\<lparr>cl_ok := ok\<rparr>
      in if ok then
           r\<lparr>cl_status := Cleared,
             cl_message := (if 0 < ct_unsupported t
                            then ''cleared supported loggers; skipped unsupported loggers'' else ''cleared'')\<rparr>
         else
           r\<lparr>cl_status := (if 0 < ct_unsupported t \<and> ct_failed t = 0 then Unsupported else Failed),
             cl_message := (if cl_message r = [] then
                              (if 0 < ct_unsupported t then ''no logger supports clearing''
                               else ''no loggers to clear'')
                            else cl_message r)\<rparr>)"

fun clear_each ::
  "'l ILogger \<Rightarrow> LogClearOptions \<Rightarrow> nat list \<Rightarrow> clear_tally \<Rightarrow> ('l, 'f) Logger \<Rightarrow> clear_tally \<times> ('l, 'f) Logger" where
  "clear_each il options [] t s = (t, s)"
| "clear_each il options (p # ps) t s =
     (case clear_one il options p s of (one, s') \<Rightarrow> clear_each il options ps (tally_one one t) s')"

definition clear_all_loggers ::
  "'l ILogger \<Rightarrow> LogClearOptions \<Rightarrow> ('l, 'f) Logger \<Rightarrow> LogClearResult \<times> ('l, 'f) Logger" where
  "clear_all_loggers il options s =
     (if lg_shutdown s then (clear_failed ''logger system is shut down'', s)
      else case clear_each il options (lg_loggers s)
             \<lparr>ct_supported = 0, ct_failed = 0, ct_unsupported = 0, ct_result = LogClearResult_init\<rparr> s of
        (t, s') \<Rightarrow> (tally_result t, s'))"

definition Logger_shutdown :: "'l ILogger \<Rightarrow> ('l, 'f) Logger \<Rightarrow> ('l, 'f) Logger" where
  "Logger_shutdown il s =
     (if lg_shutdown s then s
      else (foldl (\<lambda>s p. update_at p (\<lambda>g. g\<lparr>sg_logger := il_shutdown il (sg_logger g)\<rparr>) s)
              (s\<lparr>lg_shutdown := True\<rparr>) (lg_loggers s))\<lparr>lg_executor_stopped := True\<rparr>)"

end
