(* ===== verification/MemoryLogger.thy ===== *)
theory MemoryLogger
  imports ILogger
begin

text \<open>
  The in-memory backend (\<open>MemoryLogger.hpp\<close>): a bounded buffer of formatted
  entries with count, byte and age limits, range and recency queries, and
  subscriber callbacks.  Every method body runs under the buffer mutex, so one
  call is one atomic operation.  The two clocks (\<open>LOGIT_CURRENT_TIMESTAMP_MS\<close>,
  \<open>LOGIT_MONOTONIC_MS\<close>) are arguments.  A callback is an opaque token and
  \<open>ml_notified\<close> lists the calls made to callbacks so far; an exception thrown by
  a callback is swallowed by the source and does not affect the others.
\<close>

section \<open>State\<close>

record MemoryLogger_Config =
  mc_max_records :: nat
  mc_max_bytes :: nat
  mc_max_age_ms :: int

definition MemoryLogger_Config_default :: MemoryLogger_Config where
  "MemoryLogger_Config_default =
     \<lparr>mc_max_records = 1000, mc_max_bytes = 1024 * 1024, mc_max_age_ms = 24 * 60 * 60 * 1000\<rparr>"

record 'cb MemoryLogger =
  ml_config :: MemoryLogger_Config
  ml_entries :: "BufferedLogEntry list"
  ml_total_bytes :: nat
  ml_last_log_ts :: int
  ml_last_log_mono_ts :: int
  ml_log_level :: LogLevel
  ml_callbacks :: "(u64 \<times> 'cb) list"
  ml_next_callback_id :: u64
  ml_notified :: "('cb \<times> LogRecordSnapshot) list"

definition MemoryLogger_init :: "MemoryLogger_Config \<Rightarrow> 'cb MemoryLogger" where
  "MemoryLogger_init config =
     \<lparr>ml_config = config, ml_entries = [], ml_total_bytes = 0, ml_last_log_ts = 0,
      ml_last_log_mono_ts = 0, ml_log_level = LOG_LVL_TRACE, ml_callbacks = [],
      ml_next_callback_id = 1, ml_notified = []\<rparr>"

section \<open>Operations\<close>

definition m_entry_bytes :: "BufferedLogEntry \<Rightarrow> nat" where
  "m_entry_bytes e = length (be_message e)"

definition m_pop_front :: "'cb MemoryLogger \<Rightarrow> 'cb MemoryLogger" where
  "m_pop_front s =
     (case ml_entries s of
        [] \<Rightarrow> s
      | e # es \<Rightarrow> s\<lparr>ml_total_bytes := ml_total_bytes s - m_entry_bytes e, ml_entries := es\<rparr>)"

lemma m_pop_front_shorter: "ml_entries s \<noteq> [] \<Longrightarrow> length (ml_entries (m_pop_front s)) < length (ml_entries s)"
  by (cases "ml_entries s") (simp_all add: m_pop_front_def)

text \<open>The three eviction loops share their body; the guard is an argument.\<close>

function pop_while :: "('cb MemoryLogger \<Rightarrow> bool) \<Rightarrow> 'cb MemoryLogger \<Rightarrow> 'cb MemoryLogger" where
  "pop_while guard s =
     (if ml_entries s \<noteq> [] \<and> guard s then pop_while guard (m_pop_front s) else s)"
  by pat_completeness auto
termination
  by (relation "measure (\<lambda>(g, s). length (ml_entries s))") (auto simp: m_pop_front_shorter)

declare pop_while.simps [simp del]

definition m_evict_expired :: "int \<Rightarrow> 'cb MemoryLogger \<Rightarrow> 'cb MemoryLogger" where
  "m_evict_expired now_ms s =
     (if mc_max_age_ms (ml_config s) \<le> 0 then s
      else let cutoff = now_ms - mc_max_age_ms (ml_config s)
           in pop_while (\<lambda>s. be_timestamp_ms (hd (ml_entries s)) < cutoff) s)"

definition m_enforce_limits :: "int \<Rightarrow> 'cb MemoryLogger \<Rightarrow> 'cb MemoryLogger" where
  "m_enforce_limits now_ms s =
     (let s1 = m_evict_expired now_ms s;
          s2 = (if 0 < mc_max_records (ml_config s1)
                then pop_while (\<lambda>s. mc_max_records (ml_config s) < length (ml_entries s)) s1
                else s1)
      in if 0 < mc_max_bytes (ml_config s2)
         then pop_while (\<lambda>s. mc_max_bytes (ml_config s) < ml_total_bytes s) s2
         else s2)"

definition to_snapshot :: "BufferedLogEntry \<Rightarrow> LogRecordSnapshot" where
  "to_snapshot e =
     \<lparr>sn_session_id = 0, sn_timestamp_ms = be_timestamp_ms e, sn_sequence = 0, sn_level = be_level e,
      sn_message = be_message e, sn_payload_id = 0, sn_file = be_file e,
      sn_function = be_function e, sn_line = be_line e\<rparr>"

definition notify_callbacks :: "LogRecordSnapshot \<Rightarrow> 'cb MemoryLogger \<Rightarrow> 'cb MemoryLogger" where
  "notify_callbacks sn s =
     s\<lparr>ml_notified := ml_notified s @ map (\<lambda>kv. (snd kv, sn)) (ml_callbacks s)\<rparr>"

definition memory_entry :: "LogRecord \<Rightarrow> string \<Rightarrow> BufferedLogEntry" where
  "memory_entry record message =
     \<lparr>be_level = lr_log_level record, be_timestamp_ms = lr_timestamp_ms record,
      be_file = lr_file record, be_line = lr_line record, be_function = lr_function record,
      be_message = message\<rparr>"

definition ml_push :: "int \<Rightarrow> BufferedLogEntry \<Rightarrow> 'cb MemoryLogger \<Rightarrow> 'cb MemoryLogger" where
  "ml_push mono_ms entry s =
     s\<lparr>ml_total_bytes := ml_total_bytes s + m_entry_bytes entry, ml_entries := ml_entries s @ [entry],
       ml_last_log_ts := be_timestamp_ms entry, ml_last_log_mono_ts := mono_ms\<rparr>"

definition MemoryLogger_log :: "int \<Rightarrow> LogRecord \<Rightarrow> string \<Rightarrow> 'cb MemoryLogger \<Rightarrow> 'cb MemoryLogger" where
  "MemoryLogger_log mono_ms record message s =
     (if \<not> lr_raw_mode record \<and> level_int (lr_log_level record) < level_int (ml_log_level s) then s
      else let entry = memory_entry record message;
               s1 = m_evict_expired (lr_timestamp_ms record) s;
               s2 = m_enforce_limits (lr_timestamp_ms record) (ml_push mono_ms entry s1)
           in notify_callbacks (to_snapshot entry) s2)"

definition ml_time_since_last_log :: "int \<Rightarrow> 'cb MemoryLogger \<Rightarrow> int" where
  "ml_time_since_last_log now_mono s =
     (let last = ml_last_log_mono_ts s
      in if last \<le> 0 then 0 else if last < now_mono then now_mono - last else 0)"

definition MemoryLogger_get_int_param :: "int \<Rightarrow> LoggerParam \<Rightarrow> 'cb MemoryLogger \<Rightarrow> int" where
  "MemoryLogger_get_int_param now_mono param s =
     (case param of
        LastLogTimestamp \<Rightarrow> ml_last_log_ts s
      | TimeSinceLastLog \<Rightarrow> ml_time_since_last_log now_mono s
      | _ \<Rightarrow> 0)"

definition MemoryLogger_get_string_param :: "int \<Rightarrow> LoggerParam \<Rightarrow> 'cb MemoryLogger \<Rightarrow> string" where
  "MemoryLogger_get_string_param now_mono param s =
     (case param of
        LastLogTimestamp \<Rightarrow> dec_int (ml_last_log_ts s)
      | TimeSinceLastLog \<Rightarrow> dec_int (ml_time_since_last_log now_mono s)
      | _ \<Rightarrow> [])"

definition MemoryLogger_get_buffered_strings :: "int \<Rightarrow> 'cb MemoryLogger \<Rightarrow> string list \<times> 'cb MemoryLogger" where
  "MemoryLogger_get_buffered_strings now s =
     (let s1 = m_evict_expired now s in (map be_message (ml_entries s1), s1))"

definition MemoryLogger_get_buffered_entries ::
  "int \<Rightarrow> 'cb MemoryLogger \<Rightarrow> BufferedLogEntry list \<times> 'cb MemoryLogger" where
  "MemoryLogger_get_buffered_entries now s =
     (let s1 = m_evict_expired now s in (ml_entries s1, s1))"

text \<open>\<open>std::map::emplace\<close> keeps an existing key.\<close>

definition add_log_callback :: "'cb \<Rightarrow> 'cb MemoryLogger \<Rightarrow> u64 \<times> 'cb MemoryLogger" where
  "add_log_callback cb s =
     (let id = ml_next_callback_id s
      in (id, s\<lparr>ml_next_callback_id := id + 1,
                ml_callbacks := (if map_of (ml_callbacks s) id = None
                                 then map_put id cb (ml_callbacks s) else ml_callbacks s)\<rparr>))"

definition remove_log_callback :: "u64 \<Rightarrow> 'cb MemoryLogger \<Rightarrow> bool \<times> 'cb MemoryLogger" where
  "remove_log_callback cid s =
     (map_of (ml_callbacks s) cid \<noteq> None, s\<lparr>ml_callbacks := map_erase cid (ml_callbacks s)\<rparr>)"

definition MemoryLogger_clear_logs ::
  "LogClearOptions \<Rightarrow> 'cb MemoryLogger \<Rightarrow> LogClearResult \<times> 'cb MemoryLogger" where
  "MemoryLogger_clear_logs options s =
     (\<lparr>cl_ok = True, cl_status = Cleared, cl_cleared_records = length (ml_entries s),
       cl_message = ''cleared''\<rparr>,
      s\<lparr>ml_entries := [], ml_total_bytes := 0, ml_last_log_ts := 0, ml_last_log_mono_ts := 0\<rparr>)"

text \<open>The scan both queries share: append matching entries until the limit is reached.\<close>

fun collect :: "(BufferedLogEntry \<Rightarrow> bool) \<Rightarrow> nat \<Rightarrow> LogRecordSnapshot list \<Rightarrow> BufferedLogEntry list
   \<Rightarrow> LogRecordSnapshot list" where
  "collect P limit out [] = out"
| "collect P limit out (e # es) =
     (if P e then
        (let out' = out @ [to_snapshot e]
         in if 0 < limit \<and> limit \<le> length out' then out' else collect P limit out' es)
      else collect P limit out es)"

definition read_range :: "int \<Rightarrow> int \<Rightarrow> int \<Rightarrow> nat \<Rightarrow> 'cb MemoryLogger
   \<Rightarrow> LogRecordSnapshot list \<times> 'cb MemoryLogger" where
  "read_range now from_ms to_ms limit s =
     (if to_ms \<le> from_ms then ([], s)
      else let s1 = m_evict_expired now s
           in (collect (\<lambda>e. from_ms \<le> be_timestamp_ms e \<and> be_timestamp_ms e < to_ms) limit []
                 (ml_entries s1), s1))"

text \<open>\<open>now\<close> and \<open>now_ms\<close>: the wall clock is read twice.\<close>

definition read_recent :: "int \<Rightarrow> int \<Rightarrow> nat \<Rightarrow> int \<Rightarrow> LogReadOrder \<Rightarrow> 'cb MemoryLogger
   \<Rightarrow> LogRecordSnapshot list \<times> 'cb MemoryLogger" where
  "read_recent now now_ms limit period_ms order s =
     (let s1 = m_evict_expired now s;
          from_ms = (if 0 < period_ms then now_ms - period_ms else 0);
          out = collect (\<lambda>e. period_ms \<le> 0 \<or> from_ms \<le> be_timestamp_ms e) limit []
                  (rev (ml_entries s1))
      in (if order = Ascending then rev out else out, s1))"

definition memory_ilogger :: "int \<Rightarrow> int \<Rightarrow> 'cb MemoryLogger ILogger" where
  "memory_ilogger now mono_ms =
     \<lparr>il_log = MemoryLogger_log mono_ms,
      il_supports_concurrent_log = (\<lambda>_. False),
      il_get_string_param = MemoryLogger_get_string_param mono_ms,
      il_get_int_param = MemoryLogger_get_int_param mono_ms,
      il_set_log_level = (\<lambda>level s. s\<lparr>ml_log_level := level\<rparr>),
      il_get_log_level = ml_log_level,
      il_get_buffered_strings = MemoryLogger_get_buffered_strings now,
      il_get_buffered_entries = MemoryLogger_get_buffered_entries now,
      il_list_log_files = ILogger_list_log_files,
      il_read_log_file = ILogger_read_log_file,
      il_clear_logs = MemoryLogger_clear_logs,
      il_wait = (\<lambda>s. s),
      il_shutdown = (\<lambda>s. s)\<rparr>"

lemmas memory_defs [op_defs] =
  MemoryLogger_get_buffered_strings_def MemoryLogger_get_buffered_entries_def add_log_callback_def
  remove_log_callback_def MemoryLogger_clear_logs_def read_range_def read_recent_def Let_def

section \<open>Eviction\<close>

definition entries_bytes :: "BufferedLogEntry list \<Rightarrow> nat" where
  "entries_bytes es = sum_list (map m_entry_bytes es)"

text \<open>The representation invariant and the state after discarding the \<open>k\<close> oldest entries.\<close>

definition bytes_ok :: "'cb MemoryLogger \<Rightarrow> bool" where
  "bytes_ok s = (ml_total_bytes s = entries_bytes (ml_entries s))"

definition ml_cut :: "nat \<Rightarrow> 'cb MemoryLogger \<Rightarrow> 'cb MemoryLogger" where
  "ml_cut k s = s\<lparr>ml_total_bytes := entries_bytes (drop k (ml_entries s)), ml_entries := drop k (ml_entries s)\<rparr>"

lemma entries_bytes_simps [simp]:
  "entries_bytes [] = 0" "entries_bytes (e # es) = m_entry_bytes e + entries_bytes es"
  "entries_bytes (es @ fs) = entries_bytes es + entries_bytes fs"
  by (simp_all add: entries_bytes_def)

lemma ml_cut_sel [simp]:
  "ml_entries (ml_cut k s) = drop k (ml_entries s)" "ml_config (ml_cut k s) = ml_config s"
  "ml_total_bytes (ml_cut k s) = entries_bytes (drop k (ml_entries s))"
  "ml_log_level (ml_cut k s) = ml_log_level s" "ml_callbacks (ml_cut k s) = ml_callbacks s"
  "ml_notified (ml_cut k s) = ml_notified s" "bytes_ok (ml_cut k s)"
  by (simp_all add: ml_cut_def bytes_ok_def)

lemma ml_cut_cut [simp]: "ml_cut j (ml_cut k s) = ml_cut (j + k) s"
  by (simp add: ml_cut_def)

lemma ml_cut_0: "bytes_ok s \<Longrightarrow> ml_cut 0 s = s"
  by (simp add: ml_cut_def bytes_ok_def)

lemma m_pop_front_cut: "bytes_ok s \<Longrightarrow> ml_entries s \<noteq> [] \<Longrightarrow> m_pop_front s = ml_cut 1 s"
  by (cases "ml_entries s") (simp_all add: m_pop_front_def ml_cut_def bytes_ok_def)

lemma pop_while_cut:
  "bytes_ok s \<Longrightarrow> \<exists>k \<le> length (ml_entries s). pop_while g s = ml_cut k s \<and>
     (k < length (ml_entries s) \<longrightarrow> \<not> g (ml_cut k s)) \<and> (\<forall>j < k. g (ml_cut j s))"
proof (induction g s rule: pop_while.induct)
  case (1 g s)
  show ?case
  proof (cases "ml_entries s \<noteq> [] \<and> g s")
    case True
    then have pop: "m_pop_front s = ml_cut 1 s" using 1(2) by (simp add: m_pop_front_cut)
    from 1(1) [OF True] obtain k where k: "k \<le> length (ml_entries s) - 1"
      "pop_while g (ml_cut 1 s) = ml_cut (k + 1) s"
      "k < length (ml_entries s) - 1 \<longrightarrow> \<not> g (ml_cut (k + 1) s)"
      "\<forall>j < k. g (ml_cut (j + 1) s)"
      by (auto simp: pop)
    have len: "k + 1 \<le> length (ml_entries s)"
      using k(1) True by (cases "ml_entries s") auto
    have "g (ml_cut j s)" if "j < k + 1" for j
      using that k(4) True 1(2) by (cases j) (auto simp: ml_cut_0)
    moreover have "pop_while g s = ml_cut (k + 1) s"
      using True pop k(2) pop_while.simps [of g s] by simp
    ultimately show ?thesis
      using len k(3) by (intro exI [of _ "k + 1"]) simp
  next
    case False
    then have "pop_while g s = ml_cut 0 s"
      using pop_while.simps [of g s] 1(2) by (simp only: ml_cut_0 if_False)
    with False 1(2) show ?thesis by (intro exI [of _ 0]) (auto simp: ml_cut_0)
  qed
qed

text \<open>Why the entry at position \<open>j\<close> of \<open>es\<close>, then the oldest, is discarded.\<close>

definition discard_reason :: "MemoryLogger_Config \<Rightarrow> int \<Rightarrow> BufferedLogEntry list \<Rightarrow> nat \<Rightarrow> bool" where
  "discard_reason c now es j =
     (0 < mc_max_age_ms c \<and> be_timestamp_ms (es ! j) < now - mc_max_age_ms c \<or>
      0 < mc_max_records c \<and> mc_max_records c < length es - j \<or>
      0 < mc_max_bytes c \<and> mc_max_bytes c < entries_bytes (drop j es))"

definition within_limits :: "MemoryLogger_Config \<Rightarrow> BufferedLogEntry list \<Rightarrow> bool" where
  "within_limits c es =
     ((0 < mc_max_records c \<longrightarrow> length es \<le> mc_max_records c) \<and>
      (0 < mc_max_bytes c \<longrightarrow> entries_bytes es \<le> mc_max_bytes c))"

lemma within_limits_drop: "within_limits c es \<Longrightarrow> within_limits c (drop k es)"
proof -
  have "entries_bytes (drop k es) \<le> entries_bytes es"
    by (metis append_take_drop_id entries_bytes_simps(3) le_add2)
  moreover have "length (drop k es) \<le> length es" by simp
  ultimately show "within_limits c es \<Longrightarrow> ?thesis"
    unfolding within_limits_def by (meson order_trans)
qed

lemma evict_expired_cut:
  assumes "bytes_ok s"
  shows "\<exists>k \<le> length (ml_entries s). m_evict_expired now s = ml_cut k s \<and>
    drop k (ml_entries s) =
      (if mc_max_age_ms (ml_config s) \<le> 0 then ml_entries s
       else dropWhile (\<lambda>e. be_timestamp_ms e < now - mc_max_age_ms (ml_config s)) (ml_entries s)) \<and>
    (\<forall>j < k. discard_reason (ml_config s) now (ml_entries s) j)"
proof (cases "mc_max_age_ms (ml_config s) \<le> 0")
  case True
  with assms show ?thesis by (intro exI [of _ 0]) (simp add: m_evict_expired_def ml_cut_0)
next
  case False
  let ?P = "\<lambda>e. be_timestamp_ms e < now - mc_max_age_ms (ml_config s)"
  obtain k where k: "k \<le> length (ml_entries s)"
    "m_evict_expired now s = ml_cut k s"
    "k < length (ml_entries s) \<longrightarrow> \<not> ?P (ml_entries s ! k)" "\<forall>j < k. ?P (ml_entries s ! j)"
    using pop_while_cut [OF assms, of "\<lambda>s'. ?P (hd (ml_entries s'))"] False
    by (auto simp: m_evict_expired_def hd_drop_conv_nth)
  have "takeWhile ?P (ml_entries s) = take k (ml_entries s)"
    by (rule takeWhile_eq_take_P_nth) (use k(3,4) in blast)+
  then have "dropWhile ?P (ml_entries s) = drop k (ml_entries s)"
    using k(1) by (simp only: dropWhile_eq_drop length_take min_absorb2)
  moreover have "\<forall>j < k. discard_reason (ml_config s) now (ml_entries s) j"
    using k(4) False by (simp add: discard_reason_def)
  ultimately show ?thesis
    using k(1,2) False by (intro exI [of _ k]) simp
qed

text \<open>One stage of eviction: discarding starts after \<open>a\<close> entries, each for a reason \<open>R\<close>.\<close>

lemma pop_stage:
  assumes "a \<le> length (ml_entries s)" "\<forall>j < a. R j" "\<forall>j. g (ml_cut j s) \<longrightarrow> R j"
  shows "\<exists>b \<le> length (ml_entries s). a \<le> b \<and> pop_while g (ml_cut a s) = ml_cut b s \<and>
    (b < length (ml_entries s) \<longrightarrow> \<not> g (ml_cut b s)) \<and> (\<forall>j < b. R j)"
proof -
  have "bytes_ok (ml_cut a s)" by simp
  from pop_while_cut [OF this, of g] obtain k where k: "k \<le> length (ml_entries s) - a"
    "pop_while g (ml_cut a s) = ml_cut (k + a) s"
    "k < length (ml_entries s) - a \<longrightarrow> \<not> g (ml_cut (k + a) s)" "\<forall>j < k. g (ml_cut (j + a) s)"
    by auto
  have R: "R j" if "j < k + a" for j
  proof (cases "j < a")
    case False
    with that have "j - a < k" "j - a + a = j" by auto
    with k(4) have "g (ml_cut j s)" by metis
    with assms(3) show ?thesis by blast
  qed (use assms(2) in blast)
  from k assms(1) R show ?thesis by (intro exI [of _ "k + a"]) auto
qed

lemma enforce_limits_cut:
  assumes "bytes_ok s"
  shows "\<exists>k \<le> length (ml_entries s). m_enforce_limits now s = ml_cut k s \<and>
    within_limits (ml_config s) (drop k (ml_entries s)) \<and>
    (\<forall>j < k. discard_reason (ml_config s) now (ml_entries s) j)"
proof -
  let ?c = "ml_config s" and ?es = "ml_entries s"
  let ?R = "discard_reason ?c now ?es"
  let ?g2 = "\<lambda>s. mc_max_records (ml_config s) < length (ml_entries s)"
  let ?g3 = "\<lambda>s. mc_max_bytes (ml_config s) < ml_total_bytes s"
  obtain a where a: "a \<le> length ?es" "m_evict_expired now s = ml_cut a s" "\<forall>j < a. ?R j"
    using evict_expired_cut [OF assms] by blast
  let ?s2 = "if 0 < mc_max_records ?c then pop_while ?g2 (ml_cut a s) else ml_cut a s"
  have "\<exists>b \<le> length ?es. ?s2 = ml_cut b s \<and> (\<forall>j < b. ?R j) \<and>
      (0 < mc_max_records ?c \<longrightarrow> length ?es - b \<le> mc_max_records ?c)"
  proof (cases "0 < mc_max_records ?c")
    case True
    then have "\<forall>j. ?g2 (ml_cut j s) \<longrightarrow> ?R j" by (simp add: discard_reason_def)
    from pop_stage [OF a(1) a(3) this] obtain b where b: "b \<le> length ?es"
      "pop_while ?g2 (ml_cut a s) = ml_cut b s" "b < length ?es \<longrightarrow> \<not> ?g2 (ml_cut b s)"
      "\<forall>j < b. ?R j" by blast
    from b(3) have "length ?es - b \<le> mc_max_records ?c"
      by (cases "b < length ?es") simp_all
    with b True show ?thesis by (intro exI [of _ b]) simp
  next
    case False
    with a(1,3) show ?thesis by (intro exI [of _ a]) simp
  qed
  then obtain b where b: "b \<le> length ?es" "?s2 = ml_cut b s" "\<forall>j < b. ?R j"
    "0 < mc_max_records ?c \<longrightarrow> length ?es - b \<le> mc_max_records ?c"
    by (elim exE conjE) (rule that)
  have enf: "m_enforce_limits now s = (if 0 < mc_max_bytes ?c then pop_while ?g3 (ml_cut b s) else ml_cut b s)"
    unfolding m_enforce_limits_def Let_def a(2) ml_cut_sel b(2) by simp
  show ?thesis
  proof (cases "0 < mc_max_bytes ?c")
    case True
    then have "\<forall>j. ?g3 (ml_cut j s) \<longrightarrow> ?R j" by (simp add: discard_reason_def)
    from pop_stage [OF b(1) b(3) this] obtain k where k: "k \<le> length ?es" "b \<le> k"
      "pop_while ?g3 (ml_cut b s) = ml_cut k s" "k < length ?es \<longrightarrow> \<not> ?g3 (ml_cut k s)"
      "\<forall>j < k. ?R j" by blast
    have "entries_bytes (drop k ?es) \<le> mc_max_bytes ?c"
      using k(1,4) by (cases "k < length ?es") (auto simp: not_less)
    moreover have "0 < mc_max_records ?c \<longrightarrow> length ?es - k \<le> mc_max_records ?c"
      using b(4) k(2) by auto
    ultimately show ?thesis
      using k(1,3,5) True enf by (intro exI [of _ k]) (simp add: within_limits_def)
  next
    case False
    with b enf show ?thesis by (intro exI [of _ b]) (simp add: within_limits_def)
  qed
qed

section \<open>Logging\<close>

lemma discard_reason_snoc:
  "discard_reason c now es j \<Longrightarrow> j < length es \<Longrightarrow> discard_reason c now (es @ [e]) j"
  by (auto simp: discard_reason_def nth_append)

lemma discard_reason_drop:
  "discard_reason c now (drop a es) j \<Longrightarrow> a \<le> length es \<Longrightarrow> discard_reason c now es (j + a)"
  by (auto simp: discard_reason_def add.commute)

definition ml_filtered :: "LogLevel \<Rightarrow> LogRecord \<Rightarrow> bool" where
  "ml_filtered level record = (\<not> lr_raw_mode record \<and> lr_log_level record < level)"

lemma memory_log_cut:
  fixes message :: string and s :: "'cb MemoryLogger"
  assumes "bytes_ok s" "\<not> ml_filtered (ml_log_level s) record"
  defines "all \<equiv> ml_entries s @ [memory_entry record message]"
  shows "\<exists>k \<le> length all. ml_entries (MemoryLogger_log mono_ms record message s) = drop k all \<and>
    within_limits (ml_config s) (drop k all) \<and>
    (\<forall>j < k. discard_reason (ml_config s) (lr_timestamp_ms record) all j) \<and>
    bytes_ok (MemoryLogger_log mono_ms record message s)"
proof -
  let ?e = "memory_entry record message" and ?now = "lr_timestamp_ms record" and ?es = "ml_entries s"
  obtain a where a: "a \<le> length ?es" "m_evict_expired ?now s = ml_cut a s"
    "\<forall>j < a. discard_reason (ml_config s) ?now ?es j"
    using evict_expired_cut [OF assms(1)] by blast
  let ?s1 = "ml_push mono_ms ?e (ml_cut a s)"
  have s1: "bytes_ok ?s1" "ml_entries ?s1 = drop a all" "ml_config ?s1 = ml_config s"
    using a(1) by (simp_all add: ml_push_def bytes_ok_def all_def)
  from enforce_limits_cut [OF s1(1), of ?now] obtain k where k: "k \<le> length (drop a all)"
    "m_enforce_limits ?now ?s1 = ml_cut k ?s1" "within_limits (ml_config s) (drop k (drop a all))"
    "\<forall>j < k. discard_reason (ml_config s) ?now (drop a all) j"
    unfolding s1 by blast
  have R: "discard_reason (ml_config s) ?now all j" if "j < k + a" for j
  proof (cases "j < a")
    case True
    with a show ?thesis unfolding all_def by (intro discard_reason_snoc) auto
  next
    case False
    with that k(4) have "discard_reason (ml_config s) ?now (drop a all) (j - a)" by simp
    from discard_reason_drop [OF this] a(1) False show ?thesis by (simp add: all_def)
  qed
  have log: "MemoryLogger_log mono_ms record message s = notify_callbacks (to_snapshot ?e) (ml_cut k ?s1)"
    using assms(2) a(2) k(2) by (auto simp: MemoryLogger_log_def ml_filtered_def Let_def)
  have "ml_entries (MemoryLogger_log mono_ms record message s) = drop (k + a) all"
    "bytes_ok (MemoryLogger_log mono_ms record message s)"
    unfolding log notify_callbacks_def by (simp_all add: s1 bytes_ok_def)
  moreover have "k + a \<le> length all" using k(1) a(1) by (simp add: all_def)
  ultimately show ?thesis using R k(3) by (intro exI [of _ "k + a"]) simp
qed

lemma memory_log_filtered:
  "ml_filtered (ml_log_level s) record \<Longrightarrow> MemoryLogger_log mono_ms record message s = s"
  by (simp add: MemoryLogger_log_def ml_filtered_def)

lemma pop_front_frame [simp]:
  "ml_config (m_pop_front s) = ml_config s" "ml_log_level (m_pop_front s) = ml_log_level s"
  "ml_callbacks (m_pop_front s) = ml_callbacks s" "ml_notified (m_pop_front s) = ml_notified s"
  by (simp_all add: m_pop_front_def split: list.split)

lemma pop_while_frame [simp]:
  "ml_config (pop_while g s) = ml_config s" "ml_log_level (pop_while g s) = ml_log_level s"
  "ml_callbacks (pop_while g s) = ml_callbacks s" "ml_notified (pop_while g s) = ml_notified s"
  by (induction g s rule: pop_while.induct; subst pop_while.simps; simp)+

lemma evict_frame [simp]:
  "ml_config (m_evict_expired now s) = ml_config s"
  "ml_log_level (m_evict_expired now s) = ml_log_level s"
  "ml_callbacks (m_evict_expired now s) = ml_callbacks s"
  "ml_notified (m_evict_expired now s) = ml_notified s"
  by (simp_all add: m_evict_expired_def Let_def)

lemma enforce_frame [simp]:
  "ml_config (m_enforce_limits now s) = ml_config s"
  "ml_log_level (m_enforce_limits now s) = ml_log_level s"
  "ml_callbacks (m_enforce_limits now s) = ml_callbacks s"
  "ml_notified (m_enforce_limits now s) = ml_notified s"
  by (simp_all add: m_enforce_limits_def Let_def)

lemma log_frame [simp]:
  "ml_config (MemoryLogger_log m r msg s) = ml_config s"
  "ml_log_level (MemoryLogger_log m r msg s) = ml_log_level s"
  "ml_callbacks (MemoryLogger_log m r msg s) = ml_callbacks s"
  by (simp_all add: MemoryLogger_log_def notify_callbacks_def ml_push_def Let_def)

interpretation memory_level: levelled_logger "memory_ilogger now mono_ms"
  by unfold_locales (simp_all add: memory_ilogger_def)

section \<open>Histories of calls\<close>

datatype 'cb memory_op =
    MLog int LogRecord string | MSetLevel LogLevel | MStrings int | MEntries int
  | MRange int int int nat | MRecent int int nat int LogReadOrder | MClear LogClearOptions
  | MAdd 'cb | MRemove u64

primrec memory_apply :: "'cb memory_op \<Rightarrow> 'cb MemoryLogger \<Rightarrow> 'cb MemoryLogger" where
  "memory_apply (MLog m r msg) s = MemoryLogger_log m r msg s"
| "memory_apply (MSetLevel level) s = s\<lparr>ml_log_level := level\<rparr>"
| "memory_apply (MStrings now) s = snd (MemoryLogger_get_buffered_strings now s)"
| "memory_apply (MEntries now) s = snd (MemoryLogger_get_buffered_entries now s)"
| "memory_apply (MRange now a b n) s = snd (read_range now a b n s)"
| "memory_apply (MRecent now now_ms n p ord) s = snd (read_recent now now_ms n p ord s)"
| "memory_apply (MClear opts) s = snd (MemoryLogger_clear_logs opts s)"
| "memory_apply (MAdd cb) s = snd (add_log_callback cb s)"
| "memory_apply (MRemove cid) s = snd (remove_log_callback cid s)"

definition memory_run :: "MemoryLogger_Config \<Rightarrow> 'cb memory_op list \<Rightarrow> 'cb MemoryLogger" where
  "memory_run c ops = foldl (\<lambda>s op. memory_apply op s) (MemoryLogger_init c) ops"

text \<open>The level in force and the records accepted since the last \<open>clear_logs\<close>.\<close>

fun history_step :: "LogLevel \<times> BufferedLogEntry list \<Rightarrow> 'cb memory_op \<Rightarrow> LogLevel \<times> BufferedLogEntry list" where
  "history_step (level, h) (MLog m r msg) =
     (level, if ml_filtered level r then h else h @ [memory_entry r msg])"
| "history_step (level, h) (MSetLevel level') = (level', h)"
| "history_step (level, h) (MClear opts) = (level, [])"
| "history_step lh op = lh"

definition memory_history :: "'cb memory_op list \<Rightarrow> LogLevel \<times> BufferedLogEntry list" where
  "memory_history ops = foldl history_step (LOG_LVL_TRACE, []) ops"

definition ml_inv :: "MemoryLogger_Config \<Rightarrow> LogLevel \<times> BufferedLogEntry list \<Rightarrow> 'cb MemoryLogger \<Rightarrow> bool" where
  "ml_inv c lh s =
     (ml_config s = c \<and> bytes_ok s \<and> within_limits c (ml_entries s) \<and> map_inv (ml_callbacks s) \<and>
      ml_log_level s = fst lh \<and> suffix (ml_entries s) (snd lh))"

lemma ml_inv_evict [inv_intros]: "ml_inv c lh s \<Longrightarrow> ml_inv c lh (m_evict_expired now s)"
proof -
  assume inv: "ml_inv c lh s"
  then have "bytes_ok s" by (simp add: ml_inv_def)
  from evict_expired_cut [OF this] obtain k where k: "m_evict_expired now s = ml_cut k s" by blast
  have "suffix (drop k (ml_entries s)) (snd lh)"
    using inv suffix_drop suffix_order.trans unfolding ml_inv_def by blast
  with inv show ?thesis unfolding k by (simp add: ml_inv_def within_limits_drop)
qed

lemma ml_inv_log [inv_intros]:
  assumes "ml_inv c (level, h) s"
  shows "ml_inv c (history_step (level, h) (MLog m r msg)) (MemoryLogger_log m r msg s)"
proof (cases "ml_filtered level r")
  case True
  with assms show ?thesis by (simp add: memory_log_filtered ml_inv_def)
next
  case False
  let ?all = "ml_entries s @ [memory_entry r msg]"
  from assms have s: "bytes_ok s" "ml_log_level s = level" "suffix (ml_entries s) h" "ml_config s = c"
    "map_inv (ml_callbacks s)" by (simp_all add: ml_inv_def)
  from memory_log_cut [OF s(1), of r msg m] False s obtain k where
    k: "ml_entries (MemoryLogger_log m r msg s) = drop k ?all" "within_limits c (drop k ?all)"
    "bytes_ok (MemoryLogger_log m r msg s)" by blast
  have "suffix (drop k ?all) ?all" by (rule suffix_drop)
  moreover have "suffix ?all (h @ [memory_entry r msg])" using s(3) by simp
  ultimately have "suffix (drop k ?all) (h @ [memory_entry r msg])" by (rule suffix_order.trans)
  with False s k show ?thesis by (simp add: ml_inv_def)
qed

lemma ml_inv_apply: "ml_inv c lh s \<Longrightarrow> ml_inv c (history_step lh op) (memory_apply op s)"
proof (cases op)
  case (MLog m r msg)
  assume "ml_inv c lh s"
  with MLog ml_inv_log [of c "fst lh" "snd lh" s m r msg] show ?thesis by simp
next
  case (MSetLevel level)
  assume "ml_inv c lh s"
  with MSetLevel show ?thesis by (cases lh) (simp add: ml_inv_def bytes_ok_def)
next
  case (MClear opts)
  assume "ml_inv c lh s"
  with MClear show ?thesis
    by (cases lh) (simp add: ml_inv_def bytes_ok_def memory_defs within_limits_def)
qed (auto simp: memory_defs ml_inv_evict, auto simp: ml_inv_def bytes_ok_def)

lemma memory_run_inv: "ml_inv c (memory_history ops) (memory_run c ops)"
proof (induction ops rule: rev_induct)
  case Nil
  show ?case
    by (simp add: ml_inv_def memory_run_def memory_history_def MemoryLogger_init_def bytes_ok_def
        within_limits_def map_inv_def)
next
  case (snoc op ops)
  then show ?case by (simp add: memory_run_def memory_history_def ml_inv_apply)
qed

section \<open>Queries\<close>

lemma collect_eq:
  "limit = 0 \<or> length out < limit \<Longrightarrow>
   collect P limit out es = out @ map to_snapshot
     (if limit = 0 then filter P es else take (limit - length out) (filter P es))"
proof (induction es arbitrary: out)
  case (Cons e es)
  show ?case
  proof (cases "P e \<and> (limit = 0 \<or> Suc (length out) < limit)")
    case True
    then have "limit - length out = Suc (limit - Suc (length out))" if "limit \<noteq> 0"
      using that by arith
    with True Cons.IH [of "out @ [to_snapshot e]"] show ?thesis by (simp add: Let_def)
  next
    case False
    then consider "\<not> P e" | "P e" "limit = Suc (length out)" using Cons.prems by linarith
    then show ?thesis
    proof cases
      case 1
      with Cons show ?thesis by simp
    next
      case 2
      then show ?thesis by (simp add: Let_def)
    qed
  qed
qed simp

text \<open>Reference definitions of the queries, on the live (not expired) entries.\<close>

definition live_entries :: "int \<Rightarrow> 'cb MemoryLogger \<Rightarrow> BufferedLogEntry list" where
  "live_entries now s =
     (if mc_max_age_ms (ml_config s) \<le> 0 then ml_entries s
      else dropWhile (\<lambda>e. be_timestamp_ms e < now - mc_max_age_ms (ml_config s)) (ml_entries s))"

definition first_of :: "nat \<Rightarrow> 'a list \<Rightarrow> 'a list" where
  "first_of limit xs = (if limit = 0 then xs else take limit xs)"

definition last_of :: "nat \<Rightarrow> 'a list \<Rightarrow> 'a list" where
  "last_of limit xs = (if limit = 0 then xs else drop (length xs - limit) xs)"

lemma evict_live: "bytes_ok s \<Longrightarrow> ml_entries (m_evict_expired now s) = live_entries now s"
  using evict_expired_cut [of s now] unfolding live_entries_def by auto

lemma collect_first: "collect P limit [] es = map to_snapshot (first_of limit (filter P es))"
  by (cases limit) (simp_all add: collect_eq first_of_def)

lemma first_of_rev: "first_of n (rev xs) = rev (last_of n xs)"
  by (simp add: first_of_def last_of_def take_rev)

section \<open>Properties\<close>

text \<open>C18: After any sequence of calls, the buffer holds a suffix (the newest) of the records
  accepted since the last \<open>clear_logs\<close>, within the count and byte limits, and the running byte
  total is the sum of the message lengths.\<close>

theorem memory_keeps_newest:
  "suffix (ml_entries (memory_run c ops)) (snd (memory_history ops)) \<and>
   (0 < mc_max_records c \<longrightarrow> length (ml_entries (memory_run c ops)) \<le> mc_max_records c) \<and>
   (0 < mc_max_bytes c \<longrightarrow> sum_list (map (length \<circ> be_message) (ml_entries (memory_run c ops))) \<le> mc_max_bytes c) \<and>
   ml_total_bytes (memory_run c ops) = sum_list (map (length \<circ> be_message) (ml_entries (memory_run c ops)))"
proof -
  have "entries_bytes es = sum_list (map (length \<circ> be_message) es)" for es
    unfolding entries_bytes_def by (induction es) (simp_all add: m_entry_bytes_def)
  then show ?thesis
    using memory_run_inv [of c ops] unfolding ml_inv_def within_limits_def bytes_ok_def by metis
qed

definition demo_record :: "int \<Rightarrow> LogRecord" where
  "demo_record ts = make_LogRecord 1 thread_context_init LOG_LVL_INFO ts [] 0 [] [] [] (- 1) False False False"

theorem memory_keeps_newest_witness:
  "suffix (ml_entries (memory_run \<lparr>mc_max_records = 1, mc_max_bytes = 0, mc_max_age_ms = 0\<rparr>
       [MLog 1 (demo_record 5) ''a'', MLog 2 (demo_record 6) ''b'' :: nat memory_op]))
     [memory_entry (demo_record 5) ''a'', memory_entry (demo_record 6) ''b'']"
  using memory_keeps_newest [of "\<lparr>mc_max_records = 1, mc_max_bytes = 0, mc_max_age_ms = 0\<rparr>"
    "[MLog 1 (demo_record 5) ''a'', MLog 2 (demo_record 6) ''b'' :: nat memory_op]"]
  by (simp add: memory_history_def ml_filtered_def demo_record_def make_LogRecord_def)

text \<open>\<open>log\<close> discards only what it must: the buffer becomes the old entries and the new one
  without some number of the oldest, and each entry discarded was expired, or keeping it would
  have exceeded the count or the byte limit.\<close>

theorem memory_log_retention:
  assumes "bytes_ok s" "lr_raw_mode record \<or> ml_log_level s \<le> lr_log_level record"
  shows "\<exists>k. ml_entries (MemoryLogger_log mono_ms record message s) =
      drop k (ml_entries s @ [memory_entry record message]) \<and>
    (\<forall>j < k. discard_reason (ml_config s) (lr_timestamp_ms record)
      (ml_entries s @ [memory_entry record message]) j)"
  using memory_log_cut [OF assms(1), of "record" message mono_ms] assms(2)
  unfolding ml_filtered_def by (auto simp: not_less)

theorem memory_log_retention_witness:
  "\<exists>k. ml_entries (MemoryLogger_log 1 (demo_record 5) ''a'' (MemoryLogger_init MemoryLogger_Config_default :: nat MemoryLogger)) =
     drop k [memory_entry (demo_record 5) ''a'']"
  using memory_log_retention [of "MemoryLogger_init MemoryLogger_Config_default :: nat MemoryLogger"
      "demo_record 5" 1 "''a''"]
  by (auto simp: bytes_ok_def MemoryLogger_init_def)



end
