(* ===== verification/LoggerProps.thy ===== *)
theory LoggerProps
  imports Logger MemoryLogger
begin

text \<open>
  Correctness of the dispatcher as a sequence of calls: the registry and its
  snapshot always list the same strategies, a record reaches exactly the
  eligible ones, and clearing everything aggregates the backends' answers.
\<close>

section \<open>Sweeping over strategies\<close>

definition sweep ::
  "(('l, 'f) LoggerStrategy \<Rightarrow> ('l, 'f) LoggerStrategy) \<Rightarrow> nat list \<Rightarrow> ('l, 'f) Logger \<Rightarrow> ('l, 'f) Logger" where
  "sweep g ps s = foldl (\<lambda>s p. update_at p g s) s ps"

lemma update_at_sel [simp]:
  "lg_loggers (update_at p g s) = lg_loggers s" "lg_snapshot (update_at p g s) = lg_snapshot s"
  "lg_shutdown (update_at p g s) = lg_shutdown s"
  "lg_heap (update_at p g s) = (lg_heap s)[p := g (lg_heap s ! p)]"
  by (simp_all add: update_at_def)

lemma sweep_simps [simp]:
  "sweep g [] s = s" "sweep g (p # ps) s = sweep g ps (update_at p g s)"
  by (simp_all add: sweep_def)

lemma sweep_sel [simp]:
  "lg_loggers (sweep g ps s) = lg_loggers s" "lg_snapshot (sweep g ps s) = lg_snapshot s"
  "lg_shutdown (sweep g ps s) = lg_shutdown s"
  "length (lg_heap (sweep g ps s)) = length (lg_heap s)"
  by (induction ps arbitrary: s) simp_all

lemma sweep_heap:
  "distinct ps \<Longrightarrow> set ps \<subseteq> {..<length (lg_heap s)} \<Longrightarrow> i < length (lg_heap s) \<Longrightarrow>
   lg_heap (sweep g ps s) ! i = (if i \<in> set ps then g (lg_heap s ! i) else lg_heap s ! i)"
proof (induction ps arbitrary: s)
  case (Cons p ps)
  have "set ps \<subseteq> {..<length (lg_heap (update_at p g s))}" using Cons.prems by simp
  with Cons.IH [of "update_at p g s"] Cons.prems show ?case by (auto simp: nth_list_update)
qed simp

lemma sweep_shutdown_dep:
  "foldl (\<lambda>s p. update_at p (d (lg_shutdown s)) s) s ps = sweep (d (lg_shutdown s)) ps s"
  by (induction ps arbitrary: s) simp_all

lemma sweep_all:
  "lg_heap (sweep g [0..<length (lg_heap s)] s) = map g (lg_heap s)"
proof (rule nth_equalityI)
  fix i
  assume "i < length (lg_heap (sweep g [0..<length (lg_heap s)] s))"
  with sweep_heap [of "[0..<length (lg_heap s)]" s i g]
  show "lg_heap (sweep g [0..<length (lg_heap s)] s) ! i = map g (lg_heap s) ! i"
    by (simp add: atLeast0LessThan)
qed simp

section \<open>Sequences of calls\<close>

datatype ('l, 'f) logger_op =
    LAdd 'l "'f option" bool | LEnable int bool | LSingle int bool | LOffset int int
  | LLevelAll LogLevel | LLevel int LogLevel | LLog LogRecord
  | LStrings int | LEntries int | LWait | LClear int LogClearOptions | LClearAll LogClearOptions
  | LShutdown

text \<open>A call through a null formatter ends the program; the state is left as it was.\<close>

primrec lg_apply :: "'l ILogger \<Rightarrow> 'f ILogFormatter \<Rightarrow> ('l, 'f) logger_op \<Rightarrow> ('l, 'f) Logger \<Rightarrow> ('l, 'f) Logger" where
  "lg_apply il fm (LAdd l f single) s = add_logger il fm l f single s"
| "lg_apply il fm (LEnable i b) s = set_logger_enabled i b s"
| "lg_apply il fm (LSingle i b) s = set_logger_single_mode i b s"
| "lg_apply il fm (LOffset i ms) s = (case set_timestamp_offset fm i ms s of None \<Rightarrow> s | Some s' \<Rightarrow> s')"
| "lg_apply il fm (LLevelAll level) s = set_log_level_all il level s"
| "lg_apply il fm (LLevel i level) s = set_log_level_at il i level s"
| "lg_apply il fm (LLog record) s = Logger_log il fm record s"
| "lg_apply il fm (LStrings i) s = snd (get_buffered_strings_at il i s)"
| "lg_apply il fm (LEntries i) s = snd (get_buffered_entries_at il i s)"
| "lg_apply il fm LWait s = Logger_wait il s"
| "lg_apply il fm (LClear i opts) s = snd (clear_logger il i opts s)"
| "lg_apply il fm (LClearAll opts) s = snd (clear_all_loggers il opts s)"
| "lg_apply il fm LShutdown s = Logger_shutdown il s"

definition lg_run :: "'l ILogger \<Rightarrow> 'f ILogFormatter \<Rightarrow> ('l, 'f) logger_op list \<Rightarrow> ('l, 'f) Logger" where
  "lg_run il fm ops = foldl (\<lambda>s op. lg_apply il fm op s) Logger_init ops"

definition lg_inv :: "('l, 'f) Logger \<Rightarrow> bool" where
  "lg_inv s = (lg_snapshot s = lg_loggers s \<and> lg_loggers s = [0..<length (lg_heap s)])"

lemma lg_inv_init: "lg_inv Logger_init"
  by (simp add: lg_inv_def Logger_init_def)

lemma lg_inv_update [inv_intros]: "lg_inv s \<Longrightarrow> lg_inv (update_at p g s)"
  by (simp add: lg_inv_def)

lemma lg_inv_sweep [inv_intros]: "lg_inv s \<Longrightarrow> lg_inv (sweep g ps s)"
  by (simp add: lg_inv_def)

lemma Logger_log_sweep:
  "Logger_log il fm record s =
     (if lg_shutdown s then s
      else if 0 \<le> lr_logger_index record then
        (if int (length (lg_snapshot s)) \<le> lr_logger_index record then s
         else update_at (lg_snapshot s ! nat (lr_logger_index record))
                (dispatch_to_strategy_if_allowed il fm False record True) s)
      else sweep (dispatch_to_strategy_if_allowed il fm False record False) (lg_snapshot s) s)"
  by (simp add: Logger_log_def
      sweep_shutdown_dep [of "\<lambda>b. dispatch_to_strategy_if_allowed il fm b record False"])

lemma clear_each_inv: "lg_inv s \<Longrightarrow> lg_inv (snd (clear_each il opts ps t s))"
proof (induction il opts ps t s rule: clear_each.induct)
  case (2 il opts p ps t s)
  then show ?case
    by (auto simp: clear_one_def lg_inv_update split: prod.split)
qed simp

lemma lg_inv_apply: "lg_inv s \<Longrightarrow> lg_inv (lg_apply il fm op s)"
proof (cases op)
  case (LAdd l f single)
  assume "lg_inv s"
  with LAdd show ?thesis
    by (simp add: add_logger_def publish_strategy_snapshot_def lg_inv_def)
next
  case (LClearAll opts)
  assume "lg_inv s"
  with LClearAll clear_each_inv [of s il opts "lg_loggers s"] show ?thesis
    by (simp add: clear_all_loggers_def split: prod.split) (metis snd_conv)
next
  case LShutdown
  assume "lg_inv s"
  then have "lg_inv (sweep g ps (s\<lparr>lg_shutdown := True\<rparr>)\<lparr>lg_executor_stopped := True\<rparr>)" for g ps
    by (simp add: lg_inv_def)
  with LShutdown \<open>lg_inv s\<close> show ?thesis
    by (simp add: Logger_shutdown_def sweep_def [symmetric])
qed (auto simp: lg_inv_update lg_inv_sweep set_logger_enabled_def set_logger_single_mode_def
      set_timestamp_offset_def set_log_level_all_def set_log_level_at_def Logger_log_sweep
      get_buffered_strings_at_def get_buffered_entries_at_def get_buffered_at_def Logger_wait_def
      clear_logger_def clear_one_def sweep_def [symmetric] split: option.split prod.split)

lemma lg_run_inv: "lg_inv (lg_run il fm ops)"
  unfolding lg_run_def
  by (induction ops rule: rev_induct) (simp_all add: lg_inv_init lg_inv_apply)

section \<open>Delivery\<close>

text \<open>The strategies a record is meant for, and the text each of them receives.\<close>

definition eligible :: "'l ILogger \<Rightarrow> ('l, 'f) Logger \<Rightarrow> LogRecord \<Rightarrow> nat \<Rightarrow> bool" where
  "eligible il s record i =
     (\<not> lg_shutdown s \<and> sg_enabled (lg_heap s ! i) \<and>
      (if 0 \<le> lr_logger_index record then int i = lr_logger_index record
       else \<not> sg_single_mode (lg_heap s ! i)) \<and>
      (lr_raw_mode record \<or> il_get_log_level il (sg_logger (lg_heap s ! i)) \<le> lr_log_level record))"

definition strategy_message :: "'f ILogFormatter \<Rightarrow> LogRecord \<Rightarrow> 'f option \<Rightarrow> string" where
  "strategy_message fm record f =
     (case f of
        None \<Rightarrow> if lr_raw_mode record then lr_format record else []
      | Some f \<Rightarrow>
          if lr_raw_mode record \<or> if_is_passthrough fm f then lr_format record
          else if_format fm record f)"

lemma dispatch_message:
  "dispatch_to_strategy il fm record g =
   g\<lparr>sg_logger := il_log il record (strategy_message fm record (sg_formatter g)) (sg_logger g)\<rparr>"
  by (simp add: dispatch_to_strategy_def strategy_message_def split: option.split)

lemma dispatch_if_allowed_eq:
  "dispatch_to_strategy_if_allowed il fm False record targeted g =
   (if (targeted \<or> \<not> sg_single_mode g) \<and> sg_enabled g \<and>
       (lr_raw_mode record \<or> il_get_log_level il (sg_logger g) \<le> lr_log_level record)
    then dispatch_to_strategy il fm record g else g)"
  by (auto simp: dispatch_to_strategy_if_allowed_def not_less)

lemma log_heap_nth:
  assumes "lg_inv s" "i < length (lg_heap s)"
  shows "lg_heap (Logger_log il fm record s) ! i =
    (if eligible il s record i then dispatch_to_strategy il fm record (lg_heap s ! i) else lg_heap s ! i)"
proof (cases "lg_shutdown s")
  case False
  have snap: "lg_snapshot s = [0..<length (lg_heap s)]" using assms(1) by (simp add: lg_inv_def)
  show ?thesis
  proof (cases "0 \<le> lr_logger_index record")
    case True
    with False assms(2) show ?thesis
      by (auto simp: Logger_log_sweep snap eligible_def dispatch_if_allowed_eq nth_list_update)
  next
    case broadcast: False
    have "lg_heap (Logger_log il fm record s) =
        map (dispatch_to_strategy_if_allowed il fm False record False) (lg_heap s)"
      using False broadcast by (simp add: Logger_log_sweep snap sweep_all)
    with False broadcast assms(2) show ?thesis
      by (auto simp: eligible_def dispatch_if_allowed_eq)
  qed
qed (simp add: Logger_log_sweep eligible_def)

lemma log_heap_length: "length (lg_heap (Logger_log il fm record s)) = length (lg_heap s)"
  by (simp add: Logger_log_sweep)

text \<open>C20: After any sequence of calls, \<open>log\<close> hands the record to exactly the eligible strategies
  (enabled, addressed by index or not in single mode, level at or above the backend's or raw,
  nothing once shut down), each with the text its formatter gives (the raw format string for raw
  records and passthrough formatters), and touches no other strategy.\<close>

theorem logger_delivery:
  "let s = lg_run il fm ops in
   lg_heap (Logger_log il fm record s) =
     map (\<lambda>i. let g = lg_heap s ! i in
            if eligible il s record i
            then g\<lparr>sg_logger := il_log il record (strategy_message fm record (sg_formatter g)) (sg_logger g)\<rparr>
            else g)
       [0..<length (lg_heap s)]"
  by (auto simp: Let_def log_heap_length log_heap_nth [OF lg_run_inv] dispatch_message
      intro!: nth_equalityI)

section \<open>Clearing all loggers\<close>

definition cleared :: "LogClearResult \<Rightarrow> bool" where
  "cleared r = (cl_status r = Cleared \<and> cl_ok r)"

text \<open>The answers of the backends, asked in registry order.\<close>

fun clear_answers ::
  "'l ILogger \<Rightarrow> LogClearOptions \<Rightarrow> nat list \<Rightarrow> ('l, 'f) Logger \<Rightarrow> LogClearResult list" where
  "clear_answers il options [] s = []"
| "clear_answers il options (p # ps) s =
     (case clear_one il options p s of (one, s') \<Rightarrow> one # clear_answers il options ps s')"

definition tally :: "LogClearResult list \<Rightarrow> clear_tally \<Rightarrow> clear_tally" where
  "tally rs t = foldl (\<lambda>t r. tally_one r t) t rs"

lemma clear_each_tally:
  "fst (clear_each il options ps t s) = tally (clear_answers il options ps s) t"
  unfolding tally_def
  by (induction il options ps t s rule: clear_each.induct) (auto split: prod.split)

lemma tally_counts:
  "ct_supported (tally rs t) = ct_supported t + length (filter cleared rs) \<and>
   ct_unsupported (tally rs t) = ct_unsupported t + length (filter (\<lambda>r. cl_status r = Unsupported) rs) \<and>
   ct_failed (tally rs t) =
     ct_failed t + length (filter (\<lambda>r. \<not> cleared r \<and> cl_status r \<noteq> Unsupported) rs) \<and>
   cl_cleared_records (ct_result (tally rs t)) =
     cl_cleared_records (ct_result t) + sum_list (map cl_cleared_records (filter cleared rs))"
  unfolding tally_def
  by (induction rs arbitrary: t) (auto simp: tally_one_def cleared_def)

text \<open>C21: \<open>clear_all_loggers\<close> succeeds exactly when the system is running, at least one backend
  cleared its records and every other one reports clearing as unsupported; the record count is the
  sum over the backends that cleared, and the status is \<open>Unsupported\<close> only if no backend failed.\<close>

theorem clear_all_aggregates:
  "let s = lg_run il fm ops;
       rs = clear_answers il options (lg_loggers s) s;
       r = fst (clear_all_loggers il options s)
   in cl_ok r = (\<not> lg_shutdown s \<and> (\<exists>a \<in> set rs. cleared a) \<and>
        (\<forall>a \<in> set rs. cleared a \<or> cl_status a = Unsupported)) \<and>
      (\<not> lg_shutdown s \<longrightarrow>
        cl_cleared_records r = sum_list (map cl_cleared_records (filter cleared rs))) \<and>
      (cl_status r = Cleared \<longleftrightarrow> cl_ok r) \<and>
      (cl_status r = Unsupported \<longrightarrow> rs \<noteq> [] \<and> (\<forall>a \<in> set rs. cl_status a = Unsupported))"
proof -
  define s where "s = lg_run il fm ops"
  define rs where "rs = clear_answers il options (lg_loggers s) s"
  define t0 where "t0 = \<lparr>ct_supported = 0, ct_failed = 0, ct_unsupported = 0, ct_result = LogClearResult_init\<rparr>"
  note c = tally_counts [of rs t0]
  have none: "length (filter P rs) = 0 \<longleftrightarrow> (\<forall>a \<in> set rs. \<not> P a)" for P
    by (simp add: filter_empty_conv)
  have excl: "\<not> (cleared a \<and> cl_status a = Unsupported)" for a by (auto simp: cleared_def)
  have r: "fst (clear_all_loggers il options s) =
      (if lg_shutdown s then clear_failed ''logger system is shut down'' else tally_result (tally rs t0))"
    using clear_each_tally [of il options "lg_loggers s" t0 s]
    by (auto simp: clear_all_loggers_def rs_def t0_def split: prod.split)
  show ?thesis
    unfolding Let_def s_def [symmetric] rs_def [symmetric] r
    using c none [of cleared] none [of "\<lambda>r. cl_status r = Unsupported"]
      none [of "\<lambda>r. \<not> cleared r \<and> cl_status r \<noteq> Unsupported"] excl
    by (auto simp: tally_result_def Let_def clear_failed_def LogClearResult_init_def t0_def)
qed

text \<open>A formatter that passes the message on, for examples.\<close>

definition plain_formatter :: "unit ILogFormatter" where
  "plain_formatter =
     \<lparr>if_format = (\<lambda>r f. lr_format r), if_is_passthrough = (\<lambda>f. True),
      if_set_timestamp_offset = (\<lambda>ms f. f), if_supports_concurrent_format = (\<lambda>f. False)\<rparr>"

theorem clear_all_aggregates_witness:
  "cl_ok (fst (clear_all_loggers (memory_ilogger 0 0) LogClearOptions_default
     (lg_run (memory_ilogger 0 0) plain_formatter
       [LAdd (MemoryLogger_init MemoryLogger_Config_default :: nat MemoryLogger) None False])))"
  using clear_all_aggregates [of "memory_ilogger 0 0" plain_formatter
      "[LAdd (MemoryLogger_init MemoryLogger_Config_default :: nat MemoryLogger) None False]"
      LogClearOptions_default]
  by (simp add: Let_def lg_run_def add_logger_def publish_strategy_snapshot_def Logger_init_def
      clear_one_def memory_ilogger_def MemoryLogger_clear_logs_def cleared_def)

end
