(* ===== verification/ShutdownProtocol.thy ===== *)
theory ShutdownProtocol
  imports Prelude
begin

text \<open>
  \<open>Logger::log\<close>, \<open>add_logger\<close> and \<open>shutdown\<close> running in different threads
  (\<open>Logger.hpp\<close>).  The atomic steps are the accesses to the flag \<open>m_shutdown\<close>,
  the critical sections of the registry lock, and taking and releasing the lock
  \<open>exec_mx\<close> of a strategy.  A strategy is its index; only whether it takes part
  in lock elision (\<open>concurrent_dispatch\<close>) matters here.  A broadcast visits the
  indices of its snapshot, a targeted record one index.  The remaining guards of
  a dispatch (single mode, enabled, level) only refuse deliveries; refusing is
  always possible.
\<close>

section \<open>The threads\<close>

datatype owner = LogThread nat | Stopper

datatype log_pc = LpIdle | LpAt nat nat | LpTry nat nat | LpGo nat nat

datatype stop_pc = SpNone | SpFlagged | SpAt nat nat | SpHold nat nat | SpDone

record sp_state =
  sp_concurrent :: "bool list"
  sp_shutdown :: bool
  sp_registry_locked :: bool
  sp_exec_mx :: "nat \<Rightarrow> owner option"
  sp_pc :: "nat \<Rightarrow> log_pc"
  sp_stop :: stop_pc

datatype sp_event = LogCalled nat | ShutdownCalled nat

definition sp_init :: sp_state where
  "sp_init = \<lparr>sp_concurrent = [], sp_shutdown = False, sp_registry_locked = False,
     sp_exec_mx = (\<lambda>_. None), sp_pc = (\<lambda>_. LpIdle), sp_stop = SpNone\<rparr>"

datatype sp_move =
    AddCheck | AddPush bool
  | LogStart nat nat nat | LogEnter nat | LogPass nat | LogRefuse nat | LogDeliver nat | LogEnd nat
  | StopFlag | StopSnapshot | StopLock | StopCall | StopEnd

abbreviation set_pc :: "nat \<Rightarrow> log_pc \<Rightarrow> sp_state \<Rightarrow> sp_state" where
  "set_pc p c s \<equiv> s\<lparr>sp_pc := (sp_pc s)(p := c)\<rparr>"

text \<open>\<open>lock_guard\<close> on \<open>exec_mx\<close>, skipped for a concurrent strategy.\<close>

definition sp_release :: "nat \<Rightarrow> sp_state \<Rightarrow> sp_state" where
  "sp_release k s =
     (if sp_concurrent s ! k then s else s\<lparr>sp_exec_mx := (sp_exec_mx s)(k := None)\<rparr>)"

definition sp_act_add :: "sp_move \<Rightarrow> sp_state \<Rightarrow> (sp_event list \<times> sp_state) option" where
  "sp_act_add m s =
     (case m of
        AddCheck \<Rightarrow>
          if \<not> sp_registry_locked s \<and> \<not> sp_shutdown s then Some ([], s\<lparr>sp_registry_locked := True\<rparr>) else None
      | AddPush c \<Rightarrow>
          if sp_registry_locked s
          then Some ([], s\<lparr>sp_concurrent := sp_concurrent s @ [c], sp_registry_locked := False\<rparr>) else None
      | _ \<Rightarrow> None)"

definition sp_act_log :: "sp_move \<Rightarrow> sp_state \<Rightarrow> (sp_event list \<times> sp_state) option" where
  "sp_act_log m s =
     (case m of
        LogStart p a b \<Rightarrow>
          if sp_pc s p = LpIdle \<and> \<not> sp_shutdown s \<and> a \<le> b \<and> b \<le> length (sp_concurrent s)
          then Some ([], set_pc p (LpAt a b) s) else None
      | LogEnter p \<Rightarrow>
          (case sp_pc s p of
             LpAt k b \<Rightarrow>
               if \<not> k < b then None
               else if sp_concurrent s ! k then Some ([], set_pc p (LpTry k b) s)
               else if sp_exec_mx s k = None
                 then Some ([], set_pc p (LpTry k b) (s\<lparr>sp_exec_mx := (sp_exec_mx s)(k := Some (LogThread p))\<rparr>))
                 else None
           | _ \<Rightarrow> None)
      | LogPass p \<Rightarrow>
          (case sp_pc s p of
             LpTry k b \<Rightarrow> if \<not> sp_shutdown s then Some ([], set_pc p (LpGo k b) s) else None
           | _ \<Rightarrow> None)
      | LogRefuse p \<Rightarrow>
          (case sp_pc s p of
             LpTry k b \<Rightarrow> Some ([], set_pc p (LpAt (k + 1) b) (sp_release k s))
           | _ \<Rightarrow> None)
      | LogDeliver p \<Rightarrow>
          (case sp_pc s p of
             LpGo k b \<Rightarrow> Some ([LogCalled k], set_pc p (LpAt (k + 1) b) (sp_release k s))
           | _ \<Rightarrow> None)
      | LogEnd p \<Rightarrow>
          (case sp_pc s p of
             LpAt k b \<Rightarrow> if k < b then None else Some ([], set_pc p LpIdle s)
           | _ \<Rightarrow> None)
      | _ \<Rightarrow> None)"

definition sp_act_stop :: "sp_move \<Rightarrow> sp_state \<Rightarrow> (sp_event list \<times> sp_state) option" where
  "sp_act_stop m s =
     (case m of
        StopFlag \<Rightarrow>
          if \<not> sp_shutdown s then Some ([], s\<lparr>sp_shutdown := True, sp_stop := SpFlagged\<rparr>) else None
      | StopSnapshot \<Rightarrow>
          if sp_stop s = SpFlagged \<and> \<not> sp_registry_locked s
          then Some ([], s\<lparr>sp_stop := SpAt 0 (length (sp_concurrent s))\<rparr>) else None
      | StopLock \<Rightarrow>
          (case sp_stop s of
             SpAt k n \<Rightarrow>
               if k < n \<and> sp_exec_mx s k = None
               then Some ([], s\<lparr>sp_exec_mx := (sp_exec_mx s)(k := Some Stopper), sp_stop := SpHold k n\<rparr>)
               else None
           | _ \<Rightarrow> None)
      | StopCall \<Rightarrow>
          (case sp_stop s of
             SpHold k n \<Rightarrow>
               Some ([ShutdownCalled k],
                 s\<lparr>sp_exec_mx := (sp_exec_mx s)(k := None), sp_stop := SpAt (k + 1) n\<rparr>)
           | _ \<Rightarrow> None)
      | StopEnd \<Rightarrow>
          (case sp_stop s of
             SpAt k n \<Rightarrow> if k < n then None else Some ([], s\<lparr>sp_stop := SpDone\<rparr>)
           | _ \<Rightarrow> None)
      | _ \<Rightarrow> None)"

inductive sp_step :: "sp_state \<Rightarrow> sp_event list \<Rightarrow> sp_state \<Rightarrow> bool" where
  add: "sp_act_add m s = Some (ev, s') \<Longrightarrow> sp_step s ev s'"
| log: "sp_act_log m s = Some (ev, s') \<Longrightarrow> sp_step s ev s'"
| stop: "sp_act_stop m s = Some (ev, s') \<Longrightarrow> sp_step s ev s'"

inductive sp_run :: "sp_event list \<Rightarrow> sp_state \<Rightarrow> bool" where
  init: "sp_run [] sp_init"
| step: "sp_run evs s \<Longrightarrow> sp_step s ev s' \<Longrightarrow> sp_run (evs @ ev) s'"

section \<open>Invariant\<close>

text \<open>How many backends \<open>shutdown\<close> has called, and the indices it called, in order.\<close>

primrec progress :: "nat \<Rightarrow> stop_pc \<Rightarrow> nat" where
  "progress len SpNone = 0"
| "progress len SpFlagged = 0"
| "progress len (SpAt k n) = k"
| "progress len (SpHold k n) = k"
| "progress len SpDone = len"

fun shutdowns :: "sp_event list \<Rightarrow> nat list" where
  "shutdowns [] = []"
| "shutdowns (ShutdownCalled k # evs) = k # shutdowns evs"
| "shutdowns (LogCalled k # evs) = shutdowns evs"

lemma shutdowns_append [simp]: "shutdowns (xs @ ys) = shutdowns xs @ shutdowns ys"
  by (induction xs rule: shutdowns.induct) simp_all

lemma shutdowns_set: "ShutdownCalled k \<in> set evs \<longleftrightarrow> k \<in> set (shutdowns evs)"
  by (induction evs rule: shutdowns.induct) auto

text \<open>The strategy whose lock a logging thread relies on.\<close>

primrec busy_at :: "log_pc \<Rightarrow> nat option" where
  "busy_at LpIdle = None"
| "busy_at (LpAt k b) = None"
| "busy_at (LpTry k b) = Some k"
| "busy_at (LpGo k b) = Some k"

primrec pc_end :: "log_pc \<Rightarrow> nat" where
  "pc_end LpIdle = 0"
| "pc_end (LpAt k b) = b"
| "pc_end (LpTry k b) = max (Suc k) b"
| "pc_end (LpGo k b) = max (Suc k) b"

definition stop_ok :: "sp_state \<Rightarrow> bool" where
  "stop_ok s =
     (case sp_stop s of
        SpNone \<Rightarrow> \<not> sp_shutdown s
      | SpFlagged \<Rightarrow> sp_shutdown s
      | SpAt k n \<Rightarrow> sp_shutdown s \<and> \<not> sp_registry_locked s \<and> n = length (sp_concurrent s) \<and> k \<le> n
      | SpHold k n \<Rightarrow> sp_shutdown s \<and> \<not> sp_registry_locked s \<and> n = length (sp_concurrent s) \<and> k < n \<and>
          sp_exec_mx s k = Some Stopper
      | SpDone \<Rightarrow> sp_shutdown s \<and> \<not> sp_registry_locked s)"

definition locks_ok :: "sp_state \<Rightarrow> bool" where
  "locks_ok s =
     (\<forall>p. pc_end (sp_pc s p) \<le> length (sp_concurrent s) \<and>
       (\<forall>k. busy_at (sp_pc s p) = Some k \<and> \<not> sp_concurrent s ! k \<longrightarrow> sp_exec_mx s k = Some (LogThread p)))"

definition gone_ok :: "sp_state \<Rightarrow> bool" where
  "gone_ok s =
     (\<forall>p k b. sp_pc s p = LpGo k b \<and> \<not> sp_concurrent s ! k \<longrightarrow>
        progress (length (sp_concurrent s)) (sp_stop s) \<le> k)"

definition history_ok :: "sp_event list \<Rightarrow> sp_state \<Rightarrow> bool" where
  "history_ok evs s =
     (shutdowns evs = [0..<progress (length (sp_concurrent s)) (sp_stop s)] \<and>
      (\<forall>xs k ys. evs = xs @ ShutdownCalled k # ys \<and> \<not> sp_concurrent s ! k \<longrightarrow> LogCalled k \<notin> set ys))"

definition sp_inv :: "sp_event list \<Rightarrow> sp_state \<Rightarrow> bool" where
  "sp_inv evs s = (stop_ok s \<and> locks_ok s \<and> gone_ok s \<and> history_ok evs s)"

lemmas sp_inv_defs = sp_inv_def stop_ok_def locks_ok_def gone_ok_def history_ok_def

lemma progress_le: "stop_ok s \<Longrightarrow> progress (length (sp_concurrent s)) (sp_stop s) \<le> length (sp_concurrent s)"
  by (cases "sp_stop s") (auto simp: stop_ok_def)

lemma sp_inv_add:
  assumes "sp_inv evs s" "sp_act_add m s = Some (ev, s')"
  shows "sp_inv (evs @ ev) s'"
proof (cases m)
  case AddCheck
  with assms show ?thesis
    by (auto simp: sp_act_add_def sp_inv_defs split: if_splits stop_pc.splits)
next
  case (AddPush c)
  then have locked: "sp_registry_locked s" and ev: "ev = []"
    and s': "s' = s\<lparr>sp_concurrent := sp_concurrent s @ [c], sp_registry_locked := False\<rparr>"
    using assms(2) by (auto simp: sp_act_add_def split: if_splits)
  have stop: "sp_stop s = SpNone \<or> sp_stop s = SpFlagged"
    using assms(1) locked by (auto simp: sp_inv_def stop_ok_def split: stop_pc.splits)
  have old: "(sp_concurrent s @ [c]) ! k = sp_concurrent s ! k" if "busy_at (sp_pc s p) = Some k" for p k
  proof -
    have "pc_end (sp_pc s p) \<le> length (sp_concurrent s)"
      using assms(1) by (simp add: sp_inv_def locks_ok_def)
    with that show ?thesis by (cases "sp_pc s p") (auto simp: nth_append)
  qed
  have "shutdowns evs = []" using assms(1) stop by (auto simp: sp_inv_def history_ok_def)
  then have "ShutdownCalled k \<notin> set evs" for k by (simp add: shutdowns_set)
  with assms(1) stop old \<open>shutdowns evs = []\<close> show ?thesis
    unfolding s' ev by (auto simp: sp_inv_defs le_SucI)
qed (use assms in \<open>simp_all add: sp_act_add_def\<close>)

lemma release_sel [simp]:
  "sp_concurrent (sp_release k s) = sp_concurrent s" "sp_shutdown (sp_release k s) = sp_shutdown s"
  "sp_registry_locked (sp_release k s) = sp_registry_locked s" "sp_pc (sp_release k s) = sp_pc s"
  "sp_stop (sp_release k s) = sp_stop s"
  by (simp_all add: sp_release_def)

lemma stop_ok_cong:
  assumes "stop_ok s" "sp_stop s' = sp_stop s" "sp_shutdown s' = sp_shutdown s"
    "sp_registry_locked s' = sp_registry_locked s" "sp_concurrent s' = sp_concurrent s"
    "\<And>k n. sp_stop s = SpHold k n \<Longrightarrow> sp_exec_mx s' k = sp_exec_mx s k"
  shows "stop_ok s'"
  using assms unfolding stop_ok_def by (cases "sp_stop s") auto

text \<open>A thread leaving strategy \<open>k\<close>, its lock released.\<close>

lemma locks_leave:
  assumes "locks_ok s" "busy_at (sp_pc s p) = Some k" "b \<le> pc_end (sp_pc s p)"
  shows "locks_ok (set_pc p (LpAt (k + 1) b) (sp_release k s))"
  unfolding locks_ok_def
proof (intro allI conjI impI)
  fix q
  have "pc_end (sp_pc s q) \<le> length (sp_concurrent s)" for q
    using assms(1) by (simp add: locks_ok_def)
  then show "pc_end (sp_pc (set_pc p (LpAt (k + 1) b) (sp_release k s)) q)
      \<le> length (sp_concurrent (set_pc p (LpAt (k + 1) b) (sp_release k s)))"
    using assms(3) order_trans by auto
  fix j
  let ?s = "set_pc p (LpAt (k + 1) b) (sp_release k s)"
  assume "busy_at (sp_pc ?s q) = Some j \<and> \<not> sp_concurrent ?s ! j"
  then have q: "q \<noteq> p" "busy_at (sp_pc s q) = Some j" "\<not> sp_concurrent s ! j"
    by (auto split: if_splits)
  then have "sp_exec_mx s j = Some (LogThread q)" using assms(1) by (simp add: locks_ok_def)
  moreover have "\<not> sp_concurrent s ! k \<longrightarrow> sp_exec_mx s k = Some (LogThread p)"
    using assms(1,2) by (simp add: locks_ok_def)
  ultimately show "sp_exec_mx ?s j = Some (LogThread q)"
    using q by (auto simp: sp_release_def)
qed

lemma locks_enter:
  assumes "locks_ok s" "k < length (sp_concurrent s)" "b \<le> length (sp_concurrent s)"
    and "sp_concurrent s ! k \<and> x = sp_exec_mx s \<or>
      sp_exec_mx s k = None \<and> x = (sp_exec_mx s)(k := Some (LogThread p))"
  shows "locks_ok (set_pc p (LpTry k b) (s\<lparr>sp_exec_mx := x\<rparr>))" (is "locks_ok ?s")
  unfolding locks_ok_def
proof (intro allI conjI impI)
  fix q j
  show "pc_end (sp_pc ?s q) \<le> length (sp_concurrent ?s)"
    using assms(1-3) by (simp add: locks_ok_def)
  assume *: "busy_at (sp_pc ?s q) = Some j \<and> \<not> sp_concurrent ?s ! j"
  show "sp_exec_mx ?s j = Some (LogThread q)"
  proof (cases "q = p")
    case True
    with * assms(4) show ?thesis by auto
  next
    case False
    with * assms(1) have "sp_exec_mx s j = Some (LogThread q)" by (simp add: locks_ok_def)
    with assms(4) show ?thesis by auto
  qed
qed

lemma stop_leave:
  assumes "stop_ok s" "locks_ok s" "busy_at (sp_pc s p) = Some k"
  shows "stop_ok (set_pc p c (sp_release k s))"
proof (rule stop_ok_cong [OF assms(1)])
  fix j n
  assume "sp_stop s = SpHold j n"
  with assms(1) have "sp_exec_mx s j = Some Stopper" by (simp add: stop_ok_def)
  moreover have "\<not> sp_concurrent s ! k \<longrightarrow> sp_exec_mx s k = Some (LogThread p)"
    using assms(2,3) by (simp add: locks_ok_def)
  ultimately show "sp_exec_mx (set_pc p c (sp_release k s)) j = sp_exec_mx s j"
    by (auto simp: sp_release_def)
qed simp_all

lemma gone_leave: "gone_ok s \<Longrightarrow> gone_ok (set_pc p (LpAt k b) (sp_release j s))"
  by (auto simp: gone_ok_def)

lemma gone_try:
  "gone_ok s \<Longrightarrow> sp_pc s' = (sp_pc s)(p := LpTry k b) \<Longrightarrow> sp_concurrent s' = sp_concurrent s \<Longrightarrow>
   sp_stop s' = sp_stop s \<Longrightarrow> gone_ok s'"
  unfolding gone_ok_def by (metis fun_upd_apply log_pc.distinct(11))

lemma locks_free:
  "locks_ok s \<Longrightarrow> busy_at (sp_pc s p) = Some k \<Longrightarrow> sp_exec_mx s k \<noteq> Some (LogThread p) \<Longrightarrow> sp_concurrent s ! k"
  by (auto simp: locks_ok_def)

lemma locks_other:
  assumes "locks_ok s" "\<forall>p. sp_exec_mx s k \<noteq> Some (LogThread p)"
  shows "locks_ok (s\<lparr>sp_exec_mx := (sp_exec_mx s)(k := x), sp_stop := c\<rparr>)"
  using assms locks_free [of s _ k] unfolding locks_ok_def by auto

lemma history_quiet:
  "history_ok evs s \<Longrightarrow> sp_stop s' = sp_stop s \<Longrightarrow> sp_concurrent s' = sp_concurrent s \<Longrightarrow> history_ok evs s'"
  by (simp add: history_ok_def)

lemma history_log:
  assumes "history_ok evs s" "sp_concurrent s ! k \<or> progress (length (sp_concurrent s)) (sp_stop s) \<le> k"
  shows "history_ok (evs @ [LogCalled k]) s"
proof -
  have no: "\<not> sp_concurrent s ! k \<longrightarrow> ShutdownCalled k \<notin> set evs"
    using assms by (auto simp: shutdowns_set history_ok_def)
  have "LogCalled j \<notin> set ys"
    if "evs @ [LogCalled k] = xs @ ShutdownCalled j # ys" "\<not> sp_concurrent s ! j" for xs j ys
  proof -
    from that(1) obtain zs where ys: "ys = zs @ [LogCalled k]" "evs = xs @ ShutdownCalled j # zs"
      by (cases ys rule: rev_cases) auto
    then have "LogCalled j \<notin> set zs"
      using assms(1) that(2) unfolding history_ok_def by blast
    moreover have "j \<noteq> k" using ys(2) that(2) no by auto
    ultimately show ?thesis using ys(1) by simp
  qed
  with assms(1) show ?thesis by (auto simp: history_ok_def)
qed

lemma sp_inv_idle:
  assumes "sp_inv evs s" "busy_at c = None" "pc_end c \<le> length (sp_concurrent s)"
  shows "sp_inv evs (set_pc p c s)"
proof -
  have "stop_ok (set_pc p c s)" using assms(1) by (auto simp: sp_inv_def intro: stop_ok_cong)
  moreover have "locks_ok (set_pc p c s)" using assms by (simp add: sp_inv_def locks_ok_def)
  moreover have "gone_ok (set_pc p c s)"
    using assms(1,2) unfolding sp_inv_def gone_ok_def by (cases c) auto
  moreover have "history_ok evs (set_pc p c s)" using assms(1) by (simp add: sp_inv_def history_ok_def)
  ultimately show ?thesis by (simp add: sp_inv_def)
qed

lemma sp_inv_log:
  assumes "sp_inv evs s" "sp_act_log m s = Some (ev, s')"
  shows "sp_inv (evs @ ev) s'"
proof -
  from assms(1) have I: "stop_ok s" "locks_ok s" "gone_ok s" "history_ok evs s"
    by (simp_all add: sp_inv_def)
  show ?thesis
  proof (cases m)
    case (LogStart p a b)
    with assms(2) have "s' = set_pc p (LpAt a b) s" "ev = []" "b \<le> length (sp_concurrent s)"
      by (auto simp: sp_act_log_def split: if_splits)
    with assms(1) show ?thesis by (simp add: sp_inv_idle)
  next
    case (LogEnter p)
    with assms(2) obtain k b where k: "sp_pc s p = LpAt k b" "k < b" "ev = []"
      "s' = set_pc p (LpTry k b) s \<and> sp_concurrent s ! k \<or>
       s' = set_pc p (LpTry k b) (s\<lparr>sp_exec_mx := (sp_exec_mx s)(k := Some (LogThread p))\<rparr>) \<and>
       sp_exec_mx s k = None"
      by (auto simp: sp_act_log_def split: if_splits log_pc.splits)
    have b: "b \<le> length (sp_concurrent s)"
      using I(2) k(1) by (auto simp: locks_ok_def dest: spec [of _ p])
    have "stop_ok s'" using k(4) I(1) by (auto simp: stop_ok_def split: stop_pc.splits)
    moreover have "locks_ok s'"
      using k(2,4) b locks_enter [OF I(2), of k b "sp_exec_mx s" p]
        locks_enter [OF I(2), of k b "(sp_exec_mx s)(k := Some (LogThread p))" p] by auto
    moreover have "sp_pc s' = (sp_pc s)(p := LpTry k b)" "sp_concurrent s' = sp_concurrent s"
      "sp_stop s' = sp_stop s" using k(4) by auto
    then have "gone_ok s'" using gone_try [OF I(3)] by simp
    moreover have "history_ok evs s'" using k(4) I(4) by (auto simp: history_ok_def)
    ultimately show ?thesis using k(3) by (simp add: sp_inv_def)
  next
    case (LogPass p)
    with assms(2) obtain k b where k: "sp_pc s p = LpTry k b" "ev = []" "s' = set_pc p (LpGo k b) s"
      "\<not> sp_shutdown s"
      by (auto simp: sp_act_log_def split: if_splits log_pc.splits)
    then have "sp_stop s = SpNone" using I(1) by (auto simp: stop_ok_def split: stop_pc.splits)
    moreover have "locks_ok s'"
      using I(2) k(1) unfolding k(3) locks_ok_def by (auto dest: spec [of _ p])
    ultimately show ?thesis
      using I k by (auto simp: sp_inv_def stop_ok_def gone_ok_def history_ok_def)
  next
    case (LogRefuse p)
    with assms(2) obtain k b where k: "sp_pc s p = LpTry k b" "ev = []"
      "s' = set_pc p (LpAt (k + 1) b) (sp_release k s)"
      by (auto simp: sp_act_log_def split: log_pc.splits)
    with I show ?thesis
      using locks_leave [of s p k b] stop_leave [of s p k] gone_leave [of s]
      by (simp add: sp_inv_def history_quiet)
  next
    case (LogDeliver p)
    with assms(2) obtain k b where k: "sp_pc s p = LpGo k b" "ev = [LogCalled k]"
      "s' = set_pc p (LpAt (k + 1) b) (sp_release k s)"
      by (auto simp: sp_act_log_def split: log_pc.splits)
    have "history_ok (evs @ ev) s"
      using history_log [OF I(4)] I(3) k(1) unfolding k(2) gone_ok_def by blast
    with k I show ?thesis
      using locks_leave [of s p k b] stop_leave [of s p k] gone_leave [of s]
      by (simp add: sp_inv_def history_quiet)
  next
    case (LogEnd p)
    with assms(2) have "s' = set_pc p LpIdle s" "ev = []"
      by (auto simp: sp_act_log_def split: if_splits log_pc.splits)
    with assms(1) show ?thesis by (simp add: sp_inv_idle)
  qed (use assms(2) in \<open>simp_all add: sp_act_log_def\<close>)
qed

lemma history_shutdown:
  assumes "history_ok evs s" "sp_stop s = SpHold k n" "sp_concurrent s' = sp_concurrent s"
    "sp_stop s' = SpAt (k + 1) n"
  shows "history_ok (evs @ [ShutdownCalled k]) s'"
proof -
  have "LogCalled j \<notin> set ys"
    if eq: "evs @ [ShutdownCalled k] = xs @ ShutdownCalled j # ys" and c: "\<not> sp_concurrent s ! j" for xs j ys
  proof (cases ys rule: rev_cases)
    case (snoc zs e)
    with eq have "evs = xs @ ShutdownCalled j # zs" "e = ShutdownCalled k" by auto
    with assms(1) c snoc show ?thesis unfolding history_ok_def by auto
  qed simp
  with assms show ?thesis by (simp add: history_ok_def)
qed

lemma sp_inv_stop:
  assumes "sp_inv evs s" "sp_act_stop m s = Some (ev, s')"
  shows "sp_inv (evs @ ev) s'"
proof -
  from assms(1) have I: "stop_ok s" "locks_ok s" "gone_ok s" "history_ok evs s"
    by (simp_all add: sp_inv_def)
  show ?thesis
  proof (cases m)
    case StopFlag
    with assms(2) have s': "s' = s\<lparr>sp_shutdown := True, sp_stop := SpFlagged\<rparr>" "ev = []" "\<not> sp_shutdown s"
      by (auto simp: sp_act_stop_def split: if_splits)
    then have "sp_stop s = SpNone" using I(1) by (auto simp: stop_ok_def split: stop_pc.splits)
    with I s' show ?thesis by (simp add: sp_inv_defs)
  next
    case StopSnapshot
    with assms(2) have "s' = s\<lparr>sp_stop := SpAt 0 (length (sp_concurrent s))\<rparr>" "ev = []"
      "sp_stop s = SpFlagged" "\<not> sp_registry_locked s"
      by (auto simp: sp_act_stop_def split: if_splits)
    with I show ?thesis by (simp add: sp_inv_defs)
  next
    case StopLock
    with assms(2) obtain k n where k: "sp_stop s = SpAt k n" "k < n" "sp_exec_mx s k = None" "ev = []"
      "s' = s\<lparr>sp_exec_mx := (sp_exec_mx s)(k := Some Stopper), sp_stop := SpHold k n\<rparr>"
      by (auto simp: sp_act_stop_def split: if_splits stop_pc.splits)
    have "locks_ok s'" using locks_other [OF I(2), of k] k(3) unfolding k(5) by simp
    with I k show ?thesis by (simp add: sp_inv_def stop_ok_def gone_ok_def history_ok_def)
  next
    case StopCall
    with assms(2) obtain k n where k: "sp_stop s = SpHold k n" "ev = [ShutdownCalled k]"
      "s' = s\<lparr>sp_exec_mx := (sp_exec_mx s)(k := None), sp_stop := SpAt (k + 1) n\<rparr>"
      by (auto simp: sp_act_stop_def split: stop_pc.splits)
    have mx: "sp_exec_mx s k = Some Stopper" using I(1) k(1) by (simp add: stop_ok_def)
    have free: "busy_at (sp_pc s p) = Some k \<Longrightarrow> sp_concurrent s ! k" for p
      using locks_free [OF I(2)] mx by simp
    have "locks_ok s'" using locks_other [OF I(2), of k] mx unfolding k(3) by simp
    moreover have "gone_ok s'"
      unfolding gone_ok_def
    proof (intro allI impI)
      fix p j b
      assume *: "sp_pc s' p = LpGo j b \<and> \<not> sp_concurrent s' ! j"
      then have "j \<noteq> k" using free [of p] k(3) by auto
      moreover have "k \<le> j" using * I(3) k by (auto simp: gone_ok_def)
      ultimately show "progress (length (sp_concurrent s')) (sp_stop s') \<le> j" using k(3) by simp
    qed
    moreover have "history_ok (evs @ ev) s'"
      unfolding k(2) by (rule history_shutdown [OF I(4) k(1)]) (simp_all add: k(3))
    ultimately show ?thesis using I(1) k by (simp add: sp_inv_def stop_ok_def)
  next
    case StopEnd
    with assms(2) obtain k n where k: "sp_stop s = SpAt k n" "\<not> k < n" "ev = []"
      "s' = s\<lparr>sp_stop := SpDone\<rparr>"
      by (auto simp: sp_act_stop_def split: if_splits stop_pc.splits)
    then have "k = length (sp_concurrent s)" using I(1) by (simp add: stop_ok_def)
    with I k show ?thesis by (simp add: sp_inv_defs)
  qed (use assms(2) in \<open>simp_all add: sp_act_stop_def\<close>)
qed

lemma sp_run_inv: "sp_run evs s \<Longrightarrow> sp_inv evs s"
proof (induction rule: sp_run.induct)
  case init
  show ?case by (simp add: sp_inv_defs sp_init_def)
next
  case (step evs s ev s')
  from step(2) show ?case
    by cases (use step(3) in \<open>auto intro: sp_inv_add sp_inv_log sp_inv_stop\<close>)
qed

section \<open>Runs\<close>

definition sp_act :: "sp_move \<Rightarrow> sp_state \<Rightarrow> (sp_event list \<times> sp_state) option" where
  "sp_act m s =
     (case sp_act_add m s of
        Some r \<Rightarrow> Some r
      | None \<Rightarrow> (case sp_act_log m s of Some r \<Rightarrow> Some r | None \<Rightarrow> sp_act_stop m s))"

fun sp_exec :: "sp_move list \<Rightarrow> sp_event list \<times> sp_state \<Rightarrow> (sp_event list \<times> sp_state) option" where
  "sp_exec [] r = Some r"
| "sp_exec (m # ms) (evs, s) =
     (case sp_act m s of None \<Rightarrow> None | Some (ev, s') \<Rightarrow> sp_exec ms (evs @ ev, s'))"

lemma sp_act_step: "sp_act m s = Some (ev, s') \<Longrightarrow> sp_step s ev s'"
  by (auto simp: sp_act_def intro: sp_step.intros split: option.splits)

lemma sp_exec_run: "sp_run evs s \<Longrightarrow> sp_exec ms (evs, s) = Some (evs', s') \<Longrightarrow> sp_run evs' s'"
proof (induction ms arbitrary: evs s)
  case (Cons m ms)
  from Cons.prems(2) obtain ev t where t: "sp_act m s = Some (ev, t)"
    "sp_exec ms (evs @ ev, t) = Some (evs', s')"
    by (auto split: option.splits)
  from Cons.IH [OF sp_run.step [OF Cons.prems(1) sp_act_step [OF t(1)]] t(2)] show ?case .
qed simp

lemmas sp_eval = sp_act_def sp_act_add_def sp_act_log_def sp_act_stop_def sp_release_def sp_init_def

text \<open>Two serialised strategies, a record on its way to the second while \<open>shutdown\<close> runs.\<close>

definition sp_demo :: "sp_move list" where
  "sp_demo = [AddCheck, AddPush False, AddCheck, AddPush False, LogStart 1 0 2, LogEnter 1, LogPass 1,
     LogDeliver 1, LogEnter 1, LogPass 1, StopFlag, StopSnapshot, StopLock, StopCall, LogDeliver 1,
     LogEnd 1, StopLock, StopCall, StopEnd]"

definition sp_demo_history :: "sp_event list" where
  "sp_demo_history = [LogCalled 0, ShutdownCalled 0, LogCalled 1, ShutdownCalled 1]"

lemma sp_demo_run: "\<exists>s. sp_run sp_demo_history s \<and> sp_stop s = SpDone \<and> sp_concurrent s = [False, False]"
proof -
  have "\<exists>s. sp_exec sp_demo ([], sp_init) = Some (sp_demo_history, s) \<and>
      sp_stop s = SpDone \<and> sp_concurrent s = [False, False]"
    by (simp add: sp_demo_def sp_demo_history_def sp_eval)
  then show ?thesis using sp_exec_run [OF sp_run.init] by blast
qed

text \<open>C22: Whatever the interleaving of logging threads, registrations and \<open>shutdown\<close>, a backend that
  is dispatched under its execution lock receives no record after \<open>shutdown\<close> was called on it.\<close>

theorem no_log_after_shutdown:
  assumes "sp_run (evs @ ShutdownCalled k # later) s" "\<not> sp_concurrent s ! k"
  shows "LogCalled k \<notin> set later"
  using sp_run_inv [OF assms(1)] assms(2) unfolding sp_inv_def history_ok_def by blast

theorem no_log_after_shutdown_witness:
  "\<exists>s. sp_run sp_demo_history s \<and> LogCalled 0 \<notin> set [LogCalled 1, ShutdownCalled 1]"
proof -
  obtain s where s: "sp_run sp_demo_history s" "sp_concurrent s = [False, False]"
    using sp_demo_run by blast
  with no_log_after_shutdown [of "[LogCalled 0]" 0 "[LogCalled 1, ShutdownCalled 1]" s] show ?thesis
    by (auto simp: sp_demo_history_def)
qed

text \<open>C23: When \<open>shutdown\<close> has finished, it has called every backend ever registered, each exactly
  once and in registration order, including one whose registration was under way when the
  shutdown began.\<close>

theorem shutdown_reaches_all:
  assumes "sp_run evs s" "sp_stop s = SpDone"
  shows "shutdowns evs = [0..<length (sp_concurrent s)]"
  using sp_run_inv [OF assms(1)] assms(2) by (simp add: sp_inv_def history_ok_def)

theorem shutdown_reaches_all_witness: "shutdowns sp_demo_history = [0, 1]"
proof -
  obtain s where s: "sp_run sp_demo_history s" "sp_stop s = SpDone" "sp_concurrent s = [False, False]"
    using sp_demo_run by blast
  from shutdown_reaches_all [OF s(1,2)] s(3) show ?thesis by (simp add: upt_rec)
qed

end
