(* ===== verification/Otlp.thy ===== *)
theory Otlp
  imports FloatText PatternCompiler
begin

text \<open>
  The OTLP JSON serializer (\<open>otlp/OtlpJsonSerializer.hpp\<close>), the record
  snapshot it works on (\<open>otlp/OtlpRecordSnapshot.hpp\<close>), its configuration
  (\<open>otlp/OtlpJsonFormatConfig.hpp\<close>) and the splitting of a batch into payloads
  of bounded size (\<open>otlp/OtlpPayloadSplitter.hpp\<close>).  An output stream is the
  string written to it.  \<open>timestamp_ms * 1000000\<close> is exact for every timestamp
  of magnitude below 9223372036854.
\<close>

section \<open>Data\<close>

record OtlpRecordSnapshot =
  os_log_level :: LogLevel
  os_timestamp_ms :: int
  os_file :: string
  os_line :: int
  os_function :: string
  os_format :: string
  os_arg_names :: string
  os_args_array :: "VariableValue list"
  os_thread_id :: string
  os_logger_index :: int
  os_print_mode :: bool
  os_fmt_mode :: bool
  os_raw_mode :: bool

definition make_otlp_record_snapshot :: "platform \<Rightarrow> LogRecord \<Rightarrow> OtlpRecordSnapshot" where
  "make_otlp_record_snapshot P r =
     \<lparr>os_log_level = lr_log_level r, os_timestamp_ms = lr_timestamp_ms r, os_file = lr_file r,
      os_line = lr_line r, os_function = lr_function r, os_format = lr_format r,
      os_arg_names = lr_arg_names r, os_args_array = lr_args_array r,
      os_thread_id = pf_thread_id P (lr_thread_id r), os_logger_index = lr_logger_index r,
      os_print_mode = lr_print_mode r, os_fmt_mode = lr_fmt_mode r, os_raw_mode = lr_raw_mode r\<rparr>"

record OtlpLogItem =
  oi_record :: OtlpRecordSnapshot
  oi_message :: string

record OtlpJsonFormatConfig =
  oc_service_name :: string
  oc_service_namespace :: string
  oc_service_instance_id :: string
  oc_deployment_environment :: string
  oc_include_source :: bool
  oc_include_thread_id :: bool
  oc_include_format :: bool
  oc_include_arg_names :: bool
  oc_include_args :: bool
  oc_args_prefix :: string

definition OtlpJsonFormatConfig_default :: OtlpJsonFormatConfig where
  "OtlpJsonFormatConfig_default =
     \<lparr>oc_service_name = ''logit-app'', oc_service_namespace = [], oc_service_instance_id = [],
      oc_deployment_environment = [], oc_include_source = True, oc_include_thread_id = True,
      oc_include_format = True, oc_include_arg_names = False, oc_include_args = True,
      oc_args_prefix = ''logit.arg.''\<rparr>"

section \<open>Attributes\<close>

definition otlp_json_escape :: "string \<Rightarrow> string" where
  "otlp_json_escape value = concat (map json_escape_char value)"

primrec otlp_severity_number :: "LogLevel \<Rightarrow> int" where
  "otlp_severity_number LOG_LVL_TRACE = 1"
| "otlp_severity_number LOG_LVL_DEBUG = 5"
| "otlp_severity_number LOG_LVL_INFO = 9"
| "otlp_severity_number LOG_LVL_WARN = 13"
| "otlp_severity_number LOG_LVL_ERROR = 17"
| "otlp_severity_number LOG_LVL_FATAL = 21"

text \<open>The common frame of the attribute writers: a key and a typed value.\<close>

definition otlp_attr :: "string \<Rightarrow> string \<Rightarrow> string \<Rightarrow> string" where
  "otlp_attr key kind value =
     ''{'' @ quoted ''key'' @ '':'' @ quoted (otlp_json_escape key) @ '','' @ quoted ''value'' @ '':{'' @
     quoted kind @ '':'' @ value @ ''}}''"

definition otlp_string_attr :: "string \<Rightarrow> string \<Rightarrow> string" where
  "otlp_string_attr key value = otlp_attr key ''stringValue'' (quoted (otlp_json_escape value))"

definition otlp_int_attr :: "string \<Rightarrow> int \<Rightarrow> string" where
  "otlp_int_attr key value = otlp_attr key ''intValue'' (quoted (dec_int value))"

definition otlp_bool_attr :: "string \<Rightarrow> bool \<Rightarrow> string" where
  "otlp_bool_attr key value = otlp_attr key ''boolValue'' (if value then ''true'' else ''false'')"

definition otlp_double_attr :: "string \<Rightarrow> f64 \<Rightarrow> string" where
  "otlp_double_attr key value =
     (if isfinite value then otlp_attr key ''doubleValue'' (print_g 17 value)
      else otlp_attr key ''stringValue'' (quoted (otlp_json_escape (to_string_f64 value))))"

definition otlp_uint_attr :: "string \<Rightarrow> nat \<Rightarrow> string" where
  "otlp_uint_attr key value =
     (if value \<le> 2 ^ 63 - 1 then otlp_int_attr key (int value)
      else otlp_attr key ''stringValue'' (quoted (dec_nat value)))"

definition sanitize_otlp_key :: "string \<Rightarrow> string" where
  "sanitize_otlp_key name =
     map (\<lambda>c. if \<not> isalnum c \<and> c \<noteq> CHR ''_'' \<and> c \<noteq> CHR ''.'' \<and> c \<noteq> CHR ''-'' then CHR ''_'' else c) name"

fun otlp_value_attr :: "string \<Rightarrow> ValueType \<Rightarrow> string" where
  "otlp_value_attr key (BOOL_VAL b) = otlp_bool_attr key b"
| "otlp_value_attr key (INT8_VAL w) = otlp_int_attr key (sint w)"
| "otlp_value_attr key (INT16_VAL w) = otlp_int_attr key (sint w)"
| "otlp_value_attr key (INT32_VAL w) = otlp_int_attr key (sint w)"
| "otlp_value_attr key (INT64_VAL w) = otlp_int_attr key (sint w)"
| "otlp_value_attr key (UINT8_VAL w) = otlp_uint_attr key (unat w)"
| "otlp_value_attr key (UINT16_VAL w) = otlp_uint_attr key (unat w)"
| "otlp_value_attr key (UINT32_VAL w) = otlp_uint_attr key (unat w)"
| "otlp_value_attr key (UINT64_VAL w) = otlp_uint_attr key (unat w)"
| "otlp_value_attr key (FLOAT_VAL v) = otlp_double_attr key v"
| "otlp_value_attr key (DOUBLE_VAL v) = otlp_double_attr key v"
| "otlp_value_attr key (LONG_DOUBLE_VAL v) = otlp_double_attr key v"
| "otlp_value_attr key v = otlp_string_attr key (value_to_string v)"

text \<open>The key of the \<open>i\<close>-th argument, before and after the \<open>key_count\<close> table.\<close>

definition otlp_base_key :: "string \<Rightarrow> nat \<Rightarrow> string \<Rightarrow> string" where
  "otlp_base_key args_prefix i name =
     (let sanitized = sanitize_otlp_key name
      in if sanitized = [] \<or> list_all (\<lambda>c. c = CHR ''_'') sanitized then args_prefix @ dec_nat i
         else args_prefix @ sanitized)"

definition otlp_count_key :: "string \<Rightarrow> (string \<rightharpoonup> nat) \<Rightarrow> string \<times> (string \<rightharpoonup> nat)" where
  "otlp_count_key key key_count =
     (case key_count key of
        None \<Rightarrow> (key, key_count(key \<mapsto> 0))
      | Some n \<Rightarrow>
          (let key' = key @ ''.'' @ dec_nat (n + 1)
           in (key', (key_count(key \<mapsto> n + 1))(key' \<mapsto> 0))))"

fun otlp_arg_keys :: "string \<Rightarrow> nat \<Rightarrow> (string \<rightharpoonup> nat) \<Rightarrow> string list \<Rightarrow> string list" where
  "otlp_arg_keys args_prefix i key_count [] = []"
| "otlp_arg_keys args_prefix i key_count (name # names) =
     (case otlp_count_key (otlp_base_key args_prefix i name) key_count of
        (key, key_count') \<Rightarrow> key # otlp_arg_keys args_prefix (i + 1) key_count' names)"

definition otlp_arg_attrs :: "OtlpJsonFormatConfig \<Rightarrow> VariableValue list \<Rightarrow> string list" where
  "otlp_arg_attrs config args =
     map2 (\<lambda>key arg. otlp_value_attr key (vv_value arg))
       (otlp_arg_keys (oc_args_prefix config) 0 Map.empty (map vv_name args)) args"

section \<open>Records and payloads\<close>

text \<open>\<open>otlp_write_comma_if_needed\<close> on the stream and the first-item flag, then the item.\<close>

definition otlp_write_comma_if_needed :: "string \<times> bool \<Rightarrow> string \<times> bool" where
  "otlp_write_comma_if_needed = (\<lambda>(os, first). (if \<not> first then os @ '','' else os, False))"

definition otlp_put :: "string \<times> bool \<Rightarrow> string \<Rightarrow> string \<times> bool" where
  "otlp_put st item = (case otlp_write_comma_if_needed st of (os, first) \<Rightarrow> (os @ item, first))"

definition otlp_items :: "string \<Rightarrow> string list \<Rightarrow> string" where
  "otlp_items os items = fst (foldl otlp_put (os, True) items)"

definition otlp_record_attrs :: "OtlpJsonFormatConfig \<Rightarrow> OtlpRecordSnapshot \<Rightarrow> string list" where
  "otlp_record_attrs config r =
     (if oc_include_source config then
        [otlp_string_attr ''code.file.path'' (os_file r),
         otlp_int_attr ''code.line.number'' (os_line r),
         otlp_string_attr ''code.function.name'' (os_function r)] else []) @
     (if oc_include_thread_id config then [otlp_string_attr ''thread.id'' (os_thread_id r)] else []) @
     (if oc_include_format config then [otlp_string_attr ''logit.format'' (os_format r)] else []) @
     (if oc_include_arg_names config \<and> os_arg_names r \<noteq> []
      then [otlp_string_attr ''logit.arg_names'' (os_arg_names r)] else []) @
     (if oc_include_args config \<and> os_args_array r \<noteq> []
      then otlp_arg_attrs config (os_args_array r) else []) @
     [otlp_int_attr ''logit.logger_index'' (os_logger_index r),
      otlp_bool_attr ''logit.raw_mode'' (os_raw_mode r),
      otlp_bool_attr ''logit.print_mode'' (os_print_mode r),
      otlp_bool_attr ''logit.fmt_mode'' (os_fmt_mode r)]"

definition otlp_write_log_record_json :: "OtlpJsonFormatConfig \<Rightarrow> OtlpLogItem \<Rightarrow> string" where
  "otlp_write_log_record_json config item =
     (let r = oi_record item; time_unix_nano = os_timestamp_ms r * 1000000
      in otlp_items
           (''{'' @
            quoted ''timeUnixNano'' @ '':'' @ quoted (dec_int time_unix_nano) @ '','' @
            quoted ''severityText'' @ '':'' @ quoted (otlp_json_escape (to_c_str_level (os_log_level r) 0)) @ '','' @
            quoted ''severityNumber'' @ '':'' @ dec_int (otlp_severity_number (os_log_level r)) @ '','' @
            quoted ''body'' @ '':{'' @ quoted ''stringValue'' @ '':'' @
              quoted (otlp_json_escape (oi_message item)) @ ''},'' @
            quoted ''attributes'' @ '':['')
           (otlp_record_attrs config r) @ '']}'')"

definition otlp_resource_attrs :: "OtlpJsonFormatConfig \<Rightarrow> string list" where
  "otlp_resource_attrs config =
     [otlp_string_attr ''service.name'' (oc_service_name config)] @
     (if oc_service_namespace config \<noteq> []
      then [otlp_string_attr ''service.namespace'' (oc_service_namespace config)] else []) @
     (if oc_service_instance_id config \<noteq> []
      then [otlp_string_attr ''service.instance.id'' (oc_service_instance_id config)] else []) @
     (if oc_deployment_environment config \<noteq> []
      then [otlp_string_attr ''deployment.environment.name'' (oc_deployment_environment config)] else [])"

text \<open>The records are separated by a comma before every one but the first.\<close>

definition otlp_records :: "OtlpJsonFormatConfig \<Rightarrow> OtlpLogItem list \<Rightarrow> string" where
  "otlp_records config batch =
     concat (map (\<lambda>i. (if i \<noteq> 0 then '','' else []) @ otlp_write_log_record_json config (batch ! i))
              [0..<length batch])"

definition build_otlp_logs_json_payload :: "OtlpJsonFormatConfig \<Rightarrow> OtlpLogItem list \<Rightarrow> string" where
  "build_otlp_logs_json_payload config batch =
     otlp_items (''{'' @ quoted ''resourceLogs'' @ '':[{'' @ quoted ''resource'' @ '':{'' @
                 quoted ''attributes'' @ '':['') (otlp_resource_attrs config) @
     '']},'' @ quoted ''scopeLogs'' @ '':[{'' @
     quoted ''scope'' @ '':{'' @ quoted ''name'' @ '':'' @ quoted ''logit-cpp'' @ ''},'' @
     quoted ''logRecords'' @ '':['' @ otlp_records config batch @ '']'' @ ''}]'' @ ''}]'' @ ''}''"

section \<open>Splitting\<close>

fun split_loop :: "OtlpJsonFormatConfig \<Rightarrow> nat \<Rightarrow> string list \<Rightarrow> OtlpLogItem list \<Rightarrow> OtlpLogItem list \<Rightarrow> string list" where
  "split_loop format max_bytes chunks current [] =
     (if current \<noteq> [] then chunks @ [build_otlp_logs_json_payload format current] else chunks)"
| "split_loop format max_bytes chunks current (item # items) =
     (let candidate = current @ [item]; candidate_json = build_otlp_logs_json_payload format candidate
      in if length candidate_json \<le> max_bytes then split_loop format max_bytes chunks candidate items
         else if current = [] then split_loop format max_bytes (chunks @ [candidate_json]) current items
         else split_loop format max_bytes (chunks @ [build_otlp_logs_json_payload format current]) [item] items)"

definition build_otlp_logs_json_payload_chunks ::
  "OtlpLogItem list \<Rightarrow> OtlpJsonFormatConfig \<Rightarrow> nat \<Rightarrow> string list" where
  "build_otlp_logs_json_payload_chunks batch format max_payload_bytes =
     (if max_payload_bytes = 0 then [build_otlp_logs_json_payload format batch]
      else if batch = [] then []
      else split_loop format max_payload_bytes [] [] batch)"

end
