(* ===== verification/OtlpProps.thy ===== *)
theory OtlpProps
  imports Otlp
begin

text \<open>
  What the OTLP serializer writes: every payload is JSON and denotes the
  request tree built from the batch; the argument keys of a record; and how a
  batch is split into payloads.
\<close>

section \<open>The request tree\<close>

definition attr_json :: "string \<Rightarrow> string \<times> json \<Rightarrow> json" where
  "attr_json key = (\<lambda>(kind, v). JObj [(''key'', JStr key), (''value'', JObj [(kind, v)])])"

fun otlp_value_json :: "ValueType \<Rightarrow> string \<times> json" where
  "otlp_value_json (BOOL_VAL b) = (''boolValue'', JBool b)"
| "otlp_value_json (INT8_VAL w) = (''intValue'', JStr (dec_int (sint w)))"
| "otlp_value_json (INT16_VAL w) = (''intValue'', JStr (dec_int (sint w)))"
| "otlp_value_json (INT32_VAL w) = (''intValue'', JStr (dec_int (sint w)))"
| "otlp_value_json (INT64_VAL w) = (''intValue'', JStr (dec_int (sint w)))"
| "otlp_value_json (UINT8_VAL w) = (''intValue'', JStr (dec_nat (unat w)))"
| "otlp_value_json (UINT16_VAL w) = (''intValue'', JStr (dec_nat (unat w)))"
| "otlp_value_json (UINT32_VAL w) = (''intValue'', JStr (dec_nat (unat w)))"
| "otlp_value_json (UINT64_VAL w) =
     (if unat w < 2 ^ 63 then ''intValue'' else ''stringValue'', JStr (dec_nat (unat w)))"
| "otlp_value_json (FLOAT_VAL v) =
     (if isfinite v then (''doubleValue'', JNum (print_g 17 v)) else (''stringValue'', JStr (to_string_f64 v)))"
| "otlp_value_json (DOUBLE_VAL v) =
     (if isfinite v then (''doubleValue'', JNum (print_g 17 v)) else (''stringValue'', JStr (to_string_f64 v)))"
| "otlp_value_json (LONG_DOUBLE_VAL v) =
     (if isfinite v then (''doubleValue'', JNum (print_g 17 v)) else (''stringValue'', JStr (to_string_f64 v)))"
| "otlp_value_json v = (''stringValue'', JStr (value_to_string v))"

abbreviation str_attr :: "string \<Rightarrow> string \<Rightarrow> json" where
  "str_attr k s \<equiv> attr_json k (''stringValue'', JStr s)"

abbreviation int_attr :: "string \<Rightarrow> int \<Rightarrow> json" where
  "int_attr k i \<equiv> attr_json k (''intValue'', JStr (dec_int i))"

abbreviation bool_attr :: "string \<Rightarrow> bool \<Rightarrow> json" where
  "bool_attr k b \<equiv> attr_json k (''boolValue'', JBool b)"

definition args_json :: "OtlpJsonFormatConfig \<Rightarrow> VariableValue list \<Rightarrow> json list" where
  "args_json config args =
     map2 (\<lambda>key arg. attr_json key (otlp_value_json (vv_value arg)))
       (otlp_arg_keys (oc_args_prefix config) 0 Map.empty (map vv_name args)) args"

definition record_attrs_json :: "OtlpJsonFormatConfig \<Rightarrow> OtlpRecordSnapshot \<Rightarrow> json list" where
  "record_attrs_json config r =
     (if oc_include_source config then
        [str_attr ''code.file.path'' (os_file r), int_attr ''code.line.number'' (os_line r),
         str_attr ''code.function.name'' (os_function r)] else []) @
     (if oc_include_thread_id config then [str_attr ''thread.id'' (os_thread_id r)] else []) @
     (if oc_include_format config then [str_attr ''logit.format'' (os_format r)] else []) @
     (if oc_include_arg_names config \<and> os_arg_names r \<noteq> []
      then [str_attr ''logit.arg_names'' (os_arg_names r)] else []) @
     (if oc_include_args config then args_json config (os_args_array r) else []) @
     [int_attr ''logit.logger_index'' (os_logger_index r), bool_attr ''logit.raw_mode'' (os_raw_mode r),
      bool_attr ''logit.print_mode'' (os_print_mode r), bool_attr ''logit.fmt_mode'' (os_fmt_mode r)]"

definition otlp_record_json :: "OtlpJsonFormatConfig \<Rightarrow> OtlpLogItem \<Rightarrow> json" where
  "otlp_record_json config item =
     (let r = oi_record item in
      JObj [(''timeUnixNano'', JStr (dec_int (os_timestamp_ms r * 1000000))),
            (''severityText'', JStr (level_name (os_log_level r))),
            (''severityNumber'', JNum (dec_int (otlp_severity_number (os_log_level r)))),
            (''body'', JObj [(''stringValue'', JStr (oi_message item))]),
            (''attributes'', JArr (record_attrs_json config r))])"

definition resource_attrs_json :: "OtlpJsonFormatConfig \<Rightarrow> json list" where
  "resource_attrs_json config =
     str_attr ''service.name'' (oc_service_name config) #
     (if oc_service_namespace config \<noteq> []
      then [str_attr ''service.namespace'' (oc_service_namespace config)] else []) @
     (if oc_service_instance_id config \<noteq> []
      then [str_attr ''service.instance.id'' (oc_service_instance_id config)] else []) @
     (if oc_deployment_environment config \<noteq> []
      then [str_attr ''deployment.environment.name'' (oc_deployment_environment config)] else [])"

definition payload_json :: "OtlpJsonFormatConfig \<Rightarrow> OtlpLogItem list \<Rightarrow> json" where
  "payload_json config batch =
     JObj [(''resourceLogs'', JArr [JObj
       [(''resource'', JObj [(''attributes'', JArr (resource_attrs_json config))]),
        (''scopeLogs'', JArr [JObj
          [(''scope'', JObj [(''name'', JStr ''logit-cpp'')]),
           (''logRecords'', JArr (map (otlp_record_json config) batch))]])]])]"

section \<open>The writers\<close>

lemma escape_token: "list_all token_char s \<Longrightarrow> concat (map json_escape_char s) = s"
proof (induction s)
  case (Cons c s)
  then have c: "token_char c" by simp
  then have "32 \<le> code c" "c \<noteq> BS" by (auto simp: token_char_def ctype_defs)
  with Cons token_not_special [OF c] show ?case by simp
qed simp

lemma denotes_quoted_token: "list_all token_char s \<Longrightarrow> json_denotes (JStr s) (quoted s)"
  using denotes_string [of s] by (simp add: escape_token)

lemma dec_nat_token: "list_all token_char (dec_nat n)"
  using digits_token [OF dec_nat_list_all] .

lemma denotes_member:
  "json_denotes v t \<Longrightarrow> \<exists>t'. json_denotes v t' \<and> json_member k [] t = json_member k [] t'"
  by blast

lemma denotes_obj:
  "list_all2 (\<lambda>(k, v) (k', t). k = k' \<and> json_denotes v t) ms kts \<Longrightarrow>
   json_denotes (JObj ms) (CHR ''{'' # join '','' (map (\<lambda>(k, t). json_member k [] t) kts) @ ''}'')"
  by (rule denotes_object, unfold list_all2_map2, erule list_all2_mono) auto

lemma denotes_arr:
  "list_all2 json_denotes vs ts \<Longrightarrow> json_denotes (JArr vs) (CHR ''['' # join '','' ts @ '']'')"
  by (rule denotes_array) simp_all

definition plain_text :: "string \<Rightarrow> bool" where
  "plain_text s = list_all token_char s"

lemma plain_kinds [simp]:
  "plain_text ''stringValue''" "plain_text ''intValue''" "plain_text ''boolValue''"
  "plain_text ''doubleValue''"
  by (simp_all add: plain_text_def token_char_def ctype_defs)

lemma denotes_attr:
  assumes "json_denotes v t" "plain_text kind"
  shows "json_denotes (attr_json key (kind, v)) (otlp_attr key kind t)"
proof -
  let ?body = "CHR ''{'' # join '','' (map (\<lambda>(k, t). json_member k [] t) [(kind, t)]) @ ''}''"
  have "json_denotes (JObj [(kind, v)]) ?body"
    by (rule denotes_obj) (use assms in simp)
  then have "json_denotes (JObj [(''key'', JStr key), (''value'', JObj [(kind, v)])])
      (CHR ''{'' # join '','' (map (\<lambda>(k, t). json_member k [] t)
        [(''key'', quoted (concat (map json_escape_char key))), (''value'', ?body)]) @ ''}'')"
    using denotes_string [of key] by (intro denotes_obj) simp
  moreover have "concat (map json_escape_char kind) = kind"
    using assms(2) by (simp add: plain_text_def escape_token)
  ultimately show ?thesis
    by (simp add: attr_json_def otlp_attr_def otlp_json_escape_def json_member_def quoted_def)
qed

lemma denotes_str_attr: "json_denotes (str_attr k s) (otlp_string_attr k s)"
  using denotes_attr [OF denotes_string plain_kinds(1)]
  by (simp add: otlp_string_attr_def otlp_json_escape_def)

lemma denotes_int_attr: "json_denotes (int_attr k i) (otlp_int_attr k i)"
  unfolding otlp_int_attr_def
  by (intro denotes_attr denotes_quoted_token dec_int_token plain_kinds)

lemma denotes_bool_attr: "json_denotes (bool_attr k b) (otlp_bool_attr k b)"
  unfolding otlp_bool_attr_def by (intro denotes_attr denotes_bool plain_kinds)

lemma denotes_double_attr:
  "json_denotes (attr_json k (if isfinite v then (''doubleValue'', JNum (print_g 17 v))
     else (''stringValue'', JStr (to_string_f64 v)))) (otlp_double_attr k v)"
proof (cases "isfinite v")
  case True
  with denotes_attr [OF denotes_print_g plain_kinds(4)] show ?thesis
    by (simp only: otlp_double_attr_def if_True)
next
  case False
  with denotes_str_attr [of k "to_string_f64 v"]
  show ?thesis by (simp only: otlp_double_attr_def otlp_string_attr_def if_False)
qed

lemma denotes_uint_attr:
  "json_denotes (attr_json k (if n < 2 ^ 63 then ''intValue'' else ''stringValue'', JStr (dec_nat n)))
     (otlp_uint_attr k n)"
proof (cases "n \<le> 2 ^ 63 - 1")
  case True
  then have lt: "n < 2 ^ 63" by simp
  have "dec_int (int n) = dec_nat n" by (simp add: dec_int_def)
  with True lt denotes_int_attr [of k "int n"] show ?thesis
    by (simp only: otlp_uint_attr_def if_True)
next
  case False
  then have "\<not> n < 2 ^ 63" by simp
  with False denotes_attr [OF denotes_quoted_token [OF dec_nat_token] plain_kinds(1)]
  show ?thesis by (simp only: otlp_uint_attr_def if_False)
qed

lemma unat_small:
  "unat (w :: 8 word) < 2 ^ 63" "unat (x :: 16 word) < 2 ^ 63" "unat (y :: 32 word) < 2 ^ 63"
proof -
  show "unat w < 2 ^ 63" by (rule less_le_trans [OF unsigned_less]) simp
  show "unat x < 2 ^ 63" by (rule less_le_trans [OF unsigned_less]) simp
  show "unat y < 2 ^ 63" by (rule less_le_trans [OF unsigned_less]) simp
qed

lemma denotes_value: "json_denotes (attr_json k (otlp_value_json v)) (otlp_value_attr k v)"
proof -
  have small: "json_denotes (attr_json k (''intValue'', JStr (dec_nat n))) (otlp_uint_attr k n)"
    if "n < 2 ^ 63" for n
    using denotes_uint_attr [of k n] that by (simp only: if_True)
  show ?thesis
    by (cases v; simp only: otlp_value_json.simps otlp_value_attr.simps; intro denotes_str_attr
        denotes_int_attr denotes_bool_attr denotes_double_attr denotes_uint_attr small unat_small)
qed

lemma otlp_items_join: "otlp_items os items = os @ join '','' items"
proof -
  have rest: "fst (foldl otlp_put (os, False) items) = os @ concat (map (\<lambda>i. CHR '','' # i) items)" for os items
    by (induction items arbitrary: os) (simp_all add: otlp_put_def otlp_write_comma_if_needed_def)
  have "join '','' (i # items) = i @ concat (map (\<lambda>i. CHR '','' # i) items)" for i items
    by (induction items arbitrary: i) simp_all
  with rest show ?thesis
    by (cases items) (simp_all add: otlp_items_def otlp_put_def otlp_write_comma_if_needed_def)
qed

lemma otlp_arg_keys_length: "length (otlp_arg_keys args_prefix i kc names) = length names"
  by (induction args_prefix i kc names rule: otlp_arg_keys.induct) (auto split: prod.split)

lemma denotes_arg_attrs: "list_all2 json_denotes (args_json config args) (otlp_arg_attrs config args)"
  unfolding args_json_def otlp_arg_attrs_def list_all2_conv_all_nth
  by (simp add: denotes_value)

lemma args_nil: "args_json config [] = []" "otlp_arg_attrs config [] = []"
  by (simp_all add: args_json_def otlp_arg_attrs_def)

lemma denotes_record_attrs: "list_all2 json_denotes (record_attrs_json config r) (otlp_record_attrs config r)"
proof -
  have "list_all2 json_denotes (if oc_include_args config then args_json config (os_args_array r) else [])
      (if oc_include_args config \<and> os_args_array r \<noteq> [] then otlp_arg_attrs config (os_args_array r) else [])"
    using denotes_arg_attrs [of config "os_args_array r"] by (auto simp: args_nil)
  then show ?thesis
    unfolding record_attrs_json_def otlp_record_attrs_def
    by (intro list_all2_appendI) (simp_all add: denotes_str_attr denotes_int_attr denotes_bool_attr)
qed

lemma denotes_resource_attrs: "list_all2 json_denotes (resource_attrs_json config) (otlp_resource_attrs config)"
  by (simp add: resource_attrs_json_def otlp_resource_attrs_def denotes_str_attr)

lemma level_name_plain: "list_all token_char (level_name l)"
  by (cases l) (simp_all add: token_char_def ctype_defs)

lemma denotes_record: "json_denotes (otlp_record_json config item) (otlp_write_log_record_json config item)"
proof -
  let ?r = "oi_record item"
  let ?body = "CHR ''{'' # join '','' (map (\<lambda>(k, t). json_member k [] t)
    [(''stringValue'', quoted (concat (map json_escape_char (oi_message item))))]) @ ''}''"
  let ?kts = "[(''timeUnixNano'', quoted (dec_int (os_timestamp_ms ?r * 1000000))),
    (''severityText'', quoted (level_name (os_log_level ?r))),
    (''severityNumber'', dec_int (otlp_severity_number (os_log_level ?r))),
    (''body'', ?body),
    (''attributes'', CHR ''['' # join '','' (otlp_record_attrs config ?r) @ '']'')]"
  have "json_denotes (JObj [(''stringValue'', JStr (oi_message item))]) ?body"
    by (rule denotes_obj) (simp add: denotes_string)
  then have "json_denotes (otlp_record_json config item)
      (CHR ''{'' # join '','' (map (\<lambda>(k, t). json_member k [] t) ?kts) @ ''}'')"
    unfolding otlp_record_json_def Let_def
    by (intro denotes_obj) (simp add: denotes_quoted_token dec_int_token level_name_plain denotes_int
        denotes_arr denotes_record_attrs)
  moreover have "otlp_write_log_record_json config item =
      CHR ''{'' # join '','' (map (\<lambda>(k, t). json_member k [] t) ?kts) @ ''}''"
    by (simp add: otlp_write_log_record_json_def otlp_items_join otlp_json_escape_def json_member_def
        quoted_def to_c_str_level_def escape_token level_name_plain Let_def)
  ultimately show ?thesis by simp
qed

lemma join_snoc: "join sep (xs @ [x]) = (if xs = [] then x else join sep xs @ sep @ x)"
  by (induction sep xs rule: join.induct) auto

lemma otlp_records_join: "otlp_records config batch = join '','' (map (otlp_write_log_record_json config) batch)"
proof -
  have "concat (map (\<lambda>i. (if i \<noteq> 0 then '','' else []) @ f i) [0..<n]) = join '','' (map f [0..<n])"
    for f and n
    by (induction n) (simp_all add: join_snoc)
  moreover have "map (\<lambda>i. otlp_write_log_record_json config (batch ! i)) [0..<length batch] =
      map (otlp_write_log_record_json config) batch"
    by (rule nth_equalityI) simp_all
  ultimately show ?thesis
    using otlp_records_def [of config batch] by metis
qed

definition obj_text :: "(string \<times> string) list \<Rightarrow> string" where
  "obj_text kts = CHR ''{'' # join '','' (map (\<lambda>(k, t). json_member k [] t) kts) @ ''}''"

definition arr_text :: "string list \<Rightarrow> string" where
  "arr_text ts = CHR ''['' # join '','' ts @ '']''"

lemma denotes_obj_text [simp]:
  "list_all2 (\<lambda>(k, v) (k', t). k = k' \<and> json_denotes v t) ms kts \<Longrightarrow> json_denotes (JObj ms) (obj_text kts)"
  unfolding obj_text_def by (rule denotes_obj)

lemma denotes_arr_text [simp]:
  "list_all2 json_denotes vs ts \<Longrightarrow> json_denotes (JArr vs) (arr_text ts)"
  unfolding arr_text_def by (rule denotes_arr)

lemma denotes_payload: "json_denotes (payload_json config batch) (build_otlp_logs_json_payload config batch)"
proof -
  let ?all = "obj_text [(''resourceLogs'', arr_text [obj_text
    [(''resource'', obj_text [(''attributes'', arr_text (otlp_resource_attrs config))]),
     (''scopeLogs'', arr_text [obj_text
       [(''scope'', obj_text [(''name'', quoted ''logit-cpp'')]),
        (''logRecords'', arr_text (map (otlp_write_log_record_json config) batch))]])]])]"
  have "list_all token_char ''logit-cpp''" by (simp add: token_char_def ctype_defs)
  then have "json_denotes (JStr ''logit-cpp'') (quoted ''logit-cpp'')" by (rule denotes_quoted_token)
  moreover have "list_all2 json_denotes (map (otlp_record_json config) batch)
      (map (otlp_write_log_record_json config) batch)"
    by (simp add: list_all2_conv_all_nth denotes_record)
  ultimately have "json_denotes (payload_json config batch) ?all"
    unfolding payload_json_def by (simp add: denotes_resource_attrs)
  moreover have "build_otlp_logs_json_payload config batch = ?all"
    by (simp add: build_otlp_logs_json_payload_def otlp_items_join otlp_records_join json_member_def
        quoted_def obj_text_def arr_text_def)
  ultimately show ?thesis by simp
qed

section \<open>Argument keys\<close>

definition base_key :: "string \<Rightarrow> string \<Rightarrow> bool" where
  "base_key p k = (\<exists>x. k = p @ x \<and> CHR ''.'' \<notin> set x)"

definition dotted :: "string \<Rightarrow> nat \<Rightarrow> string" where
  "dotted b j = b @ ''.'' @ dec_nat j"

lemma dec_nat_no_dot: "CHR ''.'' \<notin> set (dec_nat n)"
  using dec_nat_digits [of "CHR ''.''" n] by auto

lemma dotted_inject:
  assumes "base_key p b" "base_key p c" "dotted b i = dotted c j"
  shows "b = c \<and> i = j"
proof -
  obtain x y where x: "b = p @ x" "CHR ''.'' \<notin> set x" and y: "c = p @ y" "CHR ''.'' \<notin> set y"
    using assms(1,2) by (auto simp: base_key_def)
  have "x @ CHR ''.'' # dec_nat i = y @ CHR ''.'' # dec_nat j"
    using assms(3) x(1) y(1) by (simp add: dotted_def)
  from arg_cong [OF this, of "split_at (CHR ''.'')"] x y show ?thesis by simp
qed

lemma dotted_not_base: "base_key p b \<Longrightarrow> \<not> base_key p (dotted b j)"
  by (auto simp: base_key_def dotted_def)

text \<open>Every key handed out is in the table; a dotted one lies below its base's count.\<close>

definition key_inv :: "string \<Rightarrow> (string \<rightharpoonup> nat) \<Rightarrow> bool" where
  "key_inv p kc =
     (\<forall>k n. kc k = Some n \<longrightarrow> base_key p k \<or>
        (\<exists>b j m. k = dotted b j \<and> base_key p b \<and> kc b = Some m \<and> j \<le> m))"

lemma count_key_fresh:
  assumes "key_inv p kc" "base_key p b" "otlp_count_key b kc = (key, kc')"
  shows "key \<notin> dom kc \<and> dom kc' = insert key (dom kc) \<and> key_inv p kc'"
proof (cases "kc b")
  case None
  then have key: "key = b" "kc' = kc(b \<mapsto> 0)" using assms(3) by (auto simp: otlp_count_key_def)
  have "key_inv p kc'"
    unfolding key_inv_def
  proof (intro allI impI)
    fix k n
    assume "kc' k = Some n"
    then consider "k = b" | "k \<noteq> b" "kc k = Some n" by (auto simp: key split: if_splits)
    then show "base_key p k \<or> (\<exists>b j m. k = dotted b j \<and> base_key p b \<and> kc' b = Some m \<and> j \<le> m)"
    proof cases
      case 2
      with assms(1) consider "base_key p k"
        | c j m where "k = dotted c j" "base_key p c" "kc c = Some m" "j \<le> m"
        unfolding key_inv_def by blast
      then show ?thesis using None key(2) by cases (auto, metis option.distinct(1))
    qed (use assms(2) in simp)
  qed
  with key None show ?thesis by auto
next
  case (Some n)
  let ?d = "dotted b (n + 1)"
  have key: "key = ?d" "kc' = (kc(b \<mapsto> n + 1))(?d \<mapsto> 0)"
    using assms(3) Some by (auto simp: otlp_count_key_def dotted_def Let_def)
  have ne: "?d \<noteq> c" if "base_key p c" for c using dotted_not_base [OF assms(2)] that by metis
  have fresh: "?d \<notin> dom kc"
  proof
    assume "?d \<in> dom kc"
    then obtain v where "kc ?d = Some v" by auto
    with assms(1) dotted_not_base [OF assms(2)] obtain c j m where
      c: "?d = dotted c j" "base_key p c" "kc c = Some m" "j \<le> m"
      unfolding key_inv_def by blast
    from dotted_inject [OF assms(2) c(2,1)] c(3,4) Some show False by simp
  qed
  have "key_inv p kc'"
    unfolding key_inv_def
  proof (intro allI impI)
    fix k v
    assume "kc' k = Some v"
    then consider "k = ?d" | "k \<noteq> ?d" "k = b" | "k \<noteq> ?d" "kc k = Some v"
      by (auto simp: key split: if_splits)
    then show "base_key p k \<or> (\<exists>b j m. k = dotted b j \<and> base_key p b \<and> kc' b = Some m \<and> j \<le> m)"
    proof cases
      case 1
      have "kc' b = Some (n + 1)" using ne [OF assms(2)] by (simp add: key)
      with 1 assms(2) show ?thesis by blast
    next
      case 3
      with assms(1) consider "base_key p k"
        | c j m where "k = dotted c j" "base_key p c" "kc c = Some m" "j \<le> m"
        unfolding key_inv_def by blast
      then show ?thesis
      proof cases
        case (2 c j m)
        with ne [OF 2(2)] Some have "\<exists>m'. kc' c = Some m' \<and> j \<le> m'" by (auto simp: key)
        with 2 show ?thesis by blast
      qed simp
    qed (use assms(2) in simp)
  qed
  with key fresh Some show ?thesis by auto
qed

lemma arg_keys_fresh:
  assumes "key_inv p kc" "\<forall>name \<in> set names. CHR ''.'' \<notin> set name"
  shows "distinct (otlp_arg_keys p i kc names) \<and> set (otlp_arg_keys p i kc names) \<inter> dom kc = {}"
  using assms
proof (induction p i kc names rule: otlp_arg_keys.induct)
  case (2 p i kc name names)
  obtain key kc' where key: "otlp_count_key (otlp_base_key p i name) kc = (key, kc')" by force
  have "base_key p (otlp_base_key p i name)"
    using 2(3) dec_nat_no_dot [of i]
    by (auto simp: base_key_def otlp_base_key_def sanitize_otlp_key_def Let_def)
  from count_key_fresh [OF 2(2) this key]
  have fresh: "key \<notin> dom kc" "dom kc' = insert key (dom kc)" "key_inv p kc'" by auto
  from 2(1) [OF key [symmetric] fresh(3)] 2(3)
  have "distinct (otlp_arg_keys p (i + 1) kc' names)"
    "set (otlp_arg_keys p (i + 1) kc' names) \<inter> dom kc' = {}" by auto
  with fresh(1,2) key show ?case by auto
qed simp

text \<open>Names that hold a dot can collide with a counted key: the arguments of a call on the
  literals 1.1, 1 and 1.\<close>

lemma otlp_duplicate_keys:
  "otlp_arg_keys ''logit.arg.'' 0 Map.empty [''1.1'', ''1'', ''1''] =
     [''logit.arg.1.1'', ''logit.arg.1'', ''logit.arg.1.1'']"
  by (simp add: otlp_count_key_def otlp_base_key_def sanitize_otlp_key_def Let_def ctype_defs
      dec_nat.simps)

section \<open>Splitting\<close>

definition group_ok :: "OtlpJsonFormatConfig \<Rightarrow> nat \<Rightarrow> OtlpLogItem list \<Rightarrow> bool" where
  "group_ok format max_bytes g =
     (g \<noteq> [] \<and> (length (build_otlp_logs_json_payload format g) \<le> max_bytes \<or> length g = 1))"

lemma split_loop_groups:
  assumes "chunks = map (build_otlp_logs_json_payload format) gs" "list_all (group_ok format n) gs"
    and "current = [] \<or> group_ok format n current"
  shows "\<exists>groups. split_loop format n chunks current items = map (build_otlp_logs_json_payload format) groups \<and>
    concat groups = concat gs @ current @ items \<and> list_all (group_ok format n) groups"
  using assms
proof (induction format n chunks current items arbitrary: gs rule: split_loop.induct)
  case (1 format n chunks current)
  then show ?case
    by (cases "current = []") (auto intro: exI [of _ "gs @ [current]"])
next
  case (2 format n chunks current item items)
  let ?B = "build_otlp_logs_json_payload format"
  consider "length (?B (current @ [item])) \<le> n"
    | "\<not> length (?B (current @ [item])) \<le> n" "current = []"
    | "\<not> length (?B (current @ [item])) \<le> n" "current \<noteq> []" by blast
  then show ?case
  proof cases
    case 1
    from 2(1) [OF refl refl 1 2(4,5)] 1 show ?thesis by (auto simp: group_ok_def)
  next
    case 2
    from "2.IH"(2) [OF refl refl 2, of "gs @ [[item]]"] 2 "2.prems" show ?thesis
      by (auto simp: group_ok_def)
  next
    case 3
    from "2.IH"(3) [OF refl refl 3, of "gs @ [current]"] 3 "2.prems" show ?thesis
      by (auto simp: group_ok_def)
  qed
qed

lemma chunks_groups:
  "0 < n \<Longrightarrow> \<exists>groups. build_otlp_logs_json_payload_chunks batch format n =
     map (build_otlp_logs_json_payload format) groups \<and> concat groups = batch \<and> list_all (group_ok format n) groups"
  using split_loop_groups [of "[]" format "[]" n "[]" batch]
  by (auto simp: build_otlp_logs_json_payload_chunks_def)

section \<open>Properties\<close>

text \<open>C24: Every OTLP payload is JSON: whatever bytes messages, names and settings hold and whatever
  values the arguments have, the text is accepted by the reader and denotes the export request with
  the configured resource attributes and one record per item, in order.\<close>

theorem otlp_payload_read:
  "json_read (build_otlp_logs_json_payload config batch) = Some (payload_json config batch)"
  by (rule denotes_read [OF denotes_payload])

text \<open>When no argument name holds a dot, the attribute keys of a record's arguments are pairwise
  distinct, however names collide after replacing invalid characters.\<close>

theorem otlp_keys_distinct:
  assumes "\<forall>name \<in> set names. CHR ''.'' \<notin> set name"
  shows "distinct (otlp_arg_keys args_prefix 0 Map.empty names)"
  using arg_keys_fresh [of args_prefix Map.empty names 0] assms by (simp add: key_inv_def)

theorem otlp_keys_distinct_witness:
  "distinct (otlp_arg_keys ''logit.arg.'' 0 Map.empty [''a b'', ''a+b'', ''a_b'', ''_''])"
  by (rule otlp_keys_distinct) simp

text \<open>C25: Splitting loses and reorders nothing: with a positive limit the payloads are those of
  consecutive groups that together make up the batch, none of them empty, and each payload respects
  the limit unless its group is a single record.\<close>

theorem otlp_chunks_partition:
  assumes "0 < max_payload_bytes"
  shows "\<exists>groups. concat groups = batch \<and>
    build_otlp_logs_json_payload_chunks batch format max_payload_bytes =
      map (build_otlp_logs_json_payload format) groups \<and>
    (\<forall>g \<in> set groups. g \<noteq> [] \<and>
      (length g = 1 \<or> length (build_otlp_logs_json_payload format g) \<le> max_payload_bytes))"
  using chunks_groups [OF assms, of batch format]
  by (auto simp: list_all_iff group_ok_def)

definition otlp_demo_item :: OtlpLogItem where
  "otlp_demo_item =
     \<lparr>oi_record = \<lparr>os_log_level = LOG_LVL_INFO, os_timestamp_ms = 5, os_file = ''m.cpp'', os_line = 7,
        os_function = ''main'', os_format = [], os_arg_names = [], os_args_array = [],
        os_thread_id = ''1'', os_logger_index = - 1, os_print_mode = False, os_fmt_mode = False,
        os_raw_mode = False\<rparr>, oi_message = ''hi''\<rparr>"

theorem otlp_chunks_partition_witness:
  "\<exists>groups. concat groups = [otlp_demo_item, otlp_demo_item] \<and>
    build_otlp_logs_json_payload_chunks [otlp_demo_item, otlp_demo_item] OtlpJsonFormatConfig_default 100 =
      map (build_otlp_logs_json_payload OtlpJsonFormatConfig_default) groups"
  using otlp_chunks_partition [of 100 "[otlp_demo_item, otlp_demo_item]" OtlpJsonFormatConfig_default]
  by auto

end
