(* ===== verification/OtlpLogger.thy ===== *)
theory OtlpLogger
  imports OtlpProps Executor ILogger
begin

text \<open>
  The callback exporter (\<open>OtlpPayloadLogger.hpp\<close>): a bounded queue, a worker
  that takes batches, serializes them into payloads and hands each payload to
  the user's callback.  \<open>throws\<close> says on which payloads the callback raises;
  \<open>ol_payloads\<close> records the payloads handed over, in order.  The critical
  sections of \<open>m_mutex\<close> are the atomic steps; histories use the events of the
  task executor, with every drop counted as a refusal.  The counters stay below
  2^64.
\<close>

section \<open>State\<close>

record OtlpPayload_Config =
  pc_format :: OtlpJsonFormatConfig
  pc_has_callback :: bool
  pc_async :: bool
  pc_max_payload_bytes :: nat
  pc_max_batch_size :: nat
  pc_max_queue_size :: nat
  pc_drop_on_overflow :: bool

definition OtlpPayload_Config_default :: OtlpPayload_Config where
  "OtlpPayload_Config_default =
     \<lparr>pc_format = OtlpJsonFormatConfig_default, pc_has_callback = False, pc_async = True,
      pc_max_payload_bytes = 1024 * 1024, pc_max_batch_size = 256, pc_max_queue_size = 1024,
      pc_drop_on_overflow = True\<rparr>"

record OtlpPayloadLogger =
  ol_config :: OtlpPayload_Config
  ol_queue :: "OtlpLogItem list"
  ol_stopping :: bool
  ol_idle :: bool
  ol_log_level :: LogLevel
  ol_last_log_ts :: int
  ol_dropped :: nat
  ol_failed_exports :: nat
  ol_payloads :: "string list"

definition OtlpPayloadLogger_init :: "OtlpPayload_Config \<Rightarrow> OtlpPayloadLogger" where
  "OtlpPayloadLogger_init c =
     \<lparr>ol_config = c, ol_queue = [], ol_stopping = False, ol_idle = True, ol_log_level = LOG_LVL_TRACE,
      ol_last_log_ts = 0, ol_dropped = 0, ol_failed_exports = 0, ol_payloads = []\<rparr>"

section \<open>Operations\<close>

definition otlp_export :: "(string \<Rightarrow> bool) \<Rightarrow> OtlpLogItem list \<Rightarrow> OtlpPayloadLogger \<Rightarrow> OtlpPayloadLogger" where
  "otlp_export throws batch s =
     (let chunks = build_otlp_logs_json_payload_chunks batch (pc_format (ol_config s))
                     (pc_max_payload_bytes (ol_config s))
      in if pc_has_callback (ol_config s) then
           s\<lparr>ol_payloads := ol_payloads s @ chunks,
             ol_failed_exports := ol_failed_exports s + length (filter throws chunks)\<rparr>
         else s)"

definition ol_drop :: "OtlpPayloadLogger \<Rightarrow> OtlpPayloadLogger" where
  "ol_drop s = s\<lparr>ol_dropped := ol_dropped s + 1\<rparr>"

definition ol_push :: "OtlpLogItem \<Rightarrow> OtlpPayloadLogger \<Rightarrow> OtlpPayloadLogger" where
  "ol_push item s = s\<lparr>ol_queue := ol_queue s @ [item]\<rparr>"

text \<open>The item a call makes, and the two parts of \<open>log\<close>: up to the wait for space, and after it.\<close>

definition otlp_item :: "platform \<Rightarrow> LogRecord \<Rightarrow> string \<Rightarrow> OtlpLogItem" where
  "otlp_item P record message =
     \<lparr>oi_record = make_otlp_record_snapshot P record, oi_message = message\<rparr>"

definition otlp_log_item :: "(string \<Rightarrow> bool) \<Rightarrow> OtlpLogItem \<Rightarrow> OtlpPayloadLogger
   \<Rightarrow> OtlpPayloadLogger \<times> add_result \<times> OtlpLogItem te_event list" where
  "otlp_log_item throws item s =
     (if \<not> pc_async (ol_config s) then
        (if ol_stopping s then (ol_drop s, AddReturn, [Refused item])
         else (otlp_export throws [item] s, AddReturn, [Accepted item, Finished item]))
      else if ol_stopping s then (ol_drop s, AddReturn, [Refused item])
      else if pc_max_queue_size (ol_config s) \<le> length (ol_queue s) then
        (if pc_drop_on_overflow (ol_config s) then (ol_drop s, AddReturn, [Refused item])
         else (s, AddSleep, [Slept item]))
      else (ol_push item s, AddPushed, [Accepted item]))"

definition OtlpPayloadLogger_log ::
  "platform \<Rightarrow> (string \<Rightarrow> bool) \<Rightarrow> LogRecord \<Rightarrow> string \<Rightarrow> OtlpPayloadLogger
   \<Rightarrow> OtlpPayloadLogger \<times> add_result \<times> OtlpLogItem te_event list" where
  "OtlpPayloadLogger_log P throws record message s =
     (if \<not> pc_has_callback (ol_config s) then (s, AddReturn, [])
      else otlp_log_item throws (otlp_item P record message) (s\<lparr>ol_last_log_ts := lr_timestamp_ms record\<rparr>))"

definition otlp_log_resume ::
  "OtlpLogItem \<Rightarrow> OtlpPayloadLogger \<Rightarrow> OtlpPayloadLogger \<times> add_result \<times> OtlpLogItem te_event list" where
  "otlp_log_resume item s =
     (if \<not> (ol_stopping s \<or> length (ol_queue s) < pc_max_queue_size (ol_config s))
      then (s, AddSleep, [Slept item])
      else if ol_stopping s then (ol_drop s, AddReturn, [Refused item])
      else (ol_push item s, AddPushed, [Accepted item]))"

definition otlp_wait_ready :: "OtlpPayloadLogger \<Rightarrow> bool" where
  "otlp_wait_ready s = (\<not> pc_async (ol_config s) \<or> ol_queue s = [] \<and> ol_idle s)"

definition otlp_stop :: "OtlpPayloadLogger \<Rightarrow> OtlpPayloadLogger" where
  "otlp_stop s = (if ol_stopping s then s else s\<lparr>ol_stopping := True\<rparr>)"

definition counter_to_int64 :: "nat \<Rightarrow> int" where
  "counter_to_int64 value = (if 2 ^ 63 - 1 < value then 2 ^ 63 - 1 else int value)"

definition otlp_time_since_last_log :: "int \<Rightarrow> OtlpPayloadLogger \<Rightarrow> int" where
  "otlp_time_since_last_log now s =
     (let last = ol_last_log_ts s in if last \<le> 0 then 0 else if last < now then now - last else 0)"

definition otlp_get_int_param :: "int \<Rightarrow> LoggerParam \<Rightarrow> OtlpPayloadLogger \<Rightarrow> int" where
  "otlp_get_int_param now param s =
     (case param of
        LastLogTimestamp \<Rightarrow> ol_last_log_ts s
      | TimeSinceLastLog \<Rightarrow> otlp_time_since_last_log now s
      | DroppedLogCount \<Rightarrow> counter_to_int64 (ol_dropped s)
      | FailedExportCount \<Rightarrow> counter_to_int64 (ol_failed_exports s)
      | _ \<Rightarrow> 0)"

definition otlp_get_string_param :: "int \<Rightarrow> LoggerParam \<Rightarrow> OtlpPayloadLogger \<Rightarrow> string" where
  "otlp_get_string_param now param s =
     (case param of
        LastLogTimestamp \<Rightarrow> dec_int (ol_last_log_ts s)
      | TimeSinceLastLog \<Rightarrow> dec_int (otlp_time_since_last_log now s)
      | DroppedLogCount \<Rightarrow> dec_nat (ol_dropped s)
      | FailedExportCount \<Rightarrow> dec_nat (ol_failed_exports s)
      | _ \<Rightarrow> [])"

text \<open>The worker between iterations, with a batch to export, and gone.\<close>

datatype otlp_worker = OwWait | OwExport "OtlpLogItem list" | OwExit

fun take_batch :: "nat \<Rightarrow> OtlpLogItem list \<Rightarrow> OtlpLogItem list \<Rightarrow> OtlpLogItem list \<times> OtlpLogItem list" where
  "take_batch n batch [] = (batch, [])"
| "take_batch n batch (x # queue) =
     (if length batch < n then take_batch n (batch @ [x]) queue else (batch, x # queue))"

text \<open>\<open>None\<close>: the wait has not ended, or ended by its timeout with nothing to do.\<close>

definition otlp_worker_take :: "OtlpPayloadLogger \<Rightarrow> (OtlpPayloadLogger \<times> otlp_worker) option" where
  "otlp_worker_take s =
     (if ol_stopping s \<and> ol_queue s = [] then Some (s\<lparr>ol_idle := True\<rparr>, OwExit)
      else if ol_queue s = [] then None
      else case take_batch (pc_max_batch_size (ol_config s)) [] (ol_queue s) of
        (batch, queue) \<Rightarrow> Some (s\<lparr>ol_idle := False, ol_queue := queue\<rparr>, OwExport batch))"

definition otlp_worker_export :: "(string \<Rightarrow> bool) \<Rightarrow> OtlpLogItem list \<Rightarrow> OtlpPayloadLogger \<Rightarrow> OtlpPayloadLogger" where
  "otlp_worker_export throws batch s =
     (if batch \<noteq> [] then otlp_export throws batch s else s)\<lparr>ol_idle := True\<rparr>"

section \<open>Interleavings\<close>

record otlp_system =
  ow_logger :: OtlpPayloadLogger
  ow_worker :: otlp_worker
  ow_blocked :: "OtlpLogItem list"

definition otlp_system_init :: "OtlpPayload_Config \<Rightarrow> otlp_system" where
  "otlp_system_init c =
     \<lparr>ow_logger = OtlpPayloadLogger_init c, ow_worker = (if pc_async c then OwWait else OwExit), ow_blocked = []\<rparr>"

inductive otlp_step :: "platform \<Rightarrow> (string \<Rightarrow> bool) \<Rightarrow> otlp_system \<Rightarrow> OtlpLogItem te_event list \<Rightarrow> otlp_system \<Rightarrow> bool"
  for P throws where
  log: "OtlpPayloadLogger_log P throws record msg (ow_logger s) = (l', res, ev) \<Longrightarrow>
     otlp_step P throws s ev (s\<lparr>ow_logger := l',
        ow_blocked := (if res = AddSleep then ow_blocked s @ [otlp_item P record msg] else ow_blocked s)\<rparr>)"
| resume: "ow_blocked s = xs @ item # ys \<Longrightarrow> otlp_log_resume item (ow_logger s) = (l', res, ev) \<Longrightarrow>
     otlp_step P throws s ev (s\<lparr>ow_logger := l',
        ow_blocked := (if res = AddSleep then ow_blocked s else xs @ ys)\<rparr>)"
| take: "ow_worker s = OwWait \<Longrightarrow> otlp_worker_take (ow_logger s) = Some (l', w) \<Longrightarrow>
     otlp_step P throws s [] (s\<lparr>ow_logger := l', ow_worker := w\<rparr>)"
| export: "ow_worker s = OwExport batch \<Longrightarrow>
     otlp_step P throws s (map Finished batch)
       (s\<lparr>ow_logger := otlp_worker_export throws batch (ow_logger s), ow_worker := OwWait\<rparr>)"
| stop: "otlp_step P throws s [] (s\<lparr>ow_logger := otlp_stop (ow_logger s)\<rparr>)"
| level: "otlp_step P throws s [] (s\<lparr>ow_logger := (ow_logger s)\<lparr>ol_log_level := lvl\<rparr>\<rparr>)"

inductive otlp_run :: "platform \<Rightarrow> (string \<Rightarrow> bool) \<Rightarrow> OtlpPayload_Config \<Rightarrow> OtlpLogItem te_event list \<Rightarrow> otlp_system \<Rightarrow> bool"
  for P throws c where
  init: "otlp_run P throws c [] (otlp_system_init c)"
| step: "otlp_run P throws c evs s \<Longrightarrow> otlp_step P throws s ev s' \<Longrightarrow> otlp_run P throws c (evs @ ev) s'"

section \<open>Invariant\<close>

primrec batch_of :: "otlp_worker \<Rightarrow> OtlpLogItem list" where
  "batch_of OwWait = []"
| "batch_of (OwExport b) = b"
| "batch_of OwExit = []"

text \<open>The payloads handed over are those of batches that make up the completed items.\<close>

definition exported :: "OtlpPayload_Config \<Rightarrow> OtlpLogItem list \<Rightarrow> string list \<Rightarrow> bool" where
  "exported c items payloads =
     (\<exists>groups. payloads = map (build_otlp_logs_json_payload (pc_format c)) groups \<and> concat groups = items \<and>
        (0 < pc_max_payload_bytes c \<longrightarrow> list_all (group_ok (pc_format c) (pc_max_payload_bytes c)) groups))"

definition otlp_inv :: "OtlpPayload_Config \<Rightarrow> OtlpLogItem te_event list \<Rightarrow> OtlpPayloadLogger \<Rightarrow> otlp_worker \<Rightarrow> bool" where
  "otlp_inv c evs l w =
     (ol_config l = c \<and> accepted evs = finished evs @ batch_of w @ ol_queue l \<and> evicted evs = [] \<and>
      exported c (finished evs) (ol_payloads l) \<and> ol_dropped l = drops evs \<and>
      (ol_idle l \<longleftrightarrow> (\<forall>b. w \<noteq> OwExport b)) \<and>
      (w = OwExit \<longrightarrow> ol_queue l = []) \<and> (w = OwExit \<and> pc_async c \<longrightarrow> ol_stopping l) \<and>
      (\<not> pc_async c \<longrightarrow> w = OwExit) \<and> (accepted evs \<noteq> [] \<longrightarrow> pc_has_callback c) \<and>
      (pc_async c \<and> pc_max_batch_size c = 0 \<longrightarrow> finished evs @ batch_of w = []))"

lemma exported_Nil: "exported c [] []"
  unfolding exported_def by (intro exI [of _ "[]"]) simp

lemma exported_append:
  assumes "exported c items payloads"
  shows "exported c (items @ batch)
    (payloads @ build_otlp_logs_json_payload_chunks batch (pc_format c) (pc_max_payload_bytes c))"
proof -
  let ?B = "build_otlp_logs_json_payload (pc_format c)"
  from assms obtain gs where gs: "payloads = map ?B gs" "concat gs = items"
    "0 < pc_max_payload_bytes c \<longrightarrow> list_all (group_ok (pc_format c) (pc_max_payload_bytes c)) gs"
    by (auto simp: exported_def)
  obtain hs where hs: "build_otlp_logs_json_payload_chunks batch (pc_format c) (pc_max_payload_bytes c) = map ?B hs"
    "concat hs = batch"
    "0 < pc_max_payload_bytes c \<longrightarrow> list_all (group_ok (pc_format c) (pc_max_payload_bytes c)) hs"
  proof (cases "0 < pc_max_payload_bytes c")
    case True
    with chunks_groups [of "pc_max_payload_bytes c" batch "pc_format c"] that show thesis by blast
  next
    case False
    then show thesis by (intro that [of "[batch]"]) (simp_all add: build_otlp_logs_json_payload_chunks_def)
  qed
  from gs hs show ?thesis
    unfolding exported_def by (intro exI [of _ "gs @ hs"]) simp
qed

lemma take_batch_eq:
  "take_batch n batch queue = (batch @ take (n - length batch) queue, drop (n - length batch) queue)"
proof (induction n batch queue rule: take_batch.induct)
  case (2 n batch x queue)
  show ?case
  proof (cases "length batch < n")
    case True
    then have "n - length batch = Suc (n - Suc (length batch))" by arith
    with True 2 show ?thesis by simp
  qed simp
qed simp

lemma history_finished_map [simp]:
  "finished (map Finished b) = b" "accepted (map Finished b) = []" "evicted (map Finished b) = []"
  "foldl count_drop n (map Finished b) = n"
  by (induction b arbitrary: n) simp_all

lemma otlp_export_sel [simp]:
  "ol_config (otlp_export t b s) = ol_config s" "ol_queue (otlp_export t b s) = ol_queue s"
  "ol_stopping (otlp_export t b s) = ol_stopping s" "ol_idle (otlp_export t b s) = ol_idle s"
  "ol_dropped (otlp_export t b s) = ol_dropped s"
  "pc_has_callback (ol_config s) \<Longrightarrow> ol_payloads (otlp_export t b s) = ol_payloads s @
     build_otlp_logs_json_payload_chunks b (pc_format (ol_config s)) (pc_max_payload_bytes (ol_config s))"
  by (simp_all add: otlp_export_def Let_def)

lemma otlp_inv_log:
  assumes "otlp_inv c evs l w" "OtlpPayloadLogger_log P throws record msg l = (l', res, ev)"
  shows "otlp_inv c (evs @ ev) l' w"
proof (cases "pc_has_callback c")
  case False
  with assms have "l' = l" "ev = []" by (auto simp: OtlpPayloadLogger_log_def otlp_inv_def)
  with assms show ?thesis by simp
next
  case True
  let ?item = "otlp_item P record msg"
  have c: "ol_config l = c" using assms(1) by (simp add: otlp_inv_def)
  from True c assms(2)
  have step: "otlp_log_item throws ?item (l\<lparr>ol_last_log_ts := lr_timestamp_ms record\<rparr>) = (l', res, ev)"
    by (simp add: OtlpPayloadLogger_log_def)
  show ?thesis
  proof (cases "pc_async c")
    case sync: False
    with assms(1) have "w = OwExit" "ol_queue l = []" by (auto simp: otlp_inv_def)
    with sync assms(1) step c True exported_append [of c "finished evs" "ol_payloads l" "[?item]"] show ?thesis
      by (auto simp: otlp_log_item_def otlp_inv_def ol_drop_def split: if_splits)
  next
    case async: True
    with assms(1) step c True show ?thesis
      by (auto simp: otlp_log_item_def otlp_inv_def ol_drop_def ol_push_def split: if_splits)
  qed
qed

lemma otlp_inv_resume:
  assumes "otlp_inv c evs l w" "pc_async c" "pc_has_callback c" "otlp_log_resume item l = (l', res, ev)"
  shows "otlp_inv c (evs @ ev) l' w"
  using assms by (auto simp: otlp_log_resume_def otlp_inv_def ol_drop_def ol_push_def split: if_splits)

lemma otlp_inv_take:
  assumes "otlp_inv c evs l OwWait" "otlp_worker_take l = Some (l', w)"
  shows "otlp_inv c evs l' w"
  using assms
  by (auto simp: otlp_worker_take_def otlp_inv_def take_batch_eq split: if_splits)

lemma otlp_inv_export:
  assumes "otlp_inv c evs l (OwExport batch)"
  shows "otlp_inv c (evs @ map Finished batch) (otlp_worker_export throws batch l) OwWait"
proof -
  have "accepted evs \<noteq> [] \<longrightarrow> pc_has_callback (ol_config l)" using assms by (simp add: otlp_inv_def)
  moreover have "accepted evs = finished evs @ batch @ ol_queue l" using assms by (simp add: otlp_inv_def)
  ultimately show ?thesis
    using assms exported_append [of c "finished evs" "ol_payloads l" batch]
    by (auto simp: otlp_worker_export_def otlp_inv_def)
qed

lemma otlp_run_inv:
  "otlp_run P throws c evs s \<Longrightarrow> otlp_inv c evs (ow_logger s) (ow_worker s) \<and>
     (ow_blocked s \<noteq> [] \<longrightarrow> pc_async c \<and> pc_has_callback c)"
proof (induction rule: otlp_run.induct)
  case init
  show ?case by (auto simp: otlp_inv_def otlp_system_init_def OtlpPayloadLogger_init_def exported_Nil)
next
  case (step evs s ev s')
  then have inv: "otlp_inv c evs (ow_logger s) (ow_worker s)"
    and blocked: "ow_blocked s \<noteq> [] \<longrightarrow> pc_async c \<and> pc_has_callback c" by auto
  have cfg: "ol_config (ow_logger s) = c" using inv by (simp add: otlp_inv_def)
  from step(2) show ?case
  proof cases
    case (log record' msg l' res)
    have "res = AddSleep \<longrightarrow> pc_async c \<and> pc_has_callback c"
      using log(2) cfg by (auto simp: OtlpPayloadLogger_log_def otlp_log_item_def split: if_splits)
    with log otlp_inv_log [OF inv log(2)] blocked show ?thesis by auto
  next
    case (resume xs item ys l' res)
    then have "pc_async c" "pc_has_callback c" using blocked by auto
    with resume otlp_inv_resume [OF inv _ _ resume(3)] show ?thesis by simp
  next
    case (take l' w)
    with inv blocked otlp_inv_take [of c evs "ow_logger s" l' w] show ?thesis by simp
  next
    case (export batch)
    with inv blocked otlp_inv_export [of c evs "ow_logger s" batch throws] show ?thesis by simp
  next
    case stop
    with inv blocked show ?thesis by (auto simp: otlp_inv_def otlp_stop_def)
  next
    case level
    with inv blocked show ?thesis by (auto simp: otlp_inv_def)
  qed
qed

definition otlp_idle :: "otlp_system \<Rightarrow> bool" where
  "otlp_idle s = (otlp_wait_ready (ow_logger s) \<or> ow_worker s = OwExit)"

lemma otlp_idle_done:
  assumes "otlp_run P throws c evs s" "otlp_idle s"
  shows "accepted evs = finished evs"
proof -
  have inv: "otlp_inv c evs (ow_logger s) (ow_worker s)" using otlp_run_inv [OF assms(1)] ..
  have "batch_of (ow_worker s) = []" if "ol_idle (ow_logger s)"
    using that inv unfolding otlp_inv_def by (cases "ow_worker s") auto
  with inv assms(2) show ?thesis
    by (auto simp: otlp_inv_def otlp_idle_def otlp_wait_ready_def)
qed

text \<open>The exporter offers its clients the contract of an executor.\<close>

interpretation ol: fifo_executor "otlp_run P throws c" accepted evicted finished otlp_idle
proof
  fix evs s
  assume run: "otlp_run P throws c evs s"
  have inv: "otlp_inv c evs (ow_logger s) (ow_worker s)" using otlp_run_inv [OF run] ..
  then show "subseq (finished evs) (accepted evs)"
    by (auto simp: otlp_inv_def list_emb_prefix)
  assume "otlp_idle s"
  from otlp_idle_done [OF run this] inv
  show "mset (accepted evs) = mset (finished evs) + mset (evicted evs)" by (simp add: otlp_inv_def)
qed

section \<open>Properties\<close>

text \<open>C26: When \<open>wait\<close> can return, or the worker that \<open>shutdown\<close> joins has left, the payloads handed to
  the callback are exactly those of the accepted records: consecutive groups in order of acceptance,
  within the size limit unless a single record exceeds it, and every other record is counted as
  dropped.\<close>

theorem otlp_export_complete:
  assumes "otlp_run P throws c evs s" "otlp_wait_ready (ow_logger s) \<or> ow_worker s = OwExit"
  shows "\<exists>groups. concat groups = accepted evs \<and>
    ol_payloads (ow_logger s) = map (build_otlp_logs_json_payload (pc_format c)) groups \<and>
    (\<forall>g \<in> set groups. 0 < pc_max_payload_bytes c \<longrightarrow> length g = 1 \<or>
      length (build_otlp_logs_json_payload (pc_format c) g) \<le> pc_max_payload_bytes c) \<and>
    ol_dropped (ow_logger s) = drops evs"
proof -
  have inv: "otlp_inv c evs (ow_logger s) (ow_worker s)" using otlp_run_inv [OF assms(1)] ..
  have "otlp_idle s" using assms(2) by (simp add: otlp_idle_def)
  from ol.lossless [OF assms(1) this] inv
  have "exported c (accepted evs) (ol_payloads (ow_logger s))" "ol_dropped (ow_logger s) = drops evs"
    by (auto simp: otlp_inv_def)
  then show ?thesis by (auto simp: exported_def list_all_iff group_ok_def)
qed

definition otlp_demo_config :: OtlpPayload_Config where
  "otlp_demo_config = OtlpPayload_Config_default\<lparr>pc_has_callback := True, pc_async := False, pc_max_payload_bytes := 0\<rparr>"

theorem otlp_export_complete_witness:
  "\<forall>P. let r = make_LogRecord 1 thread_context_init LOG_LVL_INFO 5 [] 0 [] [] [] (- 1) False False False;
           item = otlp_item P r ''hi''
       in \<exists>s. otlp_run P (\<lambda>_. False) otlp_demo_config [Accepted item, Finished item] s \<and>
            (\<exists>groups. concat groups = [item] \<and> ol_payloads (ow_logger s) =
               map (build_otlp_logs_json_payload (pc_format otlp_demo_config)) groups)"
proof (intro allI)
  fix P
  let ?r = "make_LogRecord 1 thread_context_init LOG_LVL_INFO 5 [] 0 [] [] [] (- 1) False False False"
  let ?s = "otlp_system_init otlp_demo_config"
  let ?item = "otlp_item P ?r ''hi''"
  obtain l' where "OtlpPayloadLogger_log P (\<lambda>_. False) ?r ''hi'' (ow_logger ?s) =
      (l', AddReturn, [Accepted ?item, Finished ?item])" and l': "ol_config l' = otlp_demo_config"
    by (simp add: OtlpPayloadLogger_log_def otlp_log_item_def otlp_system_init_def
        OtlpPayloadLogger_init_def otlp_demo_config_def OtlpPayload_Config_default_def)
  from otlp_run.step [OF otlp_run.init otlp_step.log [OF this(1)]]
  have run: "otlp_run P (\<lambda>_. False) otlp_demo_config [Accepted ?item, Finished ?item] (?s\<lparr>ow_logger := l'\<rparr>)"
    by (simp add: otlp_system_init_def)
  have "otlp_wait_ready (ow_logger (?s\<lparr>ow_logger := l'\<rparr>))"
    by (simp add: otlp_wait_ready_def l' otlp_demo_config_def)
  from otlp_export_complete [OF run disjI1 [OF this]] obtain groups where
    "concat groups = [?item]"
    "ol_payloads (ow_logger (?s\<lparr>ow_logger := l'\<rparr>)) =
       map (build_otlp_logs_json_payload (pc_format otlp_demo_config)) groups"
    by auto
  with run show "let r = ?r; item = otlp_item P r ''hi''
       in \<exists>s. otlp_run P (\<lambda>_. False) otlp_demo_config [Accepted item, Finished item] s \<and>
            (\<exists>groups. concat groups = [item] \<and> ol_payloads (ow_logger s) =
               map (build_otlp_logs_json_payload (pc_format otlp_demo_config)) groups)"
    unfolding Let_def by blast
qed

text \<open>With a batch size of 0 the worker takes nothing: once a record is accepted, \<open>wait\<close>
  cannot return and the worker does not leave its loop.\<close>

lemma otlp_zero_batch_stuck:
  assumes "otlp_run P throws c evs s" "pc_async c" "pc_max_batch_size c = 0" "accepted evs \<noteq> []"
  shows "\<not> otlp_wait_ready (ow_logger s) \<and> ow_worker s \<noteq> OwExit"
proof -
  have inv: "otlp_inv c evs (ow_logger s) (ow_worker s)" using otlp_run_inv [OF assms(1)] ..
  then have fin: "finished evs = []" using assms(2,3) by (simp add: otlp_inv_def)
  with assms otlp_idle_done [OF assms(1)] have "\<not> otlp_idle s" by auto
  then show ?thesis by (simp add: otlp_idle_def)
qed

end
